(* ===== verification/Prelude.thy ===== *)
theory Prelude
  imports Main "HOL-Library.Sublist" "HOL-Library.Code_Target_Nat"
begin

text \<open>
  Shared vocabulary of the development.

  \<^item> JavaScript strings are HOL strings, a list of code units below 256: the model covers the
    Latin-1 part of UTF-16. The string methods the source calls (\<open>trim\<close>, \<open>toLowerCase\<close>,
    \<open>split\<close>, \<open>join\<close>, \<open>startsWith\<close>, \<open>endsWith\<close>, \<open>includes\<close>, \<open>slice\<close>,
    \<open>lastIndexOf\<close>) are written out here on that range.
  \<^item> A point in time is an integer number of milliseconds, as \<open>Date.now()\<close> gives it. Every
    operation that reads the clock takes the time as its argument \<open>now\<close>.
  \<^item> A database table is the list of its rows in insertion order; \<open>find\<close>, \<open>filter\<close>,
    \<open>count_where\<close>, \<open>update_where\<close> and \<open>destroy_where\<close> stand for the queries
    \<open>findOne\<close>, \<open>findAll\<close>, \<open>count\<close>, \<open>update\<close> and \<open>destroy\<close>, whose
    conditions are the ones written in the source.
\<close>

type_synonym time = int

text \<open>Facts about table primitives and about the string functions, for the simplifier.\<close>

named_theorems table_simps
named_theorems str_simps

subsection \<open>Tables\<close>

definition count_where :: "('r \<Rightarrow> bool) \<Rightarrow> 'r list \<Rightarrow> nat" where
  "count_where p rows = length (filter p rows)"

definition update_where :: "('r \<Rightarrow> bool) \<Rightarrow> ('r \<Rightarrow> 'r) \<Rightarrow> 'r list \<Rightarrow> 'r list" where
  "update_where p f rows = map (\<lambda>r. if p r then f r else r) rows"

definition destroy_where :: "('r \<Rightarrow> bool) \<Rightarrow> 'r list \<Rightarrow> 'r list" where
  "destroy_where p rows = filter (\<lambda>r. \<not> p r) rows"

lemma set_update_where [table_simps]:
  "set (update_where p f rows) = (\<lambda>r. if p r then f r else r) ` set rows"
  by (simp add: update_where_def)

lemma length_update_where [table_simps]: "length (update_where p f rows) = length rows"
  by (simp add: update_where_def)

lemma set_destroy_where [table_simps]: "set (destroy_where p rows) = {r \<in> set rows. \<not> p r}"
  by (auto simp: destroy_where_def)

lemma map_update_where:
  "(\<And>r. p r \<Longrightarrow> k (f r) = k r) \<Longrightarrow> map k (update_where p f rows) = map k rows"
  by (simp add: update_where_def)

lemma distinct_destroy_where: "distinct (map k rows) \<Longrightarrow> distinct (map k (destroy_where p rows))"
  by (simp add: destroy_where_def distinct_map_filter)

lemma count_where_0 [table_simps]: "count_where p rows = 0 \<longleftrightarrow> (\<forall>r \<in> set rows. \<not> p r)"
  by (simp add: count_where_def filter_empty_conv)

lemma count_where_pos [table_simps]: "0 < count_where p rows \<longleftrightarrow> (\<exists>r \<in> set rows. p r)"
  by (simp add: count_where_def filter_empty_conv)

lemma count_where_conj:
  "count_where p rows = count_where (\<lambda>r. p r \<and> q r) rows + count_where (\<lambda>r. p r \<and> \<not> q r) rows"
  by (induction rows) (auto simp: count_where_def)

lemma find_SomeD: "find p xs = Some x \<Longrightarrow> x \<in> set xs \<and> p x"
  by (auto simp: find_Some_iff)

lemma find_NoneD: "find p xs = None \<Longrightarrow> x \<in> set xs \<Longrightarrow> \<not> p x"
  by (simp add: find_None_iff)

lemma find_unique:
  "distinct (map k xs) \<Longrightarrow> x \<in> set xs \<Longrightarrow> find (\<lambda>y. k y = k x) xs = Some x"
  by (induction xs) auto

lemma distinct_keyD:
  "distinct (map k xs) \<Longrightarrow> x \<in> set xs \<Longrightarrow> y \<in> set xs \<Longrightarrow> k x = k y \<Longrightarrow> x = y"
  by (auto simp: distinct_map inj_on_def)

lemma find_filter: "find p (filter q xs) = find (\<lambda>x. q x \<and> p x) xs"
  by (induction xs) auto

lemma find_append: "find p (xs @ ys) = (case find p xs of None \<Rightarrow> find p ys | Some x \<Rightarrow> Some x)"
  by (induction xs) auto

lemma find_map: "find p (map f xs) = map_option f (find (\<lambda>x. p (f x)) xs)"
  by (induction xs) auto

lemma find_cong_set: "(\<And>x. x \<in> set xs \<Longrightarrow> p x = q x) \<Longrightarrow> find p xs = find q xs"
  by (induction xs) auto

subsection \<open>The first of each key\<close>

fun first_by :: "('a \<Rightarrow> 'k) \<Rightarrow> 'a list \<Rightarrow> 'a list \<Rightarrow> 'a list" where
  "first_by k out [] = out"
| "first_by k out (a # as) = first_by k (if list_ex (\<lambda>b. k b = k a) out then out else out @ [a]) as"

lemma first_by_append: "first_by k out (as @ bs) = first_by k (first_by k out as) bs"
  by (induction as arbitrary: out) auto

lemma first_by_set: "set (first_by k out as) \<subseteq> set out \<union> set as"
proof (induction as arbitrary: out)
  case (Cons a as)
  then show ?case using Cons.IH [of out] Cons.IH [of "out @ [a]"] by auto
qed simp

lemma first_by_length: "length (first_by k out as) \<le> length out + length as"
proof (induction as arbitrary: out)
  case (Cons a as)
  have "length (first_by k out as) \<le> Suc (length out + length as)" using Cons.IH [of out] by linarith
  moreover have "length (first_by k (out @ [a]) as) \<le> Suc (length out + length as)" using Cons.IH [of "out @ [a]"] by simp
  ultimately show ?case by simp
qed simp

lemma first_by_keys: "k ` set (first_by k out as) = k ` set out \<union> k ` set as"
proof (induction as arbitrary: out)
  case (Cons a as)
  show ?case
  proof (cases "list_ex (\<lambda>b. k b = k a) out")
    case True
    then have "k a \<in> k ` set out" by (auto simp: list_ex_iff) (metis imageI)
    with True Cons.IH [of out] show ?thesis by auto
  next
    case False
    with Cons.IH [of "out @ [a]"] show ?thesis by auto
  qed
qed simp

lemma first_by_distinct: "distinct (map k out) \<Longrightarrow> distinct (map k (first_by k out as))"
proof (induction as arbitrary: out)
  case (Cons a as)
  show ?case
  proof (cases "list_ex (\<lambda>b. k b = k a) out")
    case False
    then have "distinct (map k (out @ [a]))" using Cons.prems by (fastforce simp: list_ex_iff)
    with False Cons.IH show ?thesis by simp
  qed (use Cons in simp)
qed simp

lemma first_by_id: "distinct (map k (out @ as)) \<Longrightarrow> first_by k out as = out @ as"
proof (induction as arbitrary: out)
  case (Cons a as)
  then have "k a \<notin> k ` set out" by auto
  then have "\<not> list_ex (\<lambda>b. k b = k a) out" by (auto simp: list_ex_iff) (metis imageI)
  with Cons.IH [of "out @ [a]"] Cons.prems show ?case by simp
qed simp

lemma first_by_filter:
  "first_by k (filter (\<lambda>a. k a \<noteq> m) out) (filter (\<lambda>a. k a \<noteq> m) as) = filter (\<lambda>a. k a \<noteq> m) (first_by k out as)"
proof (induction as arbitrary: out)
  case (Cons a as)
  show ?case
  proof (cases "k a = m")
    case True
    with Cons.IH [of out] Cons.IH [of "out @ [a]"] show ?thesis by simp
  next
    case False
    then have "list_ex (\<lambda>b. k b = k a) (filter (\<lambda>a. k a \<noteq> m) out) = list_ex (\<lambda>b. k b = k a) out"
      by (auto simp: list_ex_iff)
    with False Cons.IH [of out] Cons.IH [of "out @ [a]"] show ?thesis by simp
  qed
qed simp

subsection \<open>Characters\<close>

abbreviation code_unit :: "char \<Rightarrow> nat" where
  "code_unit c \<equiv> of_char c"

definition js_space :: "char \<Rightarrow> bool" where
  \<comment> \<open>what \<open>trim\<close> and the class \<open>\s\<close> take as white space, below U+0100\<close>
  "js_space c \<longleftrightarrow> (9 \<le> code_unit c \<and> code_unit c \<le> 13) \<or> code_unit c = 32 \<or> code_unit c = 160"

definition js_digit :: "char \<Rightarrow> bool" where
  "js_digit c \<longleftrightarrow> 48 \<le> code_unit c \<and> code_unit c \<le> 57"

definition js_upper_char :: "char \<Rightarrow> bool" where
  "js_upper_char c \<longleftrightarrow> (65 \<le> code_unit c \<and> code_unit c \<le> 90) \<or>
     (192 \<le> code_unit c \<and> code_unit c \<le> 222 \<and> code_unit c \<noteq> 215)"

definition lower_char :: "char \<Rightarrow> char" where
  "lower_char c = (if js_upper_char c then char_of (code_unit c + 32) else c)"

lemma code_unit_less: "code_unit c < 256"
proof -
  have "of_char c \<in> range (of_char :: char \<Rightarrow> nat)" by simp
  then show ?thesis by (simp only: range_nat_of_char) simp
qed

lemma code_unit_lower: "js_upper_char c \<Longrightarrow> code_unit (lower_char c) = code_unit c + 32"
  by (auto simp: lower_char_def js_upper_char_def)

lemma lower_char_not_upper: "\<not> js_upper_char (lower_char c)"
proof (cases "js_upper_char c")
  case True
  then show ?thesis
    using code_unit_lower [OF True] by (auto simp: js_upper_char_def)
next
  case False
  then show ?thesis by (simp add: lower_char_def)
qed

lemma lower_char_idem [str_simps, simp]: "lower_char (lower_char c) = lower_char c"
  using lower_char_not_upper [of c] by (simp add: lower_char_def)

lemma js_space_lower [str_simps, simp]: "js_space (lower_char c) = js_space c"
proof (cases "js_upper_char c")
  case True
  then show ?thesis
    using code_unit_lower [OF True] by (auto simp: js_space_def js_upper_char_def)
next
  case False
  then show ?thesis by (simp add: lower_char_def)
qed

subsection \<open>String methods\<close>

definition js_lower :: "string \<Rightarrow> string" where
  "js_lower s = map lower_char s"

definition trim_left :: "string \<Rightarrow> string" where
  "trim_left s = dropWhile js_space s"

definition js_trim :: "string \<Rightarrow> string" where
  "js_trim s = rev (trim_left (rev (trim_left s)))"

definition starts_with :: "string \<Rightarrow> string \<Rightarrow> bool" where
  "starts_with s p \<longleftrightarrow> prefix p s"

definition ends_with :: "string \<Rightarrow> string \<Rightarrow> bool" where
  "ends_with s p \<longleftrightarrow> suffix p s"

fun str_includes :: "string \<Rightarrow> string \<Rightarrow> bool" where
  "str_includes [] p = (p = [])"
| "str_includes (c # s) p = (prefix p (c # s) \<or> str_includes s p)"

fun split_on :: "'a \<Rightarrow> 'a list \<Rightarrow> 'a list list" where
  "split_on d [] = [[]]"
| "split_on d (c # s) =
     (if c = d then [] # split_on d s
      else (case split_on d s of [] \<Rightarrow> [[c]] | w # ws \<Rightarrow> (c # w) # ws))"

fun join_with :: "'a list \<Rightarrow> 'a list list \<Rightarrow> 'a list" where
  "join_with d [] = []"
| "join_with d [w] = w"
| "join_with d (w # v # ws) = w @ d @ join_with d (v # ws)"

definition drop_cr :: "string \<Rightarrow> string" where
  \<comment> \<open>without a carriage return at its end\<close>
  "drop_cr l = (if l \<noteq> [] \<and> last l = CHR 0x0D then butlast l else l)"

definition after_last :: "'a \<Rightarrow> 'a list \<Rightarrow> 'a list" where
  \<comment> \<open>\<open>s.slice(s.lastIndexOf(d) + 1)\<close>: all of \<open>s\<close> when \<open>d\<close> does not occur\<close>
  "after_last d s = rev (takeWhile (\<lambda>c. c \<noteq> d) (rev s))"

definition distinct_first :: "'a list \<Rightarrow> 'a list" where
  \<comment> \<open>\<open>[...new Set(xs)]\<close>: insertion order, first occurrence kept\<close>
  "distinct_first xs = rev (remdups (rev xs))"

definition slice_last :: "nat \<Rightarrow> 'a list \<Rightarrow> 'a list" where
  \<comment> \<open>\<open>xs.slice(-n)\<close> for positive \<open>n\<close>\<close>
  "slice_last n xs = drop (length xs - n) xs"

lemma length_js_lower [str_simps, simp]: "length (js_lower s) = length s"
  by (simp add: js_lower_def)

lemma js_lower_append [str_simps]: "js_lower (s @ t) = js_lower s @ js_lower t"
  by (simp add: js_lower_def)

lemma js_lower_idem [str_simps, simp]: "js_lower (js_lower s) = js_lower s"
  by (simp add: js_lower_def)

lemma js_lower_Nil [str_simps, simp]: "js_lower s = [] \<longleftrightarrow> s = []"
  by (simp add: js_lower_def)

lemma trim_left_lower: "trim_left (js_lower s) = js_lower (trim_left s)"
  by (induction s) (auto simp: trim_left_def js_lower_def)

lemma js_trim_lower: "js_trim (js_lower s) = js_lower (js_trim s)"
proof -
  have rev_lower: "rev (js_lower t) = js_lower (rev t)" for t
    by (simp add: js_lower_def rev_map)
  show ?thesis by (simp add: js_trim_def trim_left_lower rev_lower)
qed

lemma trim_left_hd: "trim_left s \<noteq> [] \<Longrightarrow> \<not> js_space (hd (trim_left s))"
  by (simp add: trim_left_def hd_dropWhile)

lemma trim_left_idem: "trim_left (trim_left s) = trim_left s"
  by (simp add: trim_left_def)

lemma trim_left_id: "s = [] \<or> \<not> js_space (hd s) \<Longrightarrow> trim_left s = s"
  by (cases s) (auto simp: trim_left_def)

lemma js_trim_Nil [str_simps, simp]: "js_trim [] = []"
  by (simp add: js_trim_def trim_left_def)

lemma js_trim_hd: "js_trim s \<noteq> [] \<Longrightarrow> hd (js_trim s) = hd (trim_left s) \<and> \<not> js_space (hd (js_trim s))"
proof -
  assume ne: "js_trim s \<noteq> []"
  let ?t = "trim_left s"
  have "trim_left [] = []" by (simp add: trim_left_def)
  with ne have t: "?t \<noteq> []" by (auto simp only: js_trim_def rev.simps)
  have "suffix (trim_left (rev ?t)) (rev ?t)"
    by (simp add: trim_left_def suffix_dropWhile)
  then have "prefix (js_trim s) ?t" by (simp add: js_trim_def suffix_to_prefix)
  then have "hd (js_trim s) = hd ?t"
    using ne by (cases "js_trim s"; cases ?t) (auto simp: prefix_def)
  with trim_left_hd [OF t] show ?thesis by simp
qed

lemma js_trim_last: "js_trim s \<noteq> [] \<Longrightarrow> \<not> js_space (last (js_trim s))"
  using trim_left_hd [of "rev (trim_left s)"] by (simp add: js_trim_def last_rev)

lemma js_trim_id:
  "s = [] \<or> (\<not> js_space (hd s) \<and> \<not> js_space (last s)) \<Longrightarrow> js_trim s = s"
proof -
  assume a: "s = [] \<or> (\<not> js_space (hd s) \<and> \<not> js_space (last s))"
  then have "trim_left s = s" by (intro trim_left_id) auto
  moreover from a have "trim_left (rev s) = rev s" by (intro trim_left_id) (auto simp: hd_rev)
  ultimately show ?thesis by (simp add: js_trim_def)
qed

lemma js_trim_idem [str_simps, simp]: "js_trim (js_trim s) = js_trim s"
  using js_trim_hd [of s] js_trim_last [of s] by (intro js_trim_id) auto

lemma split_on_not_Nil [simp]: "split_on d s \<noteq> []"
  by (induction s) (auto split: list.split)

lemma split_on_no_sep: "d \<notin> set s \<Longrightarrow> split_on d s = [s]"
  by (induction s) auto

lemma split_on_append_sep: "d \<notin> set s \<Longrightarrow> split_on d (s @ d # t) = s # split_on d t"
  by (induction s) auto

lemma join_split [str_simps, simp]: "join_with [d] (split_on d s) = s"
proof (induction s)
  case Nil
  then show ?case by simp
next
  case (Cons c s)
  obtain w ws where "split_on d s = w # ws" by (cases "split_on d s") auto
  with Cons show ?case by (cases ws) auto
qed

lemma split_join:
  "ws \<noteq> [] \<Longrightarrow> \<forall>w \<in> set ws. d \<notin> set w \<Longrightarrow> split_on d (join_with [d] ws) = ws"
  by (induction "[d]" ws rule: join_with.induct) (auto simp: split_on_no_sep split_on_append_sep)

lemma split_on_parts: "w \<in> set (split_on d s) \<Longrightarrow> d \<notin> set w"
  by (induction s arbitrary: w) (auto split: list.splits if_splits)

lemma after_last_no: "d \<notin> set s \<Longrightarrow> after_last d s = s"
proof -
  assume "d \<notin> set s"
  then have "takeWhile (\<lambda>c. c \<noteq> d) (rev s) = rev s" by (auto simp: takeWhile_eq_all_conv)
  then show ?thesis by (simp only: after_last_def rev_rev_ident)
qed

lemma after_last_append [str_simps]: "d \<notin> set t \<Longrightarrow> after_last d (s @ d # t) = t"
proof -
  assume "d \<notin> set t"
  then have "takeWhile (\<lambda>c. c \<noteq> d) (rev t @ d # rev s) = rev t"
    by (subst takeWhile_append2) auto
  then show ?thesis by (simp add: after_last_def)
qed

lemma set_distinct_first [str_simps, simp]: "set (distinct_first xs) = set xs"
  by (simp add: distinct_first_def)

lemma distinct_distinct_first [str_simps, simp]: "distinct (distinct_first xs)"
  by (simp add: distinct_first_def)

lemma distinct_first_id: "distinct xs \<Longrightarrow> distinct_first xs = xs"
  by (simp add: distinct_first_def distinct_remdups_id)

lemma length_slice_last [str_simps]: "length (slice_last n xs) = min n (length xs)"
  by (simp add: slice_last_def)

lemma slice_last_split: "xs = take (length xs - n) xs @ slice_last n xs"
  by (simp add: slice_last_def)

subsection \<open>Decimal numerals\<close>

definition all_digits :: "string \<Rightarrow> bool" where
  \<comment> \<open>the test \<open>/^\d+$/\<close>\<close>
  "all_digits s \<longleftrightarrow> s \<noteq> [] \<and> list_all js_digit s"

definition digit_val :: "char \<Rightarrow> nat" where
  "digit_val c = code_unit c - 48"

definition nat_of_digits :: "string \<Rightarrow> nat" where
  \<comment> \<open>\<open>Number(s)\<close> for a string of decimal digits\<close>
  "nat_of_digits s = foldl (\<lambda>a c. a * 10 + digit_val c) 0 s"

fun show_nat :: "nat \<Rightarrow> string" where
  "show_nat n = (if n < 10 then [char_of (48 + n)] else show_nat (n div 10) @ [char_of (48 + n mod 10)])"

declare show_nat.simps [simp del]

lemma digit_char: "n < 10 \<Longrightarrow> js_digit (char_of (48 + n)) \<and> digit_val (char_of (48 + n)) = n"
  by (simp add: js_digit_def digit_val_def)

lemma nat_of_digits_snoc: "nat_of_digits (s @ [c]) = nat_of_digits s * 10 + digit_val c"
  by (simp add: nat_of_digits_def)

lemma all_digits_show_nat [str_simps, simp]: "all_digits (show_nat n)"
proof (induction n rule: show_nat.induct)
  case (1 n)
  then show ?case
    using digit_char [of n] digit_char [of "n mod 10"]
    by (subst show_nat.simps) (auto simp: all_digits_def)
qed

lemma nat_of_digits_show_nat [str_simps, simp]: "nat_of_digits (show_nat n) = n"
proof (induction n rule: show_nat.induct)
  case (1 n)
  show ?case
  proof (cases "n < 10")
    case True
    then show ?thesis
      using digit_char [of n] by (subst show_nat.simps) (simp add: nat_of_digits_def)
  next
    case False
    with 1 digit_char [of "n mod 10"] show ?thesis
      by (subst show_nat.simps) (simp add: nat_of_digits_snoc)
  qed
qed

lemma show_nat_not_Nil [simp]: "show_nat n \<noteq> []"
  using all_digits_show_nat [of n] by (auto simp: all_digits_def)

lemma length_show_nat: "n < 10 ^ Suc k \<Longrightarrow> length (show_nat n) \<le> Suc k"
proof (induction k arbitrary: n)
  case 0
  then show ?case by (subst show_nat.simps) simp
next
  case (Suc k)
  then have "n div 10 < 10 ^ Suc k" by (simp add: less_mult_imp_div_less)
  from Suc.IH [OF this] show ?case by (subst show_nat.simps) simp
qed

lemma hd_show_nat: "0 < n \<Longrightarrow> hd (show_nat n) \<noteq> CHR ''0''"
proof (induction n rule: show_nat.induct)
  case (1 n)
  show ?case
  proof (cases "n < 10")
    case True
    have "digit_val (char_of (48 + n)) = n" using True digit_char by blast
    moreover have "digit_val (CHR ''0'') = 0" by (simp add: digit_val_def)
    ultimately have "char_of (48 + n) \<noteq> CHR ''0''" using 1(2) by (intro notI) (simp only:)
    with True show ?thesis by (subst show_nat.simps) simp
  next
    case False
    with 1 show ?thesis by (subst show_nat.simps) simp
  qed
qed

lemma show_nat_0: "show_nat 0 = ''0''"
  by code_simp

lemma show_nat_inject [simp]: "show_nat m = show_nat n \<longleftrightarrow> m = n"
  using nat_of_digits_show_nat by metis

lemma show_nat_digit: "c \<in> set (show_nat n) \<Longrightarrow> js_digit c"
  using all_digits_show_nat [of n] by (auto simp: all_digits_def list_all_iff)

end
