(* ===== verification/Json.thy ===== *)
theory Json
  imports Complex_Main Prelude
begin

text \<open>
  JSON values as request bodies and JSONB columns hold them; \<open>Undefined\<close> is what a missing field
  reads as.
\<close>

datatype json =
    Undefined
  | Null
  | Bool bool
  | Num rat
  | Str string
  | Arr "json list"
  | Obj "(string \<times> json) list"

definition field :: "string \<Rightarrow> (string \<times> json) list \<Rightarrow> json" where
  "field k o' = (case map_of o' k of None \<Rightarrow> Undefined | Some v \<Rightarrow> v)"

end
