(* ===== verification/Models.thy ===== *)
theory Models
  imports Json
begin

text \<open>
  The data of the server: HTTP errors (\<open>apps/server/src/errors.ts\<close>), the settings it is
  started with (\<open>config.ts\<close>) and the rows of its tables (\<open>db/models.ts\<close>), one record per
  model class with the columns as fields. The enumerations are those of the shared contract
  (\<open>packages/shared/src/index.ts\<close>). A nullable column is an option; ids, which are UUIDs or
  decimal serial numbers, are strings or numbers as the class declares them.
\<close>

subsection \<open>Errors\<close>

datatype error_details = NoDetails | RetryAfterSeconds int | Issues "(string \<times> string) list"

record http_error =
  he_status :: nat
  he_code :: string
  he_message :: string
  he_details :: error_details

definition HttpError :: "nat \<Rightarrow> string \<Rightarrow> string \<Rightarrow> error_details \<Rightarrow> http_error" where
  "HttpError st code msg details =
     \<lparr>he_status = st, he_code = code, he_message = msg, he_details = details\<rparr>"

definition badRequest :: "string \<Rightarrow> http_error" where
  "badRequest msg = HttpError 400 ''bad_request'' msg NoDetails"

definition unauthorized :: "string \<Rightarrow> http_error" where
  "unauthorized msg = HttpError 401 ''unauthorized'' msg NoDetails"

definition forbidden :: "string \<Rightarrow> http_error" where
  "forbidden msg = HttpError 403 ''forbidden'' msg NoDetails"

definition notFound :: "string \<Rightarrow> http_error" where
  "notFound msg = HttpError 404 ''not_found'' msg NoDetails"

definition conflict :: "string \<Rightarrow> http_error" where
  "conflict msg = HttpError 409 ''conflict'' msg NoDetails"

definition tooMany :: "string \<Rightarrow> error_details \<Rightarrow> http_error" where
  "tooMany msg details = HttpError 429 ''too_many_requests'' msg details"

definition internal_error :: http_error where
  \<comment> \<open>what \<open>app.onError\<close> answers for any other exception, a failed query among them\<close>
  "internal_error = HttpError 500 ''internal_error'' ''Something went wrong'' NoDetails"

definition uniqueConflict :: http_error where
  \<comment> \<open>what \<open>app.onError\<close> answers for a violated unique constraint\<close>
  "uniqueConflict = HttpError 409 ''conflict'' ''That already exists.'' NoDetails"

lemmas http_error_defs =
  internal_error_def uniqueConflict_def HttpError_def badRequest_def unauthorized_def forbidden_def notFound_def conflict_def tooMany_def

subsection \<open>Enumerations of the shared contract\<close>

datatype auth_source = SrcWeb | SrcImap | SrcPop3 | SrcSmtp | SrcSieve | SrcOther

datatype auth_failure_reason = WrongPassword | UnknownUser | Disabled | Locked | Banned

datatype mail_direction = DirIn | DirOut | DirRelay

datatype mail_log_status = Delivered | Sent | Deferred | Bounced | Expired | Rejected | Deleted

datatype ban_source = AutoBan | ManualBan

datatype contact_source = ManualContact | AutoContact

subsection \<open>Settings\<close>

record config =
  cfg_MAIL_HOSTNAME :: string
  cfg_MAIL_NETWORK_SUBNET :: string
  cfg_AUTOBAN_ENABLED :: bool
  cfg_AUTOBAN_WINDOW_MINUTES :: nat
  cfg_AUTOBAN_DISTINCT_ACCOUNTS :: nat
  cfg_AUTOBAN_FAILURES :: nat
  cfg_AUTOBAN_DURATION_HOURS :: rat
  cfg_AUTOBAN_SLOW_WINDOW_HOURS :: nat
  cfg_AUTOBAN_UNKNOWN_FAILURES :: nat
  cfg_AUTOBAN_NETWORK_ADDRESSES :: nat
  cfg_AUTOBAN_ALLOWLIST :: string
  cfg_ACTIVITY_RETENTION_DAYS :: nat

definition default_config :: "string \<Rightarrow> config" where
  \<comment> \<open>the defaults of the schema; only the hostname has none\<close>
  "default_config hostname = \<lparr>
     cfg_MAIL_HOSTNAME = hostname,
     cfg_MAIL_NETWORK_SUBNET = ''172.28.0.0/24'',
     cfg_AUTOBAN_ENABLED = True,
     cfg_AUTOBAN_WINDOW_MINUTES = 60,
     cfg_AUTOBAN_DISTINCT_ACCOUNTS = 3,
     cfg_AUTOBAN_FAILURES = 20,
     cfg_AUTOBAN_DURATION_HOURS = 24,
     cfg_AUTOBAN_SLOW_WINDOW_HOURS = 24,
     cfg_AUTOBAN_UNKNOWN_FAILURES = 3,
     cfg_AUTOBAN_NETWORK_ADDRESSES = 5,
     cfg_AUTOBAN_ALLOWLIST = '''',
     cfg_ACTIVITY_RETENTION_DAYS = 90\<rparr>"

definition config_ok :: "config \<Rightarrow> bool" where
  \<comment> \<open>the bounds the schema checks at start-up\<close>
  "config_ok c \<longleftrightarrow> cfg_MAIL_HOSTNAME c \<noteq> [] \<and> 1 \<le> cfg_AUTOBAN_WINDOW_MINUTES c \<and>
     2 \<le> cfg_AUTOBAN_DISTINCT_ACCOUNTS c \<and> 3 \<le> cfg_AUTOBAN_FAILURES c \<and>
     1 / 10 \<le> cfg_AUTOBAN_DURATION_HOURS c \<and> 1 \<le> cfg_AUTOBAN_SLOW_WINDOW_HOURS c \<and>
     1 \<le> cfg_ACTIVITY_RETENTION_DAYS c"

subsection \<open>Rows\<close>

record domain_row =
  dom_id :: string
  dom_name :: string
  dom_active :: bool
  dom_dkimSelector :: string
  dom_dkimPrivateKeyPem :: string
  dom_dkimPublicKeyB64 :: string
  dom_createdAt :: time

record mailbox_row =
  mb_id :: string
  mb_domainId :: string
  mb_localPart :: string
  mb_email :: string
  mb_passwordHash :: string
  mb_displayName :: string
  mb_signature :: "string option"
  mb_quotaBytes :: int
  mb_isAdmin :: bool
  mb_active :: bool
  mb_receiveMail :: bool
  mb_remoteContentAllow :: "string list"
  mb_createdAt :: time

record alias_row =
  al_id :: string
  al_domainId :: string
  al_source :: string
  al_destination :: string
  al_active :: bool
  al_createdAt :: time

type_synonym app_settings = "string \<rightharpoonup> string"

record session_row =
  se_id :: string
  se_mailboxId :: string
  se_createdAt :: time
  se_expiresAt :: time
  se_ip :: "string option"
  se_userAgent :: "string option"

record contact_row =
  ct_id :: string
  ct_mailboxId :: string
  ct_name :: string
  ct_emails :: "string list"
  ct_notes :: string
  ct_source :: contact_source
  ct_createdAt :: time
  ct_updatedAt :: time

record recent_address =
  ra_mailboxId :: string
  ra_address :: string
  ra_name :: string
  ra_lastUsedAt :: time
  ra_uses :: nat

record auth_event_row =
  ae_id :: nat
  ae_createdAt :: time
  ae_lastAt :: time
  ae_source :: auth_source
  ae_username :: "string option"
  ae_mailboxId :: "string option"
  ae_ip :: "string option"
  ae_success :: bool
  ae_reason :: "auth_failure_reason option"
  ae_detail :: "string option"
  ae_userAgent :: "string option"
  ae_count :: nat

record mail_log_row =
  ml_id :: nat
  ml_queueId :: "string option"
  ml_messageId :: "string option"
  ml_direction :: mail_direction
  ml_status :: mail_log_status
  ml_sender :: string
  ml_recipient :: string
  ml_origRecipient :: "string option"
  ml_subject :: "string option"
  ml_size :: "nat option"
  ml_clientHost :: "string option"
  ml_clientIp :: "string option"
  ml_source :: "string option"
  ml_saslUser :: "string option"
  ml_relay :: "string option"
  ml_dsn :: "string option"
  ml_detail :: "string option"
  ml_attempts :: nat
  ml_createdAt :: time
  ml_updatedAt :: time

record audit_row =
  au_id :: nat
  au_createdAt :: time
  au_actorId :: "string option"
  au_actorEmail :: "string option"
  au_ip :: "string option"
  au_action :: string
  au_target :: "string option"
  au_detail :: "(string \<times> json) list option"

definition getSetting :: "app_settings \<Rightarrow> string \<Rightarrow> string option" where
  "getSetting m k = m k"

definition setSetting :: "app_settings \<Rightarrow> string \<Rightarrow> string \<Rightarrow> app_settings" where
  "setSetting m k v = m(k \<mapsto> v)"

lemma getSetting_setSetting [simp]:
  "getSetting (setSetting m k v) j = (if j = k then Some v else getSetting m j)"
  by (simp add: getSetting_def setSetting_def)

end
