(* ===== verification/RateLimit.thy ===== *)
theory RateLimit
  imports Models "HOL-Library.AList"
begin

text \<open>
  Lock-outs after failed sign-ins, \<open>apps/server/src/auth/ratelimit.ts\<close>. The counters and
  the locks live in Redis, which is a parameter: the record \<open>redis\<close> holds the commands the file
  calls, and the locale \<open>redis_store\<close> the documented behaviour of these commands, in terms of
  the live entries (the value and the expiry of a key at a point in time). \<open>mem_redis\<close> is a
  store in memory that satisfies it.
\<close>

subsection \<open>The commands of the key-value store\<close>

record 's redis =
  r_incr :: "string \<Rightarrow> time \<Rightarrow> 's \<Rightarrow> nat \<times> 's"
  r_expire :: "string \<Rightarrow> int \<Rightarrow> time \<Rightarrow> 's \<Rightarrow> 's"
  r_ttl :: "string \<Rightarrow> time \<Rightarrow> 's \<Rightarrow> int"
  r_get :: "string \<Rightarrow> time \<Rightarrow> 's \<Rightarrow> string option"
  r_set_ex :: "string \<Rightarrow> string \<Rightarrow> int \<Rightarrow> time \<Rightarrow> 's \<Rightarrow> 's"
  r_del :: "string list \<Rightarrow> time \<Rightarrow> 's \<Rightarrow> 's"
  r_scan :: "nat \<Rightarrow> string \<Rightarrow> nat \<Rightarrow> time \<Rightarrow> 's \<Rightarrow> nat \<times> string list"

type_synonym entry = "string \<times> time option"

fun alive :: "time option \<Rightarrow> time \<Rightarrow> bool" where
  "alive None t = True"
| "alive (Some e) t = (t < e)"

definition aged :: "time \<Rightarrow> entry option \<Rightarrow> entry option" where
  "aged t x = (case x of None \<Rightarrow> None | Some (v, e) \<Rightarrow> if alive e t then Some (v, e) else None)"

lemma aged_simps [simp]:
  "aged t None = None"
  "aged t (Some (v, e)) = (if alive e t then Some (v, e) else None)"
  by (simp_all add: aged_def)

subsection \<open>The operations of the rate limiter\<close>

datatype kind = KIp | KUser

definition WINDOW_S :: int where "WINDOW_S = 15 * 60"
definition LOCK_S :: int where "LOCK_S = 15 * 60"

fun LIMITS :: "kind \<Rightarrow> nat" where
  "LIMITS KIp = 20"
| "LIMITS KUser = 8"

fun kind_name :: "kind \<Rightarrow> string" where
  "kind_name KIp = ''ip''"
| "kind_name KUser = ''user''"

definition failKey :: "kind \<Rightarrow> string \<Rightarrow> string" where
  "failKey k i = ''fail:'' @ kind_name k @ '':'' @ i"

definition lockKey :: "kind \<Rightarrow> string \<Rightarrow> string" where
  "lockKey k i = ''lock:'' @ kind_name k @ '':'' @ i"

definition isLocked :: "'s redis \<Rightarrow> kind \<Rightarrow> string \<Rightarrow> time \<Rightarrow> 's \<Rightarrow> int" where
  "isLocked R k i now s = (let ttl = r_ttl R (lockKey k i) now s in if ttl > 0 then ttl else 0)"

definition recordFailure :: "'s redis \<Rightarrow> kind \<Rightarrow> string \<Rightarrow> time \<Rightarrow> 's \<Rightarrow> int \<times> 's" where
  "recordFailure R k i now s =
     (let key = failKey k i;
          (count, s1) = r_incr R key now s;
          s2 = (if count = 1 then r_expire R key WINDOW_S now s1 else s1)
      in if count \<ge> LIMITS k
         then (LOCK_S, r_set_ex R (lockKey k i) (show_nat count) LOCK_S now s2)
         else (0, s2))"

definition clearFailures :: "'s redis \<Rightarrow> kind \<Rightarrow> string \<Rightarrow> time \<Rightarrow> 's \<Rightarrow> 's" where
  "clearFailures R k i now s = r_del R [failKey k i, lockKey k i] now s"

record lockout =
  lo_key :: string
  lo_attempts :: nat
  lo_lockedUntil :: "time option"

definition lockout_of :: "'s redis \<Rightarrow> time \<Rightarrow> 's \<Rightarrow> string \<Rightarrow> lockout" where
  "lockout_of R now s k =
     (let attempts = r_get R k now s; ttl = r_ttl R k now s
      in \<lparr>lo_key = drop (length ''lock:'') k,
          lo_attempts = (case attempts of None \<Rightarrow> 0 | Some a \<Rightarrow> nat_of_digits a),
          lo_lockedUntil = (if ttl > 0 then Some (now + ttl * 1000) else None)\<rparr>)"

text \<open>What the calls return when the failures come at the times \<open>ts\<close>.\<close>

fun record_all :: "'s redis \<Rightarrow> kind \<Rightarrow> string \<Rightarrow> time list \<Rightarrow> 's \<Rightarrow> int list" where
  "record_all R k i [] s = []"
| "record_all R k i (t # ts) s =
     (let (locked, s') = recordFailure R k i t s in locked # record_all R k i ts s')"

text \<open>The SCAN loop; the fuel bounds the number of pages, None says that it was not enough.\<close>

fun listLockouts_loop :: "'s redis \<Rightarrow> nat \<Rightarrow> nat \<Rightarrow> time \<Rightarrow> 's \<Rightarrow> lockout list option" where
  "listLockouts_loop R 0 cursor now s = None"
| "listLockouts_loop R (Suc n) cursor now s =
     (let (nxt, keys) = r_scan R cursor ''lock:'' 200 now s;
          out = map (lockout_of R now s) keys
      in if nxt = 0 then Some out
         else map_option ((@) out) (listLockouts_loop R n nxt now s))"

definition listLockouts :: "'s redis \<Rightarrow> nat \<Rightarrow> time \<Rightarrow> 's \<Rightarrow> lockout list option" where
  "listLockouts R fuel now s = listLockouts_loop R fuel 0 now s"

text \<open>The keys that a scan of all pages returns.\<close>

fun scan_all :: "'s redis \<Rightarrow> string \<Rightarrow> nat \<Rightarrow> nat \<Rightarrow> nat \<Rightarrow> time \<Rightarrow> 's \<Rightarrow> string list option" where
  "scan_all R p cnt 0 cursor now s = None"
| "scan_all R p cnt (Suc n) cursor now s =
     (let (nxt, keys) = r_scan R cursor p cnt now s
      in if nxt = 0 then Some keys else map_option ((@) keys) (scan_all R p cnt n nxt now s))"

lemma listLockouts_loop_scan:
  "listLockouts_loop R n cursor now s =
    map_option (map (lockout_of R now s)) (scan_all R ''lock:'' 200 n cursor now s)"
  by (induction n arbitrary: cursor)
    (auto simp: Let_def option.map_comp comp_def split: prod.splits)

definition kind_of_name :: "string \<Rightarrow> kind option" where
  "kind_of_name w = (if w = ''ip'' then Some KIp else if w = ''user'' then Some KUser else None)"

definition removeLockout :: "'s redis \<Rightarrow> string \<Rightarrow> time \<Rightarrow> 's \<Rightarrow> 's" where
  "removeLockout R key now s = (case split_on (CHR '':'') key of
     [] \<Rightarrow> s
   | w # rest \<Rightarrow> (case kind_of_name w of
       None \<Rightarrow> s
     | Some k \<Rightarrow> clearFailures R k (join_with '':'' rest) now s))"

subsection \<open>Keys\<close>

lemma failKey_inject [simp]: "failKey k i = failKey k' i' \<longleftrightarrow> k = k' \<and> i = i'"
  by (cases k; cases k') (auto simp: failKey_def)

lemma lockKey_inject [simp]: "lockKey k i = lockKey k' i' \<longleftrightarrow> k = k' \<and> i = i'"
  by (cases k; cases k') (auto simp: lockKey_def)

lemma failKey_lockKey [simp]: "failKey k i \<noteq> lockKey k' i'" "lockKey k i \<noteq> failKey k' i'"
  by (simp_all add: failKey_def lockKey_def)

lemma kind_name_no_colon: "CHR '':'' \<notin> set (kind_name k)"
  by (cases k) auto

lemma removeLockout_key: "removeLockout R (kind_name k @ '':'' @ i) now s = clearFailures R k i now s"
proof -
  have "split_on (CHR '':'') (kind_name k @ '':'' @ i) = kind_name k # split_on (CHR '':'') i"
    using split_on_append_sep [OF kind_name_no_colon] by simp
  then show ?thesis
    by (cases k) (simp_all add: removeLockout_def kind_of_name_def del: split_on.simps)
qed

subsection \<open>What the store promises\<close>

type_synonym 's view = "'s \<Rightarrow> time \<Rightarrow> string \<Rightarrow> entry option"

text \<open>The counter and the lock of an account or an address, as the store holds them now.\<close>

definition failures :: "'s view \<Rightarrow> 's \<Rightarrow> time \<Rightarrow> kind \<Rightarrow> string \<Rightarrow> nat" where
  "failures view s t k i = (case view s t (failKey k i) of None \<Rightarrow> 0 | Some (v, _) \<Rightarrow> nat_of_digits v)"

text \<open>What holds of every key this file writes: a counter is a numeral, and everything expires.\<close>

definition store_ok :: "'s view \<Rightarrow> 's \<Rightarrow> time \<Rightarrow> bool" where
  "store_ok view s t \<longleftrightarrow> (\<forall>k i e. view s t (failKey k i) = Some e \<longrightarrow>
     (\<exists>n x. e = (show_nat n, Some x) \<and> 0 < n \<and> x \<le> t + WINDOW_S * 1000)) \<and>
   (\<forall>k i e. view s t (lockKey k i) = Some e \<longrightarrow>
     (\<exists>n x. e = (show_nat n, Some x) \<and> x \<le> t + LOCK_S * 1000))"

locale redis_store =
  fixes R :: "'s redis" and view :: "'s view"
  assumes view_later: "t \<le> u \<Longrightarrow> view s u k = aged u (view s t k)"
    and incr_none: "view s now k = None \<Longrightarrow> fst (r_incr R k now s) = 1"
    and incr_some: "view s now k = Some (show_nat n, e) \<Longrightarrow> fst (r_incr R k now s) = Suc n"
    and view_incr: "view (snd (r_incr R k now s)) now j =
      (if j = k then Some (show_nat (fst (r_incr R k now s)), Option.bind (view s now k) snd)
       else view s now j)"
    and view_expire: "view (r_expire R k secs now s) now j =
      (if j = k then aged now (map_option (\<lambda>(v, e). (v, Some (now + secs * 1000))) (view s now k))
       else view s now j)"
    and view_set_ex: "view (r_set_ex R k v secs now s) now j =
      (if j = k then aged now (Some (v, Some (now + secs * 1000))) else view s now j)"
    and view_del: "view (r_del R ks now s) now j = (if j \<in> set ks then None else view s now j)"
    and ttl_none: "view s now k = None \<Longrightarrow> r_ttl R k now s = -2"
    and ttl_forever: "view s now k = Some (v, None) \<Longrightarrow> r_ttl R k now s = -1"
    and ttl_some: "view s now k = Some (v, Some x) \<Longrightarrow>
      x - now - 1000 < 1000 * r_ttl R k now s \<and> 1000 * r_ttl R k now s < x - now + 1000"
    and get_view: "r_get R k now s = map_option fst (view s now k)"
    and scan_view: "\<exists>n ks. scan_all R p 200 n 0 now s = Some ks \<and>
      set ks = {k. prefix p k \<and> view s now k \<noteq> None}"
begin

lemma store_okD:
  assumes "store_ok view s t"
  shows "view s t (failKey k i) = Some e \<Longrightarrow>
      \<exists>n x. e = (show_nat n, Some x) \<and> 0 < n \<and> x \<le> t + WINDOW_S * 1000"
    and "view s t (lockKey k i) = Some e \<Longrightarrow> \<exists>n x. e = (show_nat n, Some x) \<and> x \<le> t + LOCK_S * 1000"
  using assms unfolding store_ok_def by blast+

lemma store_ok_later: "store_ok view s t \<Longrightarrow> t \<le> u \<Longrightarrow> store_ok view s u"
  unfolding store_ok_def
  by (simp add: view_later [of t u] aged_def split: option.splits) (smt (verit) alive.simps)

lemma incr_failures:
  assumes "store_ok view s now"
  shows "fst (r_incr R (failKey k i) now s) = Suc (failures view s now k i)"
proof (cases "view s now (failKey k i)")
  case None
  then show ?thesis by (simp add: incr_none failures_def)
next
  case (Some e)
  then obtain n x where "e = (show_nat n, Some x)" using store_okD(1) [OF assms Some] by blast
  with Some incr_some [of s now _ n "Some x"] show ?thesis by (simp add: failures_def)
qed

lemma failures_fresh: "store_ok view s now \<Longrightarrow> failures view s now k i = 0 \<longleftrightarrow> view s now (failKey k i) = None"
  using store_okD(1) [of s now k i] by (cases "view s now (failKey k i)") (auto simp: failures_def)

lemma record_result:
  assumes "store_ok view s now"
  shows "fst (recordFailure R k i now s) = (if LIMITS k \<le> Suc (failures view s now k i) then LOCK_S else 0)"
  using incr_failures [OF assms, of k i] by (simp add: recordFailure_def Let_def case_prod_beta)

lemma record_view:
  assumes ok: "store_ok view s now"
  shows "view (snd (recordFailure R k i now s)) now j =
    (if j = failKey k i
     then Some (show_nat (Suc (failures view s now k i)),
       if failures view s now k i = 0 then Some (now + WINDOW_S * 1000)
       else Option.bind (view s now (failKey k i)) snd)
     else if j = lockKey k i \<and> LIMITS k \<le> Suc (failures view s now k i)
     then Some (show_nat (Suc (failures view s now k i)), Some (now + LOCK_S * 1000))
     else view s now j)"
  using incr_failures [OF ok, of k i]
  by (simp add: recordFailure_def Let_def case_prod_beta view_incr view_expire view_set_ex
      WINDOW_S_def LOCK_S_def)

lemma failures_record:
  assumes ok: "store_ok view s now"
  shows "failures view (snd (recordFailure R k i now s)) now k' i' =
    (if k' = k \<and> i' = i then Suc (failures view s now k i) else failures view s now k' i')"
  by (simp add: failures_def [of view _ now k' i'] record_view [OF ok])

lemma store_ok_record: "store_ok view s now \<Longrightarrow> store_ok view (snd (recordFailure R k i now s)) now"
proof -
  assume ok: "store_ok view s now"
  have "\<exists>x. Option.bind (view s now (failKey k i)) snd = Some x \<and> x \<le> now + WINDOW_S * 1000"
    if "failures view s now k i \<noteq> 0"
  proof -
    from that obtain e where "view s now (failKey k i) = Some e"
      using failures_fresh [OF ok] by auto
    with store_okD(1) [OF ok this] show ?thesis by auto
  qed
  then show ?thesis
    using store_okD [OF ok] unfolding store_ok_def by (simp add: record_view [OF ok]) blast
qed

lemma clear_view:
  "view (clearFailures R k i now s) now j = (if j = failKey k i \<or> j = lockKey k i then None else view s now j)"
  by (simp add: clearFailures_def view_del)

lemma store_ok_clear: "store_ok view s now \<Longrightarrow> store_ok view (clearFailures R k i now s) now"
  unfolding store_ok_def by (simp add: clear_view)

lemma locked_ttl:
  assumes "view s t (lockKey k i) = Some (v, Some x)"
  shows "t + 1000 \<le> x \<Longrightarrow> 0 < isLocked R k i t s" and "1000 * isLocked R k i t s < x - t + 1000"
proof -
  have "t < x" using assms view_later [of t t s "lockKey k i"] by (auto simp: aged_def split: if_splits)
  then show "t + 1000 \<le> x \<Longrightarrow> 0 < isLocked R k i t s" "1000 * isLocked R k i t s < x - t + 1000"
    using ttl_some [OF assms] by (auto simp: isLocked_def Let_def)
qed

lemma isLocked_none: "view s t (lockKey k i) = None \<Longrightarrow> isLocked R k i t s = 0"
  by (simp add: isLocked_def ttl_none)

lemma isLocked_clear: "isLocked R k i now (clearFailures R k i now s) = 0"
  by (simp add: isLocked_none clear_view)

text \<open>Between the lock and its end the account stays locked; from its end on it is free.\<close>

lemma record_locks:
  assumes ok: "store_ok view s now" and locked: "fst (recordFailure R k i now s) = LOCK_S" and "now \<le> t"
  shows "t \<le> now + (LOCK_S - 1) * 1000 \<Longrightarrow>
      0 < isLocked R k i t (snd (recordFailure R k i now s)) \<and>
      isLocked R k i t (snd (recordFailure R k i now s)) \<le> LOCK_S"
    and "now + LOCK_S * 1000 \<le> t \<Longrightarrow> isLocked R k i t (snd (recordFailure R k i now s)) = 0"
proof -
  let ?s = "snd (recordFailure R k i now s)"
  have "LIMITS k \<le> Suc (failures view s now k i)"
    using locked by (simp add: record_result [OF ok] LOCK_S_def split: if_splits)
  then have "view ?s now (lockKey k i) =
      Some (show_nat (Suc (failures view s now k i)), Some (now + LOCK_S * 1000))"
    by (simp add: record_view [OF ok])
  then have v: "view ?s t (lockKey k i) =
      aged t (Some (show_nat (Suc (failures view s now k i)), Some (now + LOCK_S * 1000)))"
    by (simp only: view_later [OF \<open>now \<le> t\<close>])
  show "now + LOCK_S * 1000 \<le> t \<Longrightarrow> isLocked R k i t ?s = 0"
    using v by (simp add: isLocked_none)
  assume "t \<le> now + (LOCK_S - 1) * 1000"
  then have "t + 1000 \<le> now + LOCK_S * 1000" and v': "view ?s t (lockKey k i) =
      Some (show_nat (Suc (failures view s now k i)), Some (now + LOCK_S * 1000))"
    using v by simp_all
  then show "0 < isLocked R k i t ?s \<and> isLocked R k i t ?s \<le> LOCK_S"
    using locked_ttl [OF v'] \<open>now \<le> t\<close> by auto
qed

lemma listLockouts_complete:
  "\<exists>n ls. listLockouts R n now s = Some ls \<and>
    (\<lambda>l. ''lock:'' @ lo_key l) ` set ls = {k. prefix ''lock:'' k \<and> view s now k \<noteq> None}"
proof -
  obtain n ks where n: "scan_all R ''lock:'' 200 n 0 now s = Some ks"
    and ks: "set ks = {k. prefix ''lock:'' k \<and> view s now k \<noteq> None}"
    using scan_view by blast
  have key: "''lock:'' @ lo_key (lockout_of R now s k) = k" if "k \<in> set ks" for k
    using that unfolding ks by (auto simp: lockout_of_def Let_def prefix_def)
  have "(\<lambda>l. ''lock:'' @ lo_key l) ` set (map (lockout_of R now s) ks) = set ks"
    using key by (force simp: image_iff)
  with n ks show ?thesis
    by (intro exI [of _ n] exI [of _ "map (lockout_of R now s) ks"])
      (simp only: listLockouts_def listLockouts_loop_scan option.map simp_thms)
qed

text \<open>A burst of failures, none of them cleared, from the first one on.\<close>

lemma record_burst:
  assumes "store_ok view s now" and "view s now (failKey k i) = Some (show_nat n, Some x)"
    and "sorted (now # ts)" and "\<forall>t \<in> set ts. t < x"
  shows "record_all R k i ts s = map (\<lambda>j. if LIMITS k \<le> Suc j then LOCK_S else 0) [n..<n + length ts]"
  using assms
proof (induction ts arbitrary: s now n)
  case Nil
  then show ?case by simp
next
  case (Cons t ts)
  have ok: "store_ok view s t" using Cons.prems by (auto intro: store_ok_later)
  have v: "view s t (failKey k i) = Some (show_nat n, Some x)"
    using Cons.prems by (simp add: view_later [of now t])
  then have n: "failures view s t k i = n" by (simp add: failures_def)
  with store_okD(1) [OF ok v] have pos: "n \<noteq> 0" by auto
  let ?s = "snd (recordFailure R k i t s)"
  have "view ?s t (failKey k i) = Some (show_nat (Suc n), Some x)"
    using v n pos by (simp add: record_view [OF ok])
  moreover have "[n..<n + length (t # ts)] = n # [Suc n..<Suc n + length ts]"
    by (simp add: upt_conv_Cons del: upt_Suc)
  ultimately show ?case
    using Cons.IH [OF store_ok_record [OF ok]] Cons.prems
    by (simp add: case_prod_beta record_result [OF ok] n del: upt_Suc)
qed

lemma record_burst_fresh:
  assumes "store_ok view s t" and "failures view s t k i = 0" and "sorted (t # ts)"
    and "\<forall>u \<in> set ts. u < t + WINDOW_S * 1000"
  shows "record_all R k i (t # ts) s =
    map (\<lambda>j. if LIMITS k \<le> Suc j then LOCK_S else 0) [0..<Suc (length ts)]"
proof -
  let ?s = "snd (recordFailure R k i t s)"
  have "view ?s t (failKey k i) = Some (show_nat 1, Some (t + WINDOW_S * 1000))"
    using assms(2) by (simp add: record_view [OF assms(1)])
  from record_burst [OF store_ok_record [OF assms(1)] this assms(3,4)]
  have "record_all R k i (t # ts) s =
      map (\<lambda>j. if LIMITS k \<le> Suc j then LOCK_S else 0) (0 # [1..<1 + length ts])"
    by (simp add: case_prod_beta record_result [OF assms(1)] assms(2) del: upt_Suc)
  also have "0 # [1..<1 + length ts] = [0..<Suc (length ts)]"
    by (simp add: upt_conv_Cons del: upt_Suc)
  finally show ?thesis .
qed

end

subsection \<open>A store in memory\<close>

type_synonym mem_store = "(string \<times> entry) list"

definition mem_view :: "mem_store view" where
  "mem_view s t k = aged t (map_of s k)"

definition mem_incr :: "string \<Rightarrow> time \<Rightarrow> mem_store \<Rightarrow> nat \<times> mem_store" where
  "mem_incr k now s =
     (let n = (case mem_view s now k of None \<Rightarrow> 1 | Some (v, _) \<Rightarrow> Suc (nat_of_digits v))
      in (n, AList.update k (show_nat n, Option.bind (mem_view s now k) snd) s))"

definition mem_expire :: "string \<Rightarrow> int \<Rightarrow> time \<Rightarrow> mem_store \<Rightarrow> mem_store" where
  "mem_expire k secs now s = (case mem_view s now k of
     None \<Rightarrow> s
   | Some (v, _) \<Rightarrow> AList.update k (v, Some (now + secs * 1000)) s)"

definition mem_ttl :: "string \<Rightarrow> time \<Rightarrow> mem_store \<Rightarrow> int" where
  "mem_ttl k now s = (case mem_view s now k of
     None \<Rightarrow> -2
   | Some (_, None) \<Rightarrow> -1
   | Some (_, Some x) \<Rightarrow> (x - now + 500) div 1000)"

definition mem_keys :: "string \<Rightarrow> time \<Rightarrow> mem_store \<Rightarrow> string list" where
  "mem_keys p now s = filter (\<lambda>k. prefix p k \<and> \<not> Option.is_none (mem_view s now k)) (map fst s)"

definition mem_scan :: "nat \<Rightarrow> string \<Rightarrow> nat \<Rightarrow> time \<Rightarrow> mem_store \<Rightarrow> nat \<times> string list" where
  "mem_scan cursor p cnt now s =
     (let keys = mem_keys p now s
      in (if cursor + cnt < length keys then cursor + cnt else 0, take cnt (drop cursor keys)))"

definition mem_redis :: "mem_store redis" where
  "mem_redis = \<lparr>r_incr = mem_incr, r_expire = mem_expire, r_ttl = mem_ttl,
     r_get = \<lambda>k now s. map_option fst (mem_view s now k),
     r_set_ex = \<lambda>k v secs now s. AList.update k (v, Some (now + secs * 1000)) s,
     r_del = \<lambda>ks now s. filter (\<lambda>e. fst e \<notin> set ks) s,
     r_scan = mem_scan\<rparr>"

lemma map_of_filter_keys: "map_of (filter (\<lambda>e. fst e \<notin> A) s) k = (if k \<in> A then None else map_of s k)"
  by (induction s) auto

lemma aged_idem: "t \<le> u \<Longrightarrow> aged u (aged t x) = aged u x"
proof (cases x)
  case (Some e)
  assume "t \<le> u"
  with Some show ?thesis by (cases e; cases "snd e") auto
qed simp

lemma mem_scan_all:
  "length (mem_keys p now s) \<le> c + n * 200 \<Longrightarrow>
    scan_all mem_redis p 200 (Suc n) c now s = Some (drop c (mem_keys p now s))"
proof (induction n arbitrary: c)
  case 0
  then show ?case by (simp add: mem_redis_def mem_scan_def)
next
  case (Suc n)
  let ?ks = "mem_keys p now s"
  show ?case
  proof (cases "c + 200 < length ?ks")
    case True
    have "take 200 (drop c ?ks) @ drop (c + 200) ?ks = drop c ?ks"
      by (metis add.commute append_take_drop_id drop_drop)
    moreover have "scan_all mem_redis p 200 (Suc n) (c + 200) now s = Some (drop (c + 200) ?ks)"
      using Suc by simp
    ultimately show ?thesis
      using True by (subst scan_all.simps) (simp add: mem_redis_def mem_scan_def Let_def)
  next
    case False
    then show ?thesis by (simp add: mem_redis_def mem_scan_def Let_def)
  qed
qed

interpretation mem: redis_store mem_redis mem_view
proof
  fix t u :: time and s k assume "t \<le> u"
  then show "mem_view s u k = aged u (mem_view s t k)" by (simp add: mem_view_def aged_idem)
next
  fix p now s
  have "scan_all mem_redis p 200 (Suc (length (mem_keys p now s))) 0 now s = Some (mem_keys p now s)"
    using mem_scan_all [of p now s 0 "length (mem_keys p now s)"] by simp
  moreover have "k \<in> fst ` set s" if "mem_view s now k \<noteq> None" for k
    using that map_of_eq_None_iff [of s k] by (auto simp: mem_view_def)
  then have "set (mem_keys p now s) = {k. prefix p k \<and> mem_view s now k \<noteq> None}"
    by (auto simp: mem_keys_def Option.is_none_def)
  ultimately show "\<exists>n ks. scan_all mem_redis p 200 n 0 now s = Some ks \<and>
      set ks = {k. prefix p k \<and> mem_view s now k \<noteq> None}" by blast
qed (auto simp: mem_redis_def mem_incr_def mem_expire_def mem_ttl_def mem_view_def map_of_filter_keys
    AList.update_conv' aged_def Let_def split: option.splits if_splits)

subsection \<open>Properties\<close>

text \<open>
  C18: the threshold is exact. When the failures of one account or address arrive within fifteen
  minutes of the first of them and nothing clears them, the calls before the limit (8 for an
  account, 20 for an address) return 0 and every call from the limit on returns the lock time.
\<close>

theorem lockout_threshold:
  assumes "redis_store R view" and "store_ok view s t" and "failures view s t k i = 0"
    and "sorted (t # ts)" and "\<forall>u \<in> set ts. u < t + WINDOW_S * 1000"
  shows "record_all R k i (t # ts) s =
    map (\<lambda>j. if LIMITS k \<le> Suc j then LOCK_S else 0) [0..<Suc (length ts)]"
  by (rule redis_store.record_burst_fresh [OF assms])

theorem lockout_threshold_witness:
  "record_all mem_redis KUser ''a@b'' [0, 1, 2, 3, 4, 5, 6, 7, 8] [] = [0, 0, 0, 0, 0, 0, 0, LOCK_S, LOCK_S]"
proof -
  have "store_ok mem_view [] 0" by (simp add: store_ok_def mem_view_def)
  moreover have "failures mem_view [] 0 KUser ''a@b'' = 0" by (simp add: failures_def mem_view_def)
  ultimately have "record_all mem_redis KUser ''a@b'' (0 # [1, 2, 3, 4, 5, 6, 7, 8]) [] =
    map (\<lambda>j. if LIMITS KUser \<le> Suc j then LOCK_S else 0) [0..<Suc (length [1, 2, 3, 4, 5, 6, 7, 8 :: nat])]"
    using lockout_threshold [OF mem.redis_store_axioms, of "[]" 0 KUser "''a@b''" "[1, 2, 3, 4, 5, 6, 7, 8]"]
    by (simp add: WINDOW_S_def)
  then show ?thesis by (simp add: upt_rec)
qed

text \<open>
  C38: a lock that a failure sets holds for the fifteen minutes (up to the last second, which the
  store may round away), never reports more than the lock time, and is gone afterwards; failures
  recorded meanwhile for other accounts or addresses do not lift it and do not lock anybody else.
\<close>

theorem lock_lasts:
  assumes "redis_store R view" and "store_ok view s now"
    and "fst (recordFailure R k i now s) = LOCK_S" and "now \<le> t"
  shows "(t \<le> now + (LOCK_S - 1) * 1000 \<longrightarrow>
      0 < isLocked R k i t (snd (recordFailure R k i now s)) \<and>
      isLocked R k i t (snd (recordFailure R k i now s)) \<le> LOCK_S) \<and>
    (now + LOCK_S * 1000 \<le> t \<longrightarrow> isLocked R k i t (snd (recordFailure R k i now s)) = 0) \<and>
    ((k', i') \<noteq> (k, i) \<longrightarrow>
      view (snd (recordFailure R k i now s)) now (lockKey k' i') = view s now (lockKey k' i') \<and>
      failures view (snd (recordFailure R k i now s)) now k' i' = failures view s now k' i')"
  using redis_store.record_locks [OF assms] redis_store.record_view [OF assms(1,2), of k i "lockKey k' i'"]
    redis_store.failures_record [OF assms(1,2), of k i k' i'] by auto

definition seven_failures :: mem_store where
  "seven_failures = [(failKey KUser ''a@b'', (''7'', Some 900000))]"

theorem lock_lasts_witness:
  "0 < isLocked mem_redis KUser ''a@b'' 899000 (snd (recordFailure mem_redis KUser ''a@b'' 1000 seven_failures))
    \<and> isLocked mem_redis KUser ''a@b'' 901000 (snd (recordFailure mem_redis KUser ''a@b'' 1000 seven_failures)) = 0"
proof -
  have seven: "show_nat 7 = ''7''" by code_simp
  have ok: "store_ok mem_view seven_failures 1000"
    unfolding store_ok_def seven_failures_def mem_view_def
    by (auto simp: WINDOW_S_def intro!: exI [of _ 7] seven [symmetric])
  have locked: "fst (recordFailure mem_redis KUser ''a@b'' 1000 seven_failures) = LOCK_S"
    by code_simp
  show ?thesis
    using lock_lasts [OF mem.redis_store_axioms ok locked, of 899000]
      lock_lasts [OF mem.redis_store_axioms ok locked, of 901000]
    by (simp add: LOCK_S_def)
qed

text \<open>
  what the admin sees can be undone. The list of lock-outs ends and shows every lock in force,
  and removing a listed entry by its key, also one whose address holds colons, unlocks that account
  or address, forgets its failures, and leaves every other key alone.
\<close>

theorem removeLockout_unlocks:
  assumes "redis_store R view"
  shows "(\<exists>n ls. listLockouts R n now s = Some ls \<and>
      (\<lambda>l. ''lock:'' @ lo_key l) ` set ls = {k. prefix ''lock:'' k \<and> view s now k \<noteq> None}) \<and>
    isLocked R k i now (removeLockout R (kind_name k @ '':'' @ i) now s) = 0 \<and>
    failures view (removeLockout R (kind_name k @ '':'' @ i) now s) now k i = 0 \<and>
    (j \<noteq> failKey k i \<and> j \<noteq> lockKey k i \<longrightarrow>
      view (removeLockout R (kind_name k @ '':'' @ i) now s) now j = view s now j)"
  unfolding removeLockout_key
  using redis_store.listLockouts_complete [OF assms, of now s]
  by (simp add: failures_def redis_store.isLocked_clear [OF assms] redis_store.clear_view [OF assms])

theorem removeLockout_unlocks_witness:
  "isLocked mem_redis KIp ''::1'' 5 (removeLockout mem_redis ''ip:::1'' 5
     [(lockKey KIp ''::1'', (''20'', Some 900000))]) = 0"
  using removeLockout_unlocks [OF mem.redis_store_axioms, of 5 "[(lockKey KIp ''::1'', (''20'', Some 900000))]" KIp "''::1''"]
  by simp

end
