(* ===== verification/JsRegex.thy ===== *)
theory JsRegex
  imports Prelude
begin

text \<open>
  JavaScript regular expressions. The source reads log lines, addresses, subjects and headers
  with \<open>RegExp\<close>; each of its patterns is a value of the datatype \<open>re\<close> below, and
  \<open>re_match\<close> is the backtracking matcher of the ECMAScript standard as a list of successes:
  the results come in the order in which the engine tries them, so the first one is what
  \<open>exec\<close> returns. \<open>re_exec\<close>, \<open>re_test\<close>, \<open>re_replace\<close> and
  \<open>re_replace_all\<close> stand for \<open>exec\<close>, \<open>test\<close> and \<open>replace\<close>
  without and with the flag \<open>g\<close>; \<open>re_match_all\<close> for \<open>match\<close> with the flag
  \<open>g\<close>.
\<close>

subsection \<open>Patterns and the matcher\<close>

datatype re =
    Eps
  | Chr "char \<Rightarrow> bool"
  | Seq re re
  | Alt re re
  | Star re
  | LazyStar re
  | Cap nat re
  | Ahead re
  | AtStart
  | AtEnd
  | WordBoundary

text \<open>Where the matcher is: the text before it (reversed), the text after it, the captures.\<close>

type_synonym captures = "(nat \<times> string) list"
type_synonym mstate = "string \<times> string \<times> captures"

definition re_word_char :: "char \<Rightarrow> bool" where
  "re_word_char c \<longleftrightarrow> js_digit c \<or> (65 \<le> code_unit c \<and> code_unit c \<le> 90) \<or>
     (97 \<le> code_unit c \<and> code_unit c \<le> 122) \<or> c = CHR ''_''"

definition at_word_boundary :: "string \<Rightarrow> string \<Rightarrow> bool" where
  "at_word_boundary b s \<longleftrightarrow>
     ((b \<noteq> [] \<and> re_word_char (hd b)) \<noteq> (s \<noteq> [] \<and> re_word_char (hd s)))"

text \<open>
  A quantifier runs its body again only from a result that consumed something; at most
  \<open>length s\<close> such iterations fit into the text \<open>s\<close> that is left, which is the fuel.
\<close>

fun re_iter :: "(mstate \<Rightarrow> mstate list) \<Rightarrow> nat \<Rightarrow> mstate \<Rightarrow> mstate list" where
  "re_iter f 0 st = [st]"
| "re_iter f (Suc n) st =
     concat (map (re_iter f n) (filter (\<lambda>st'. length (fst (snd st')) < length (fst (snd st))) (f st))) @ [st]"

fun re_lazy :: "(mstate \<Rightarrow> mstate list) \<Rightarrow> nat \<Rightarrow> mstate \<Rightarrow> mstate list" where
  "re_lazy f 0 st = [st]"
| "re_lazy f (Suc n) st =
     st # concat (map (re_lazy f n) (filter (\<lambda>st'. length (fst (snd st')) < length (fst (snd st))) (f st)))"

primrec re_match :: "re \<Rightarrow> mstate \<Rightarrow> mstate list" where
  "re_match Eps = (\<lambda>st. [st])"
| "re_match (Chr p) = (\<lambda>(b, s, c). case s of [] \<Rightarrow> [] | x # s' \<Rightarrow> if p x then [(x # b, s', c)] else [])"
| "re_match (Seq r q) = (\<lambda>st. concat (map (re_match q) (re_match r st)))"
| "re_match (Alt r q) = (\<lambda>st. re_match r st @ re_match q st)"
| "re_match (Star r) = (\<lambda>(b, s, c). re_iter (re_match r) (length s) (b, s, c))"
| "re_match (LazyStar r) = (\<lambda>(b, s, c). re_lazy (re_match r) (length s) (b, s, c))"
| "re_match (Cap k r) = (\<lambda>(b, s, c).
     map (\<lambda>(b', s', c'). (b', s', (k, take (length s - length s') s) # c')) (re_match r (b, s, c)))"
| "re_match (Ahead r) = (\<lambda>(b, s, c).
     (case re_match r (b, s, c) of [] \<Rightarrow> [] | (_, _, c') # _ \<Rightarrow> [(b, s, c')]))"
| "re_match AtStart = (\<lambda>(b, s, c). if b = [] then [(b, s, c)] else [])"
| "re_match AtEnd = (\<lambda>(b, s, c). if s = [] then [(b, s, c)] else [])"
| "re_match WordBoundary = (\<lambda>(b, s, c). if at_word_boundary b s then [(b, s, c)] else [])"

subsection \<open>Derived patterns\<close>

definition Plus :: "re \<Rightarrow> re" where
  "Plus r = Seq r (Star r)"

definition Opt :: "re \<Rightarrow> re" where
  "Opt r = Alt r Eps"

fun Times :: "nat \<Rightarrow> re \<Rightarrow> re" where
  "Times 0 r = Eps"
| "Times (Suc n) r = Seq r (Times n r)"

fun UpTo :: "nat \<Rightarrow> re \<Rightarrow> re" where
  "UpTo 0 r = Eps"
| "UpTo (Suc n) r = Opt (Seq r (UpTo n r))"

definition Between :: "nat \<Rightarrow> nat \<Rightarrow> re \<Rightarrow> re" where
  \<comment> \<open>\<open>r{m,n}\<close>\<close>
  "Between m n r = Seq (Times m r) (UpTo (n - m) r)"

fun Lit :: "string \<Rightarrow> re" where
  "Lit [] = Eps"
| "Lit (c # s) = Seq (Chr (\<lambda>x. x = c)) (Lit s)"

fun LitI :: "string \<Rightarrow> re" where
  \<comment> \<open>a literal of ASCII letters under the flag \<open>i\<close>\<close>
  "LitI [] = Eps"
| "LitI (c # s) = Seq (Chr (\<lambda>x. lower_char x = lower_char c)) (LitI s)"

fun Seqs :: "re list \<Rightarrow> re" where
  "Seqs [] = Eps"
| "Seqs [r] = r"
| "Seqs (r # q # rs) = Seq r (Seqs (q # rs))"

fun Alts :: "re list \<Rightarrow> re" where
  "Alts [] = Chr (\<lambda>_. False)"
| "Alts [r] = r"
| "Alts (r # q # rs) = Alt r (Alts (q # rs))"

definition re_range :: "char \<Rightarrow> char \<Rightarrow> char \<Rightarrow> bool" where
  "re_range lo hi c \<longleftrightarrow> code_unit lo \<le> code_unit c \<and> code_unit c \<le> code_unit hi"

definition re_dot :: "char \<Rightarrow> bool" where
  \<comment> \<open>\<open>.\<close>: anything but a line terminator\<close>
  "re_dot c \<longleftrightarrow> code_unit c \<noteq> 10 \<and> code_unit c \<noteq> 13"

abbreviation Digits :: re where "Digits \<equiv> Plus (Chr js_digit)"
abbreviation Digit :: re where "Digit \<equiv> Chr js_digit"
abbreviation AnyStar :: re where "AnyStar \<equiv> Star (Chr re_dot)"
abbreviation NotIn :: "string \<Rightarrow> re" where "NotIn cs \<equiv> Chr (\<lambda>c. c \<notin> set cs)"
abbreviation OneOf :: "string \<Rightarrow> re" where "OneOf cs \<equiv> Chr (\<lambda>c. c \<in> set cs)"

subsection \<open>The RegExp methods\<close>

text \<open>The first position with a match: what was skipped, the state there, the state after.\<close>

fun re_search :: "re \<Rightarrow> string \<Rightarrow> string \<Rightarrow> (string \<times> mstate) option" where
  "re_search r b [] = (case re_match r (b, [], []) of [] \<Rightarrow> None | st # _ \<Rightarrow> Some ([], st))"
| "re_search r b (x # s) =
     (case re_match r (b, x # s, []) of
        st # _ \<Rightarrow> Some ([], st)
      | [] \<Rightarrow> map_option (\<lambda>(skip, st). (x # skip, st)) (re_search r (x # b) s))"

definition re_exec :: "re \<Rightarrow> string \<Rightarrow> captures option" where
  \<comment> \<open>group 0 is the whole match\<close>
  "re_exec r s = (case re_search r [] s of
     None \<Rightarrow> None
   | Some (skip, (_, rest, c)) \<Rightarrow> Some ((0, drop (length skip) (take (length s - length rest) s)) # c))"

definition re_test :: "re \<Rightarrow> string \<Rightarrow> bool" where
  "re_test r s \<longleftrightarrow> re_exec r s \<noteq> None"

definition group :: "captures \<Rightarrow> nat \<Rightarrow> string option" where
  \<comment> \<open>\<open>m[k]\<close>: undefined when the group took no part in the match\<close>
  "group c k = map_of c k"

definition group_str :: "captures \<Rightarrow> nat \<Rightarrow> string" where
  \<comment> \<open>\<open>m[k]!\<close>, for a group that is always part of the match\<close>
  "group_str c k = (case group c k of None \<Rightarrow> [] | Some w \<Rightarrow> w)"

definition re_replace :: "re \<Rightarrow> string \<Rightarrow> string \<Rightarrow> string" where
  "re_replace r by_text s = (case re_search r [] s of
     None \<Rightarrow> s
   | Some (skip, (_, rest, _)) \<Rightarrow> skip @ by_text @ rest)"

subsection \<open>What a match consumes\<close>

definition mtext :: "mstate \<Rightarrow> string" where
  "mtext st = rev (fst st) @ fst (snd st)"

definition advances :: "mstate \<Rightarrow> mstate \<Rightarrow> bool" where
  "advances st st' \<longleftrightarrow> (\<exists>w. fst (snd st) = w @ fst (snd st') \<and> fst st' = rev w @ fst st)"

lemma advances_refl: "advances st st"
  by (simp add: advances_def)

lemma advances_trans: "advances a b \<Longrightarrow> advances b c \<Longrightarrow> advances a c"
  by (auto simp: advances_def)

lemma advances_mtext: "advances a b \<Longrightarrow> mtext b = mtext a"
  by (auto simp: advances_def mtext_def)

lemma re_iter_advances:
  "(\<And>st st'. st' \<in> set (f st) \<Longrightarrow> advances st st') \<Longrightarrow> st' \<in> set (re_iter f n st) \<Longrightarrow> advances st st'"
  by (induction f n st rule: re_iter.induct) (auto simp: advances_refl, meson advances_trans)

lemma re_lazy_advances:
  "(\<And>st st'. st' \<in> set (f st) \<Longrightarrow> advances st st') \<Longrightarrow> st' \<in> set (re_lazy f n st) \<Longrightarrow> advances st st'"
  by (induction f n st rule: re_lazy.induct) (auto simp: advances_refl, meson advances_trans)

lemma re_match_advances: "st' \<in> set (re_match r st) \<Longrightarrow> advances st st'"
proof (induction r arbitrary: st st')
  case (Seq r q)
  then show ?case by (auto, meson advances_trans)
next
  case (Star r)
  then show ?case by (cases st) (auto intro: re_iter_advances [OF Star.IH])
next
  case (LazyStar r)
  then show ?case by (cases st) (auto intro: re_lazy_advances [OF LazyStar.IH])
next
  case (Cap k r)
  then obtain b s c b' s' c' where
    "st = (b, s, c)" "(b', s', c') \<in> set (re_match r (b, s, c))" "fst st' = b'" "fst (snd st') = s'"
    by (cases st) auto
  with Cap.IH [of "(b', s', c')" "(b, s, c)"] show ?case by (simp add: advances_def)
qed (auto simp: advances_def split: prod.splits list.splits if_splits)

lemma re_search_advances:
  "re_search r b s = Some (skip, st) \<Longrightarrow>
    \<exists>w. s = skip @ w @ fst (snd st) \<and> fst st = rev (skip @ w) @ b"
proof (induction r b s arbitrary: skip st rule: re_search.induct)
  case (1 r b)
  then show ?case
    using re_match_advances [of st r "(b, [], [])"] by (auto simp: advances_def split: list.splits)
next
  case (2 r b x s)
  show ?case
  proof (cases "re_match r (b, x # s, [])")
    case (Cons st' sts)
    with 2 have "skip = []" "st = st'" by auto
    with Cons re_match_advances [of st r "(b, x # s, [])"] show ?thesis by (auto simp: advances_def)
  next
    case Nil
    with 2 show ?thesis by auto
  qed
qed

subsection \<open>What characters a match can hold\<close>

text \<open>\<open>re_over P r\<close>: the pattern takes only characters that satisfy \<open>P\<close>.\<close>

primrec re_over :: "(char \<Rightarrow> bool) \<Rightarrow> re \<Rightarrow> bool" where
  "re_over P Eps = True"
| "re_over P (Chr p) = (\<forall>c. p c \<longrightarrow> P c)"
| "re_over P (Seq r q) = (re_over P r \<and> re_over P q)"
| "re_over P (Alt r q) = (re_over P r \<and> re_over P q)"
| "re_over P (Star r) = re_over P r"
| "re_over P (LazyStar r) = re_over P r"
| "re_over P (Cap k r) = re_over P r"
| "re_over P (Ahead r) = True"
| "re_over P AtStart = True"
| "re_over P AtEnd = True"
| "re_over P WordBoundary = True"

definition takes :: "(char \<Rightarrow> bool) \<Rightarrow> mstate \<Rightarrow> mstate \<Rightarrow> bool" where
  "takes P st st' \<longleftrightarrow> (\<exists>w. fst (snd st) = w @ fst (snd st') \<and> list_all P w)"

lemma takes_refl: "takes P st st"
  by (simp add: takes_def)

lemma takes_trans: "takes P a b \<Longrightarrow> takes P b c \<Longrightarrow> takes P a c"
  by (force simp: takes_def)

lemma re_iter_takes:
  "(\<And>st st'. st' \<in> set (f st) \<Longrightarrow> takes P st st') \<Longrightarrow> st' \<in> set (re_iter f n st) \<Longrightarrow> takes P st st'"
  by (induction f n st rule: re_iter.induct) (auto simp: takes_refl, meson takes_trans)

lemma re_lazy_takes:
  "(\<And>st st'. st' \<in> set (f st) \<Longrightarrow> takes P st st') \<Longrightarrow> st' \<in> set (re_lazy f n st) \<Longrightarrow> takes P st st'"
  by (induction f n st rule: re_lazy.induct) (auto simp: takes_refl, meson takes_trans)

lemma re_match_takes: "st' \<in> set (re_match r st) \<Longrightarrow> re_over P r \<Longrightarrow> takes P st st'"
proof (induction r arbitrary: st st')
  case (Seq r q)
  then show ?case by (auto, meson takes_trans)
next
  case (Star r)
  then show ?case by (cases st) (auto intro: re_iter_takes [OF Star.IH])
next
  case (LazyStar r)
  then show ?case by (cases st) (auto intro: re_lazy_takes [OF LazyStar.IH])
next
  case (Cap k r)
  then obtain b s c b' s' c' where
    "st = (b, s, c)" "(b', s', c') \<in> set (re_match r (b, s, c))" "fst (snd st') = s'"
    by (cases st) auto
  with Cap.IH [of "(b', s', c')" "(b, s, c)"] Cap.prems show ?case by (simp add: takes_def)
qed (auto simp: takes_def split: prod.splits list.splits if_splits)

text \<open>\<open>caps_over Q r\<close>: group \<open>k\<close> takes only characters that satisfy \<open>Q k\<close>.\<close>

primrec caps_over :: "(nat \<Rightarrow> char \<Rightarrow> bool) \<Rightarrow> re \<Rightarrow> bool" where
  "caps_over Q Eps = True"
| "caps_over Q (Chr p) = True"
| "caps_over Q (Seq r q) = (caps_over Q r \<and> caps_over Q q)"
| "caps_over Q (Alt r q) = (caps_over Q r \<and> caps_over Q q)"
| "caps_over Q (Star r) = caps_over Q r"
| "caps_over Q (LazyStar r) = caps_over Q r"
| "caps_over Q (Cap k r) = (re_over (Q k) r \<and> caps_over Q r)"
| "caps_over Q (Ahead r) = caps_over Q r"
| "caps_over Q AtStart = True"
| "caps_over Q AtEnd = True"
| "caps_over Q WordBoundary = True"

definition caps_ok :: "(nat \<Rightarrow> char \<Rightarrow> bool) \<Rightarrow> mstate \<Rightarrow> bool" where
  "caps_ok Q st \<longleftrightarrow> (\<forall>(k, w) \<in> set (snd (snd st)). list_all (Q k) w)"

lemma re_iter_caps:
  "(\<And>st st'. st' \<in> set (f st) \<Longrightarrow> caps_ok Q st \<Longrightarrow> caps_ok Q st') \<Longrightarrow>
    st' \<in> set (re_iter f n st) \<Longrightarrow> caps_ok Q st \<Longrightarrow> caps_ok Q st'"
  by (induction f n st rule: re_iter.induct) auto

lemma re_lazy_caps:
  "(\<And>st st'. st' \<in> set (f st) \<Longrightarrow> caps_ok Q st \<Longrightarrow> caps_ok Q st') \<Longrightarrow>
    st' \<in> set (re_lazy f n st) \<Longrightarrow> caps_ok Q st \<Longrightarrow> caps_ok Q st'"
  by (induction f n st rule: re_lazy.induct) auto

lemma re_match_caps: "st' \<in> set (re_match r st) \<Longrightarrow> caps_over Q r \<Longrightarrow> caps_ok Q st \<Longrightarrow> caps_ok Q st'"
proof (induction r arbitrary: st st')
  case (Seq r q)
  then obtain st1 where "st1 \<in> set (re_match r st)" "st' \<in> set (re_match q st1)" by auto
  with Seq show ?case by (metis caps_over.simps(3))
next
  case (Star r)
  then show ?case by (cases st) (auto intro: re_iter_caps [OF Star.IH])
next
  case (LazyStar r)
  then show ?case by (cases st) (auto intro: re_lazy_caps [OF LazyStar.IH])
next
  case (Cap k r)
  then obtain b s c b' s' c' where
    st: "st = (b, s, c)" "(b', s', c') \<in> set (re_match r (b, s, c))"
    "st' = (b', s', (k, take (length s - length s') s) # c')"
    by (cases st) auto
  have "takes (Q k) (b, s, c) (b', s', c')" using re_match_takes [OF st(2)] Cap.prems by simp
  then obtain w where "s = w @ s'" "list_all (Q k) w" by (auto simp: takes_def)
  with Cap.IH [OF st(2)] Cap.prems st show ?case by (auto simp: caps_ok_def)
next
  case (Alt r q)
  then show ?case by (metis Un_iff caps_over.simps(4) re_match.simps(4) set_append)
next
  case (Ahead r)
  obtain b s c where st: "st = (b, s, c)" by (cases st)
  show ?case
  proof (cases "re_match r st")
    case Nil
    with Ahead.prems st show ?thesis by simp
  next
    case (Cons q xs)
    then have "q \<in> set (re_match r st)" by simp
    with Ahead have "caps_ok Q q" by simp
    with Cons Ahead.prems st show ?thesis by (cases q) (simp add: caps_ok_def)
  qed
qed (auto simp: caps_ok_def split: prod.splits list.splits if_splits)

lemma re_search_caps:
  "re_search r b s = Some (skip, st) \<Longrightarrow> caps_over Q r \<Longrightarrow> caps_ok Q st"
proof (induction r b s arbitrary: skip st rule: re_search.induct)
  case (1 r b)
  then show ?case using re_match_caps [of st r "(b, [], [])" Q]
    by (auto simp: caps_ok_def split: list.splits)
next
  case (2 r b x s)
  show ?case
  proof (cases "re_match r (b, x # s, [])")
    case (Cons st' sts)
    with 2 have "st = st'" by auto
    with Cons 2 re_match_caps [of st r "(b, x # s, [])" Q] show ?thesis by (auto simp: caps_ok_def)
  next
    case Nil
    with 2 show ?thesis by auto
  qed
qed

lemma group_chars:
  assumes "re_exec r s = Some m" and "caps_over Q r" and "k \<noteq> 0" and "c \<in> set (group_str m k)"
  shows "Q k c"
proof -
  from assms(1) obtain skip b rest cs where s: "re_search r [] s = Some (skip, (b, rest, cs))"
    and m: "m = (0, drop (length skip) (take (length s - length rest) s)) # cs"
    by (auto simp: re_exec_def split: option.splits prod.splits)
  from assms(3,4) m obtain w where "map_of cs k = Some w" "c \<in> set w"
    by (cases "map_of cs k") (auto simp: group_str_def group_def)
  then have "(k, w) \<in> set cs" by (simp add: map_of_SomeD)
  with re_search_caps [OF s assms(2)] \<open>c \<in> set w\<close> show ?thesis
    by (auto simp: caps_ok_def list_all_iff)
qed

lemma re_over_Plus [simp]: "re_over P (Plus r) = re_over P r"
  by (simp add: Plus_def)

lemma re_over_Opt [simp]: "re_over P (Opt r) = re_over P r"
  by (simp add: Opt_def)

lemma re_over_Lit [simp]: "re_over P (Lit w) = list_all P w"
  by (induction w) auto

lemma caps_over_Plus [simp]: "caps_over P (Plus r) = caps_over P r"
  by (simp add: Plus_def)

lemma caps_over_Opt [simp]: "caps_over P (Opt r) = caps_over P r"
  by (simp add: Opt_def)

lemma caps_over_Lit [simp]: "caps_over P (Lit w)" "caps_over P (LitI w)"
  by (induction w) auto

subsection \<open>Anchored patterns and literals\<close>

lemma re_search_anchored_later: "b \<noteq> [] \<Longrightarrow> re_search (Seq AtStart r) b s = None"
  by (induction s arbitrary: b) auto

lemma re_search_anchored:
  "re_search (Seq AtStart r) [] s = (case re_match r ([], s, []) of [] \<Rightarrow> None | st # _ \<Rightarrow> Some ([], st))"
  by (cases s) (auto simp: re_search_anchored_later split: list.splits)

lemma re_exec_anchored:
  "re_exec (Seq AtStart r) s = (case re_match r ([], s, []) of
     [] \<Rightarrow> None
   | (_, rest, c) # _ \<Rightarrow> Some ((0, take (length s - length rest) s) # c))"
  by (simp add: re_exec_def re_search_anchored split: list.splits prod.splits)

lemma re_match_Lit:
  "re_match (Lit w) (b, s, c) = (if prefix w s then [(rev w @ b, drop (length w) s, c)] else [])"
  by (induction w arbitrary: b s) (auto split: list.splits)

subsection \<open>Global replacement and global matching\<close>

function re_replace_from :: "re \<Rightarrow> (captures \<Rightarrow> string \<Rightarrow> string) \<Rightarrow> string \<Rightarrow> string \<Rightarrow> string" where
  "re_replace_from r f b s = (case re_search r b s of
     None \<Rightarrow> s
   | Some (skip, (b', rest, c)) \<Rightarrow>
       let w = drop (length skip) (take (length s - length rest) s) in
       skip @ f c w @
         (if w = [] then (case rest of [] \<Rightarrow> [] | x # rest' \<Rightarrow> x # re_replace_from r f (x # b') rest')
          else re_replace_from r f b' rest))"
  by pat_completeness auto
termination
proof (relation "measure (\<lambda>(r, f, b, s). length s)", goal_cases)
  case 1
  then show ?case by simp
next
  case (2 r f b s p skip q b' q' rest c w x rest')
  then show ?case using re_search_advances [of r b s skip "(b', rest, c)"] by auto
next
  case (3 r f b s p skip q b' q' rest c w)
  then show ?case using re_search_advances [of r b s skip "(b', rest, c)"] by auto
qed

declare re_replace_from.simps [simp del]

definition re_replace_all :: "re \<Rightarrow> (captures \<Rightarrow> string \<Rightarrow> string) \<Rightarrow> string \<Rightarrow> string" where
  "re_replace_all r f s = re_replace_from r f [] s"

function re_match_from :: "re \<Rightarrow> string \<Rightarrow> string \<Rightarrow> string list" where
  "re_match_from r b s = (case re_search r b s of
     None \<Rightarrow> []
   | Some (skip, (b', rest, c)) \<Rightarrow>
       let w = drop (length skip) (take (length s - length rest) s) in
       w # (if w = [] then (case rest of [] \<Rightarrow> [] | x # rest' \<Rightarrow> re_match_from r (x # b') rest')
            else re_match_from r b' rest))"
  by pat_completeness auto
termination
proof (relation "measure (\<lambda>(r, b, s). length s)", goal_cases)
  case 1
  then show ?case by simp
next
  case (2 r b s p skip q b' q' rest c w x rest')
  then show ?case using re_search_advances [of r b s skip "(b', rest, c)"] by auto
next
  case (3 r b s p skip q b' q' rest c w)
  then show ?case using re_search_advances [of r b s skip "(b', rest, c)"] by auto
qed

declare re_match_from.simps [simp del]

definition re_match_all :: "re \<Rightarrow> string \<Rightarrow> string list" where
  \<comment> \<open>\<open>s.match(r) ?? []\<close> for a pattern with the flag \<open>g\<close>\<close>
  "re_match_all r s = re_match_from r [] s"

subsection \<open>First matches\<close>

text \<open>
  \<open>first_match r st st'\<close>: the first success of \<open>r\<close> at \<open>st\<close> is \<open>st'\<close>. A sequence succeeds first
  with what its second part makes of the first success of its first part; a star over a class of
  characters takes the longest run first.
\<close>

definition first_match :: "re \<Rightarrow> mstate \<Rightarrow> mstate \<Rightarrow> bool" where
  "first_match r st st' \<longleftrightarrow> (\<exists>xs. re_match r st = st' # xs)"

lemma first_Eps: "first_match Eps st st"
  by (simp add: first_match_def)

lemma first_Chr: "p x \<Longrightarrow> first_match (Chr p) (b, x # s, c) (x # b, s, c)"
  by (simp add: first_match_def)

lemma first_Seq: "first_match r st st1 \<Longrightarrow> first_match q st1 st2 \<Longrightarrow> first_match (Seq r q) st st2"
  by (auto simp: first_match_def)

lemma first_Seqs:
  "first_match r st st1 \<Longrightarrow> first_match (Seqs (q # rs)) st1 st2 \<Longrightarrow> first_match (Seqs (r # q # rs)) st st2"
  by (simp add: first_Seq)

lemma first_Seqs_last: "first_match r st st1 \<Longrightarrow> first_match (Seqs [r]) st st1"
  by simp

lemma first_Alt: "first_match r st st' \<Longrightarrow> first_match (Alt r q) st st'"
  by (auto simp: first_match_def)

lemma first_Opt: "first_match r st st' \<Longrightarrow> first_match (Opt r) st st'"
  by (auto simp: first_match_def Opt_def)

lemma first_Opt_none: "re_match r st = [] \<Longrightarrow> first_match (Opt r) st st"
  by (auto simp: first_match_def Opt_def)

lemma first_Cap:
  assumes "first_match r (b, w @ s, c) (b', s, c')"
  shows "first_match (Cap k r) (b, w @ s, c) (b', s, (k, w) # c')"
  using assms by (auto simp: first_match_def)

lemma first_Lit: "first_match (Lit w) (b, w @ s, c) (rev w @ b, s, c)"
  by (simp add: first_match_def re_match_Lit)

lemma first_Lit_text: "t = w @ s \<Longrightarrow> first_match (Lit w) (b, t, c) (rev w @ b, s, c)"
  by (simp add: first_Lit)

lemma Lit_fails: "\<not> prefix w s \<Longrightarrow> re_match (Seqs (Lit w # rs)) (b, s, c) = []"
  by (cases rs) (simp_all add: re_match_Lit)

lemma first_AtStart: "first_match AtStart ([], s, c) ([], s, c)"
  by (simp add: first_match_def)

lemma first_AtEnd: "first_match AtEnd (b, [], c) (b, [], c)"
  by (simp add: first_match_def)

lemma re_iter_Chr:
  "list_all p w \<Longrightarrow> s = [] \<or> \<not> p (hd s) \<Longrightarrow> length w \<le> n \<Longrightarrow>
    re_iter (re_match (Chr p)) n (b, w @ s, c) =
      map (\<lambda>k. (rev (take k w) @ b, drop k w @ s, c)) (rev [0..<Suc (length w)])"
proof (induction w arbitrary: n b)
  case Nil
  then show ?case by (cases n; cases s) auto
next
  case (Cons x w)
  from Cons.prems(3) obtain m where n: "n = Suc m" by (cases n) auto
  have "re_iter (re_match (Chr p)) n (b, (x # w) @ s, c) =
      re_iter (re_match (Chr p)) m (x # b, w @ s, c) @ [(b, x # w @ s, c)]"
    using Cons.prems(1) by (simp add: n)
  also have "re_iter (re_match (Chr p)) m (x # b, w @ s, c) =
      map (\<lambda>k. (rev (take k w) @ x # b, drop k w @ s, c)) (rev [0..<Suc (length w)])"
    using Cons by (simp add: n)
  also have "\<dots> = map (\<lambda>k. (rev (take k (x # w)) @ b, drop k (x # w) @ s, c)) (rev (map Suc [0..<Suc (length w)]))"
    by (simp add: rev_map comp_def del: upt_Suc)
  also have "\<dots> @ [(b, x # w @ s, c)] =
      map (\<lambda>k. (rev (take k (x # w)) @ b, drop k (x # w) @ s, c)) (rev (0 # map Suc [0..<Suc (length w)]))"
    by simp
  also have "0 # map Suc [0..<Suc (length w)] = [0..<Suc (length (x # w))]"
    by (simp add: map_Suc_upt upt_conv_Cons del: upt_Suc)
  finally show ?case .
qed

lemma re_match_star_chr:
  "list_all p w \<Longrightarrow> s = [] \<or> \<not> p (hd s) \<Longrightarrow> re_match (Star (Chr p)) (b, w @ s, c) =
    map (\<lambda>k. (rev (take k w) @ b, drop k w @ s, c)) (rev [0..<Suc (length w)])"
  by (simp only: re_match.simps(5) prod.case re_iter_Chr length_append le_add1)

lemma first_star:
  "list_all p w \<Longrightarrow> s = [] \<or> \<not> p (hd s) \<Longrightarrow> first_match (Star (Chr p)) (b, w @ s, c) (rev w @ b, s, c)"
  by (simp add: first_match_def re_match_star_chr del: re_match.simps)

lemma first_plus:
  assumes "list_all p w" "w \<noteq> []" "s = [] \<or> \<not> p (hd s)"
  shows "first_match (Plus (Chr p)) (b, w @ s, c) (rev w @ b, s, c)"
proof -
  from assms(1,2) obtain x v where w: "w = x # v" "p x" "list_all p v" by (cases w) auto
  show ?thesis
    unfolding Plus_def using first_Seq [OF first_Chr first_star [OF w(3) assms(3)], of p x b c] w(1,2) by simp
qed

lemma first_times:
  "list_all p w \<Longrightarrow> length w = n \<Longrightarrow> first_match (Times n (Chr p)) (b, w @ s, c) (rev w @ b, s, c)"
proof (induction n arbitrary: w b)
  case (Suc n)
  then obtain x v where w: "w = x # v" "p x" "list_all p v" "length v = n" by (cases w) auto
  show ?case using first_Seq [OF first_Chr Suc.IH [OF w(3,4)], of p x b] w(1,2) by simp
qed (simp add: first_Eps)

lemma first_upto:
  "list_all p w \<Longrightarrow> length w \<le> n \<Longrightarrow> s = [] \<or> \<not> p (hd s) \<Longrightarrow>
    first_match (UpTo n (Chr p)) (b, w @ s, c) (rev w @ b, s, c)"
proof (induction n arbitrary: w b)
  case (Suc n)
  show ?case
  proof (cases w)
    case Nil
    with Suc.prems show ?thesis by (cases s) (auto intro!: first_Opt_none)
  next
    case (Cons x v)
    have "first_match (Seq (Chr p) (UpTo n (Chr p))) (b, x # v @ s, c) (rev v @ x # b, s, c)"
      by (rule first_Seq [OF first_Chr Suc.IH]) (use Cons Suc.prems in auto)
    with Cons show ?thesis by (simp add: first_Opt)
  qed
qed (simp add: first_Eps)

lemma first_between:
  assumes "list_all p w" "m \<le> length w" "length w \<le> n" "s = [] \<or> \<not> p (hd s)"
  shows "first_match (Between m n (Chr p)) (b, w @ s, c) (rev w @ b, s, c)"
proof -
  have "first_match (Times m (Chr p)) (b, take m w @ drop m w @ s, c) (rev (take m w) @ b, drop m w @ s, c)"
    using assms by (intro first_times) (auto simp: list_all_iff dest: in_set_takeD)
  moreover have "first_match (UpTo (n - m) (Chr p)) (rev (take m w) @ b, drop m w @ s, c)
      (rev (drop m w) @ rev (take m w) @ b, s, c)"
    using assms by (intro first_upto) (auto simp: list_all_iff dest: in_set_dropD)
  ultimately have "first_match (Between m n (Chr p)) (b, take m w @ drop m w @ s, c)
      (rev (drop m w) @ rev (take m w) @ b, s, c)"
    unfolding Between_def by (rule first_Seq)
  then show ?thesis by (simp flip: rev_append append_assoc)
qed

text \<open>A star that runs to the end of the text gives back one character for the literal behind it.\<close>

lemma first_star_last:
  assumes "list_all p (w @ [x])"
  shows "first_match (Seq (Cap k (Star (Chr p))) (Lit [x])) (b, w @ [x], c) (x # rev w @ b, [], (k, w) # c)"
proof -
  have "re_match (Star (Chr p)) (b, w @ [x], c) =
      (x # rev w @ b, [], c) # (rev w @ b, [x], c) # map (\<lambda>j. (rev (take j (w @ [x])) @ b, drop j (w @ [x]), c)) (rev [0..<length w])"
    using re_match_star_chr [of p "w @ [x]" "[]" b c] assms by (simp del: re_match.simps)
  then have "re_match (Cap k (Star (Chr p))) (b, w @ [x], c) = (x # rev w @ b, [], (k, w @ [x]) # c) # (rev w @ b, [x], (k, w) # c) #
      map (\<lambda>(b', s', c'). (b', s', (k, take (length (w @ [x]) - length s') (w @ [x])) # c'))
        (map (\<lambda>j. (rev (take j (w @ [x])) @ b, drop j (w @ [x]), c)) (rev [0..<length w]))"
    by (simp only: re_match.simps(7) prod.case list.map) simp
  then show ?thesis by (simp add: first_match_def re_match_Lit del: re_match.simps(5,7))
qed

text \<open>
  A pattern over a class of characters, followed by a literal that begins outside the class, can only
  stop where the class ends, however it backtracks.
\<close>

primrec cap_free :: "re \<Rightarrow> bool" where
  "cap_free Eps = True"
| "cap_free (Chr p) = True"
| "cap_free (Seq r q) = (cap_free r \<and> cap_free q)"
| "cap_free (Alt r q) = (cap_free r \<and> cap_free q)"
| "cap_free (Star r) = cap_free r"
| "cap_free (LazyStar r) = cap_free r"
| "cap_free (Cap k r) = False"
| "cap_free (Ahead r) = cap_free r"
| "cap_free AtStart = True"
| "cap_free AtEnd = True"
| "cap_free WordBoundary = True"

lemma re_iter_inv:
  "(\<And>st st'. st' \<in> set (f st) \<Longrightarrow> P st \<Longrightarrow> P st') \<Longrightarrow> st' \<in> set (re_iter f n st) \<Longrightarrow> P st \<Longrightarrow> P st'"
  by (induction f n st rule: re_iter.induct) auto

lemma re_lazy_inv:
  "(\<And>st st'. st' \<in> set (f st) \<Longrightarrow> P st \<Longrightarrow> P st') \<Longrightarrow> st' \<in> set (re_lazy f n st) \<Longrightarrow> P st \<Longrightarrow> P st'"
  by (induction f n st rule: re_lazy.induct) auto

lemma cap_free_match: "st' \<in> set (re_match r st) \<Longrightarrow> cap_free r \<Longrightarrow> snd (snd st') = snd (snd st)"
proof (induction r arbitrary: st st')
  case (Seq r q)
  then obtain st1 where "st1 \<in> set (re_match r st)" "st' \<in> set (re_match q st1)" by auto
  with Seq show ?case by (metis cap_free.simps(3))
next
  case (Star r)
  obtain b s c where st: "st = (b, s, c)" by (cases st)
  show ?case using Star.prems re_iter_inv [of "re_match r" "\<lambda>x. snd (snd x) = c" st' "length s" st] Star.IH by (auto simp: st)
next
  case (LazyStar r)
  obtain b s c where st: "st = (b, s, c)" by (cases st)
  show ?case using LazyStar.prems re_lazy_inv [of "re_match r" "\<lambda>x. snd (snd x) = c" st' "length s" st] LazyStar.IH by (auto simp: st)
next
  case (Ahead r)
  obtain b s c where st: "st = (b, s, c)" by (cases st)
  show ?case
  proof (cases "re_match r st")
    case (Cons q xs)
    then have "q \<in> set (re_match r st)" by simp
    with Ahead have "snd (snd q) = snd (snd st)" by simp
    with Cons Ahead.prems st show ?thesis by (cases q) simp
  qed (use Ahead.prems st in simp)
qed (auto split: prod.splits list.splits if_splits)

lemma first_class:
  assumes r: "re_over p r" "cap_free r" and w: "list_all p w" and q: "q \<noteq> []" "\<not> p (hd q)"
    and ex: "(rev w @ b, q @ s, c) \<in> set (re_match r (b, w @ q @ s, c))"
  shows "first_match (Seq (Cap k r) (Lit q)) (b, w @ q @ s, c) (rev q @ rev w @ b, s, (k, w) # c)"
proof -
  let ?st = "(b, w @ q @ s, c)" and ?fin = "(rev q @ rev w @ b, s, (k, w) # c)"
  let ?rs = "re_match (Seq (Cap k r) (Lit q)) ?st"
  have only: "x = ?fin" if "x \<in> set ?rs" for x
  proof -
    from that obtain b' s' c' where m: "(b', s', c') \<in> set (re_match r ?st)" and l: "prefix q s'"
      and x: "x = (rev q @ b', drop (length q) s', (k, take (length (w @ q @ s) - length s') (w @ q @ s)) # c')"
      by (auto simp: re_match_Lit split: if_splits)
    from re_match_takes [OF m r(1)] obtain u where u: "w @ q @ s = u @ s'" "list_all p u" by (auto simp: takes_def)
    have tw: "takeWhile p (w @ q @ s) = w" using w q by (cases q) (auto simp: list_all_iff takeWhile_append)
    have "takeWhile p (u @ s') = u" using u(2) l q by (cases q) (auto simp: list_all_iff takeWhile_append prefix_def)
    with u(1) tw have "u = w" by simp
    with u(1) have "s' = q @ s" by simp
    moreover from re_match_advances [OF m] this have "b' = rev w @ b" by (auto simp: advances_def)
    moreover from cap_free_match [OF m r(2)] have "c' = c" by simp
    ultimately show ?thesis by (simp add: x)
  qed
  have "?fin \<in> set ?rs" using ex by (force simp: re_match_Lit image_iff)
  then obtain y ys where rs: "?rs = y # ys" by (cases ?rs) (simp_all only: list.set empty_iff)
  have "y = ?fin" by (rule only) (simp only: rs list.set_intros)
  with rs show ?thesis unfolding first_match_def by blast
qed

lemma first_in: "first_match r st st' \<Longrightarrow> st' \<in> set (re_match r st)"
  by (auto simp: first_match_def)

lemma first_Ahead:
  assumes "re_match r (b, s, c) \<noteq> []" "cap_free r"
  shows "first_match (Ahead r) (b, s, c) (b, s, c)"
proof -
  obtain x xs where x: "re_match r (b, s, c) = x # xs" using assms(1) by (cases "re_match r (b, s, c)") auto
  with cap_free_match [of x r "(b, s, c)"] assms(2) show ?thesis by (cases x) (simp add: first_match_def)
qed

lemma star_reaches:
  assumes "list_all p w" "s = [] \<or> \<not> p (hd s)" "x \<in> set w" "q x"
  shows "re_match (Seq (Star (Chr p)) (Chr q)) (b, w @ s, c) \<noteq> []"
proof -
  from assms(3) obtain u v where w: "w = u @ x # v" by (meson split_list)
  have "(rev u @ b, x # v @ s, c) \<in> set (re_match (Star (Chr p)) (b, w @ s, c))"
    unfolding re_match_star_chr [OF assms(1,2)] by (force simp: w image_iff intro: bexI [of _ "length u"])
  moreover have "re_match (Chr q) (rev u @ b, x # v @ s, c) \<noteq> []" using assms(4) by simp
  ultimately show ?thesis unfolding re_match.simps(3) concat_eq_Nil_conv set_map by blast
qed

lemma exec_first:
  assumes "first_match r ([], s, []) (b, [], c)"
  shows "re_exec (Seq AtStart r) s = Some ((0, s) # c)"
  using assms by (auto simp: re_exec_anchored first_match_def)

text \<open>
  \<open>reads r s s' c c'\<close>: whatever was read before, the first success of \<open>r\<close> on the text \<open>s\<close> leaves
  \<open>s'\<close> and turns the captures \<open>c\<close> into \<open>c'\<close>. The rules below follow the structure of a pattern.
\<close>

definition reads :: "re \<Rightarrow> string \<Rightarrow> string \<Rightarrow> captures \<Rightarrow> captures \<Rightarrow> bool" where
  "reads r s s' c c' \<longleftrightarrow> (\<forall>b. \<exists>b'. first_match r (b, s, c) (b', s', c'))"

lemma readsI: "(\<And>b. first_match r (b, s, c) (f b, s', c')) \<Longrightarrow> reads r s s' c c'"
  by (auto simp: reads_def)

lemma reads_Seq: "reads r s s1 c c1 \<Longrightarrow> reads q s1 s2 c1 c2 \<Longrightarrow> reads (Seq r q) s s2 c c2"
  unfolding reads_def by (meson first_Seq)

lemma reads_Seqs: "reads r s s1 c c1 \<Longrightarrow> reads (Seqs (q # rs)) s1 s2 c1 c2 \<Longrightarrow> reads (Seqs (r # q # rs)) s s2 c c2"
  by (simp add: reads_Seq)

lemma reads_last: "reads r s s1 c c1 \<Longrightarrow> reads (Seqs [r]) s s1 c c1"
  by simp

lemma reads_Lit: "reads (Lit w) (w @ s) s c c"
  by (rule readsI) (rule first_Lit)

lemma reads_Chr: "p x \<Longrightarrow> reads (Chr p) ([x] @ s) s c c"
  by (rule readsI, simp only: append_Cons append_Nil) (rule first_Chr)

lemma reads_Cap: "reads r (w @ s) s c c' \<Longrightarrow> reads (Cap k r) (w @ s) s c ((k, w) # c')"
  unfolding reads_def by (meson first_Cap)

lemma reads_Opt: "reads r s s' c c' \<Longrightarrow> reads (Opt r) s s' c c'"
  unfolding reads_def by (meson first_Opt)

lemma reads_Opt_none: "\<not> prefix w s \<Longrightarrow> reads (Opt (Seqs (Lit w # rs))) s s c c"
  by (rule readsI [where f = "\<lambda>b. b"]) (simp add: first_Opt_none Lit_fails)

lemma reads_star: "list_all p w \<Longrightarrow> s = [] \<or> \<not> p (hd s) \<Longrightarrow> reads (Star (Chr p)) (w @ s) s c c"
  by (rule readsI) (rule first_star)

lemma reads_star_end: "list_all p w \<Longrightarrow> reads (Star (Chr p)) w [] c c"
  using reads_star [of p w "[]"] by simp

lemma reads_plus: "list_all p w \<and> w \<noteq> [] \<Longrightarrow> s = [] \<or> \<not> p (hd s) \<Longrightarrow> reads (Plus (Chr p)) (w @ s) s c c"
  by (rule readsI, rule first_plus) auto

lemma reads_times: "list_all p w \<and> length w = n \<Longrightarrow> reads (Times n (Chr p)) (w @ s) s c c"
  by (rule readsI, rule first_times) auto

lemma reads_between:
  "list_all p w \<and> m \<le> length w \<and> length w \<le> n \<Longrightarrow> s = [] \<or> \<not> p (hd s) \<Longrightarrow> reads (Between m n (Chr p)) (w @ s) s c c"
  by (rule readsI, rule first_between) auto

lemma reads_AtEnd: "reads AtEnd [] [] c c"
  by (rule readsI) (rule first_AtEnd)

lemma reads_exec: "reads r s [] [] c \<Longrightarrow> re_exec (Seq AtStart r) s = Some ((0, s) # c)"
  unfolding reads_def by (meson exec_first)

lemma Seq_assoc: "re_match (Seq (Seq a r) q) st = re_match (Seq a (Seq r q)) st"
proof -
  have "concat (concat (map f xs)) = concat (map (\<lambda>x. concat (f x)) xs)" for f :: "mstate \<Rightarrow> mstate list list" and xs
    by (induction xs) simp_all
  then show ?thesis by (simp add: comp_def map_concat)
qed

lemma reads_class:
  assumes "re_over p r" "cap_free r" "list_all p w" "q \<noteq> []" "\<not> p (hd q)"
    and ex: "\<And>b. (rev w @ b, q @ s, c) \<in> set (re_match r (b, w @ q @ s, c))"
    and rest: "reads (Seqs (t # ts)) s s2 ((k, w) # c) c2"
  shows "reads (Seqs (Cap k r # Lit q # t # ts)) (w @ q @ s) s2 c c2"
proof -
  have "reads (Seq (Cap k r) (Lit q)) (w @ q @ s) s c ((k, w) # c)"
    by (rule readsI, rule first_class [OF assms(1-5) ex])
  from reads_Seq [OF this rest] show ?thesis
    unfolding reads_def first_match_def Seqs.simps Seq_assoc .
qed

lemma reads_pair:
  assumes "reads (Seq r r') s s1 c c1" and "reads (Seqs (q # rs)) s1 s2 c1 c2"
  shows "reads (Seqs (r # r' # q # rs)) s s2 c c2"
  using reads_Seq [OF assms] unfolding reads_def first_match_def Seqs.simps Seq_assoc .

subsection \<open>Replacing runs of a class of characters\<close>

lemma re_iter_nonempty: "re_iter f n st \<noteq> []"
  by (cases n) simp_all

lemma re_match_Plus_Chr:
  "re_match (Plus (Chr p)) (b, x # s, c) = (if p x then re_match (Star (Chr p)) (x # b, s, c) else [])"
  by (simp add: Plus_def)

lemma search_run:
  "case re_search (Plus (Chr p)) b s of
     None \<Rightarrow> list_all (\<lambda>c. \<not> p c) s
   | Some (skip, (b', rest, c)) \<Rightarrow> list_all (\<lambda>c. \<not> p c) skip \<and> length skip + length rest < length s"
proof (induction s arbitrary: b)
  case Nil
  then show ?case by (simp add: Plus_def)
next
  case (Cons x s)
  show ?case
  proof (cases "p x")
    case True
    have "re_match (Star (Chr p)) (x # b, s, []) \<noteq> []" by (simp add: re_iter_nonempty)
    then obtain st sts where st: "re_match (Star (Chr p)) (x # b, s, []) = st # sts" by (cases "re_match (Star (Chr p)) (x # b, s, [])") auto
    then have "advances (x # b, s, []) st" by (intro re_match_advances [where r = "Star (Chr p)"]) (simp del: re_match.simps)
    then have "length (fst (snd st)) \<le> length s" by (auto simp: advances_def)
    with True st show ?thesis
      by (auto simp: re_match_Plus_Chr simp del: re_match.simps split: prod.splits)
  next
    case False
    with Cons.IH [of "x # b"] show ?thesis
      by (auto simp: re_match_Plus_Chr simp del: re_match.simps split: option.splits)
  qed
qed

lemma replace_runs:
  "d \<in> set (re_replace_from (Plus (Chr p)) (\<lambda>_ _. w) b s) \<Longrightarrow> d \<in> set w \<or> \<not> p d"
proof (induction s arbitrary: b rule: length_induct)
  case (1 s)
  show ?case
  proof (cases "re_search (Plus (Chr p)) b s")
    case None
    then have "d \<in> set s" using 1(2) by (subst (asm) re_replace_from.simps) simp
    with None search_run [of p s b] show ?thesis by (simp add: list_all_iff)
  next
    case (Some r)
    obtain skip b' rest c where r: "r = (skip, (b', rest, c))" by (cases r) auto
    have sk: "list_all (\<lambda>c. \<not> p c) skip" "length skip + length rest < length s"
      using search_run [of p s b] Some r by simp_all
    then have "drop (length skip) (take (length s - length rest) s) \<noteq> []" by simp
    then have "d \<in> set skip \<or> d \<in> set w \<or> d \<in> set (re_replace_from (Plus (Chr p)) (\<lambda>_ _. w) b' rest)"
      using 1(2) Some r by (subst (asm) re_replace_from.simps) (simp add: Let_def)
    moreover have "length rest < length s" using sk(2) by simp
    ultimately show ?thesis using sk(1) 1(1) by (auto simp: list_all_iff)
  qed
qed

end
