(* ===== verification/IpNet.thy ===== *)
theory IpNet
  imports Models JsRegex "HOL-Library.Word"
begin

text \<open>
  IP addresses and networks: the parsing and matching part of
  \<open>apps/server/src/auth/bans.ts\<close>, with the part of Node's \<open>net\<close> module it uses
  (\<open>isIP\<close> and \<open>BlockList\<close>) and the containment operators of PostgreSQL's inet type
  that the queries of the same file use. An address is a 32-bit or 128-bit word.
\<close>

datatype ip = V4 "32 word" | V6 "128 word"

fun is_v4 :: "ip \<Rightarrow> bool" where
  "is_v4 (V4 _) = True"
| "is_v4 (V6 _) = False"

definition max_prefix :: "ip \<Rightarrow> nat" where
  "max_prefix a = (if is_v4 a then 32 else 128)"

lemma max_prefix_simps [simp]: "max_prefix (V4 a) = 32" "max_prefix (V6 b) = 128"
  by (simp_all add: max_prefix_def)

subsection \<open>Reading addresses\<close>

definition parse_octet :: "string \<Rightarrow> nat option" where
  \<comment> \<open>decimal, at most 255, no leading zero\<close>
  "parse_octet s =
     (if all_digits s \<and> length s \<le> 3 \<and> (length s = 1 \<or> hd s \<noteq> CHR ''0'') \<and> nat_of_digits s \<le> 255
      then Some (nat_of_digits s) else None)"

fun all_some :: "'a option list \<Rightarrow> 'a list option" where
  "all_some [] = Some []"
| "all_some (None # xs) = None"
| "all_some (Some x # xs) = map_option ((#) x) (all_some xs)"

definition parse_ipv4 :: "string \<Rightarrow> nat option" where
  "parse_ipv4 s = (case all_some (map parse_octet (split_on (CHR ''.'') s)) of
     Some [a, b, c, d] \<Rightarrow> Some (((a * 256 + b) * 256 + c) * 256 + d)
   | _ \<Rightarrow> None)"

definition hex_val :: "char \<Rightarrow> nat option" where
  "hex_val c =
     (if js_digit c then Some (digit_val c)
      else if re_range (CHR ''a'') (CHR ''f'') (lower_char c) then Some (code_unit (lower_char c) - 87)
      else None)"

definition parse_hextet :: "string \<Rightarrow> nat option" where
  "parse_hextet s =
     (if s \<noteq> [] \<and> length s \<le> 4
      then map_option (foldl (\<lambda>a d. a * 16 + d) 0) (all_some (map hex_val s)) else None)"

fun parse_groups :: "bool \<Rightarrow> string list \<Rightarrow> nat list option" where
  \<comment> \<open>the last group may be a dotted IPv4 address when the flag is set\<close>
  "parse_groups v4 [] = Some []"
| "parse_groups v4 [w] =
     (case parse_hextet w of
        Some g \<Rightarrow> Some [g]
      | None \<Rightarrow> (if v4 then map_option (\<lambda>n. [n div 65536, n mod 65536]) (parse_ipv4 w) else None))"
| "parse_groups v4 (w # ws) =
     (case parse_hextet w of
        None \<Rightarrow> None
      | Some g \<Rightarrow> map_option ((#) g) (parse_groups v4 ws))"

fun split_double_colon :: "string \<Rightarrow> string \<times> string option" where
  "split_double_colon (c # d # s) =
     (if c = CHR '':'' \<and> d = CHR '':'' then ([], Some s)
      else (let (l, r) = split_double_colon (d # s) in (c # l, r)))"
| "split_double_colon s = (s, None)"

definition groups_of :: "bool \<Rightarrow> string \<Rightarrow> nat list option" where
  "groups_of v4 s = (if s = [] then Some [] else parse_groups v4 (split_on (CHR '':'') s))"

definition parse_ipv6 :: "string \<Rightarrow> nat list option" where
  "parse_ipv6 s = (case split_double_colon s of
     (l, None) \<Rightarrow>
       (case groups_of True l of Some gs \<Rightarrow> if length gs = 8 then Some gs else None | None \<Rightarrow> None)
   | (l, Some r) \<Rightarrow>
       (case (groups_of False l, groups_of True r) of
          (Some gl, Some gr) \<Rightarrow>
            if length gl + length gr \<le> 7
            then Some (gl @ replicate (8 - length gl - length gr) 0 @ gr) else None
        | _ \<Rightarrow> None))"

definition strip_zone :: "string \<Rightarrow> string option" where
  \<comment> \<open>an IPv6 text may end in \<open>%zone\<close>, which the address itself does not hold\<close>
  "strip_zone s = (case split_on (CHR ''%'') s of
     [a] \<Rightarrow> Some a
   | [a, z] \<Rightarrow> if z \<noteq> [] \<and> list_all (\<lambda>c. js_digit c \<or> re_range (CHR ''a'') (CHR ''z'') (lower_char c) \<or> c \<in> set ''-.:'') z
              then Some a else None
   | _ \<Rightarrow> None)"

definition parse_ip :: "string \<Rightarrow> ip option" where
  \<comment> \<open>\<open>net.isIP(s)\<close> is 4, 6 or 0 as this is a V4, a V6 or None\<close>
  "parse_ip s = (case parse_ipv4 s of
     Some n \<Rightarrow> Some (V4 (of_nat n))
   | None \<Rightarrow> (case strip_zone s of
       None \<Rightarrow> None
     | Some a \<Rightarrow> map_option (\<lambda>gs. V6 (of_nat (foldl (\<lambda>x g. x * 65536 + g) 0 gs))) (parse_ipv6 a)))"

definition mapped_re :: re where
  \<comment> \<open>\<open>/^::ffff:(\d+\.\d+\.\d+\.\d+)$/i\<close>\<close>
  "mapped_re = Seqs [AtStart, Lit ''::'', LitI ''ffff'', Lit '':'',
     Cap 1 (Seqs [Digits, Lit ''.'', Digits, Lit ''.'', Digits, Lit ''.'', Digits]), AtEnd]"

definition plainIp :: "string \<Rightarrow> string" where
  "plainIp s = (case re_exec mapped_re (js_trim s) of
     Some m \<Rightarrow> group_str m 1
   | None \<Rightarrow> js_trim s)"

subsection \<open>Networks\<close>

record network =
  net_address :: string
  net_prefix :: nat
  net_ip :: ip

text \<open>
  The field \<open>family\<close> of the source is read off the parsed address \<open>net_ip\<close>, which
  stands for the string once \<open>isIP\<close> accepted it.
\<close>

definition parseNetwork :: "string \<Rightarrow> network option" where
  "parseNetwork input = (case split_on (CHR ''/'') (js_trim input) of
     rawAddress # rest \<Rightarrow>
       if length rest > 1 \<or> rawAddress = [] then None
       else (let address = plainIp rawAddress in
         (case parse_ip address of
            None \<Rightarrow> None
          | Some a \<Rightarrow>
              (case rest of
                 [] \<Rightarrow> Some \<lparr>net_address = address, net_prefix = max_prefix a, net_ip = a\<rparr>
               | rawPrefix # _ \<Rightarrow>
                   if all_digits rawPrefix \<and> nat_of_digits rawPrefix \<le> max_prefix a
                   then Some \<lparr>net_address = address, net_prefix = nat_of_digits rawPrefix, net_ip = a\<rparr>
                   else None)))
   | [] \<Rightarrow> None)"

definition full_prefix_re :: re where
  \<comment> \<open>\<open>/\/(32|128)$/\<close>\<close>
  "full_prefix_re = Seqs [Lit ''/'', Cap 1 (Alt (Lit ''32'') (Lit ''128'')), AtEnd]"

definition displayNetwork :: "string \<Rightarrow> string" where
  "displayNetwork cidr = re_replace full_prefix_re [] cidr"

subsection \<open>Node's BlockList\<close>

text \<open>
  A rule is an address with a prefix length. \<open>BlockList\<close> treats an IPv4 address and its
  IPv4-mapped IPv6 form as the same address, so both live in the 128-bit space here.
\<close>

type_synonym rule = "ip \<times> nat"

fun embed :: "ip \<Rightarrow> 128 word" where
  "embed (V4 a) = 0xFFFF00000000 + ucast a"
| "embed (V6 a) = a"

fun host_bits :: "rule \<Rightarrow> nat" where
  "host_bits (a, p) = max_prefix a - p"

definition rule_covers :: "rule \<Rightarrow> ip \<Rightarrow> bool" where
  "rule_covers r b \<longleftrightarrow> drop_bit (host_bits r) (embed (fst r)) = drop_bit (host_bits r) (embed b)"

definition list_check :: "rule list \<Rightarrow> ip \<Rightarrow> bool" where
  "list_check rules a \<longleftrightarrow> list_ex (\<lambda>r. rule_covers r a) rules"

definition addTo :: "rule list \<Rightarrow> network \<Rightarrow> rule list" where
  "addTo rules n = rules @ [(net_ip n, net_prefix n)]"

definition list_contains :: "rule list \<Rightarrow> string \<Rightarrow> bool" where
  "list_contains rules s = (case parse_ip (plainIp s) of None \<Rightarrow> False | Some a \<Rightarrow> list_check rules a)"

definition networkContains :: "string \<Rightarrow> string \<Rightarrow> bool" where
  "networkContains nw s = (case parseNetwork nw of
     None \<Rightarrow> False
   | Some n \<Rightarrow> list_contains (addTo [] n) s)"

subsection \<open>PostgreSQL's inet\<close>

fun inet_network :: "rule \<Rightarrow> rule" where
  \<comment> \<open>\<open>network(x)\<close>: the host bits set to zero\<close>
  "inet_network (V4 a, p) = (V4 (push_bit (32 - p) (drop_bit (32 - p) a)), p)"
| "inet_network (V6 a, p) = (V6 (push_bit (128 - p) (drop_bit (128 - p) a)), p)"

fun inet_contains_eq :: "rule \<Rightarrow> rule \<Rightarrow> bool" where
  \<comment> \<open>\<open>x >>= y\<close>\<close>
  "inet_contains_eq (V4 a, p) (V4 b, q) = (p \<le> q \<and> drop_bit (32 - p) a = drop_bit (32 - p) b)"
| "inet_contains_eq (V6 a, p) (V6 b, q) = (p \<le> q \<and> drop_bit (128 - p) a = drop_bit (128 - p) b)"
| "inet_contains_eq _ _ = False"

definition single :: "ip \<Rightarrow> rule" where
  "single a = (a, max_prefix a)"

subsection \<open>Covering an address\<close>

lemma unat_lt_32: "unat (a :: 32 word) < 4294967296"
  using unsigned_less [of a, where ?'a = nat] by simp

lemma unat_embed_V4: "unat (embed (V4 a)) = 0xFFFF * 2 ^ 32 + unat a"
proof -
  have "unat (ucast a :: 128 word) = unat a"
    using unat_lt_32 [of a] by (simp add: unsigned_ucast_eq take_bit_nat_eq_self_iff)
  then show ?thesis
    using unat_lt_32 [of a] by (simp add: unat_word_ariths)
qed

lemma unat_drop_bit_div: "unat (drop_bit k a) = unat a div 2 ^ k" for a :: "'a::len word"
  by (subst unat_drop_bit_eq) (rule drop_bit_eq_div)

lemma drop_bit_eq_iff_div:
  "drop_bit k a = drop_bit k b \<longleftrightarrow> unat a div 2 ^ k = unat b div 2 ^ k" for a b :: "'a::len word"
  by (simp only: word_unat_eq_iff unat_drop_bit_div)

lemma rule_covers_V4 [simp]:
  assumes "p \<le> 32"
  shows "rule_covers (V4 a, p) (V4 b) \<longleftrightarrow> drop_bit (32 - p) a = drop_bit (32 - p) b"
proof -
  let ?k = "32 - p"
  have split: "(0xFFFF * 2 ^ 32 + n) div 2 ^ ?k = 0xFFFF * 2 ^ p + n div 2 ^ ?k" for n :: nat
  proof -
    have "(2::nat) ^ 32 = 2 ^ p * 2 ^ ?k" using assms by (simp flip: power_add)
    then have "0xFFFF * 2 ^ 32 + n = n + (0xFFFF * 2 ^ p) * 2 ^ ?k" by (simp only: ac_simps)
    then show ?thesis by (simp only: div_mult_self1) simp
  qed
  show ?thesis
    unfolding rule_covers_def host_bits.simps fst_conv drop_bit_eq_iff_div unat_embed_V4
      max_prefix_simps split by simp
qed

lemma rule_covers_V6 [simp]:
  "rule_covers (V6 a, p) (V6 b) \<longleftrightarrow> drop_bit (128 - p) a = drop_bit (128 - p) b"
  by (simp add: rule_covers_def)

text \<open>An IPv4 rule never covers an IPv6 address outside the mapped range.\<close>

definition is_mapped :: "ip \<Rightarrow> bool" where
  "is_mapped a \<longleftrightarrow> (case a of V4 _ \<Rightarrow> False | V6 w \<Rightarrow> drop_bit 32 w = 0xFFFF)"

lemma rule_covers_V4_V6:
  assumes "p \<le> 32" and "rule_covers (V4 a, p) (V6 w)"
  shows "is_mapped (V6 w)"
proof -
  let ?k = "32 - p"
  from assms(2) have "unat (embed (V4 a)) div 2 ^ ?k = unat w div 2 ^ ?k"
    by (simp only: rule_covers_def host_bits.simps fst_conv embed.simps max_prefix_simps
        drop_bit_eq_iff_div)
  then have "unat (embed (V4 a)) div 2 ^ ?k div 2 ^ p = unat w div 2 ^ ?k div 2 ^ p" by simp
  then have "unat (embed (V4 a)) div 2 ^ 32 = unat w div 2 ^ 32"
    using assms(1) by (simp flip: div_mult2_eq power_add del: embed.simps)
  then have "unat w div 2 ^ 32 = 0xFFFF"
    using unat_lt_32 [of a] by (simp add: unat_embed_V4 del: embed.simps)
  then have "unat (drop_bit 32 w) = unat (0xFFFF :: 128 word)"
    by (simp only: unat_drop_bit_div) simp
  then have "drop_bit 32 w = 0xFFFF" by (simp only: word_unat_eq_iff)
  then show ?thesis by (simp add: is_mapped_def)
qed

definition rule_ok :: "rule \<Rightarrow> bool" where
  "rule_ok r \<longleftrightarrow> snd r \<le> max_prefix (fst r)"

definition same_family :: "ip \<Rightarrow> ip \<Rightarrow> bool" where
  "same_family a b \<longleftrightarrow> is_v4 a = is_v4 b"

text \<open>
  Node's BlockList and PostgreSQL agree on every pair of a network and an address of the same
  family.
\<close>

lemma covers_iff_inet:
  assumes "rule_ok r" and "same_family (fst r) a"
  shows "rule_covers r a \<longleftrightarrow> inet_contains_eq r (single a)"
  using assms by (cases r; cases "fst r"; cases a) (auto simp: rule_ok_def same_family_def single_def)

lemma inet_contains_eq_refl: "inet_contains_eq r r"
  by (cases r; cases "fst r") auto

lemma drop_bit_mono:
  fixes a b :: "'a::len word"
  assumes "m \<le> n" and "drop_bit m a = drop_bit m b"
  shows "drop_bit n a = drop_bit n b"
proof -
  have "drop_bit (n - m) (drop_bit m a) = drop_bit (n - m) (drop_bit m b)" using assms(2) by simp
  then show ?thesis using assms(1) by simp
qed

lemma inet_contains_eq_trans:
  "inet_contains_eq r s \<Longrightarrow> inet_contains_eq s t \<Longrightarrow> inet_contains_eq r t"
  by (cases r; cases s; cases t; cases "fst r"; cases "fst s"; cases "fst t")
    (auto intro: drop_bit_mono [OF diff_le_mono2])

lemma inet_network_ok: "rule_ok r \<Longrightarrow> rule_ok (inet_network r)"
  by (cases r; cases "fst r") (auto simp: rule_ok_def)

lemma drop_push_drop:
  fixes a :: "'a::len word"
  assumes "k \<le> LENGTH('a)"
  shows "drop_bit k (push_bit k (drop_bit k a)) = drop_bit k a"
  by (rule bit_word_eqI) (use assms in \<open>auto simp: bit_simps dest: bit_imp_le_length\<close>)

lemma inet_network_contains:
  "rule_ok r \<Longrightarrow> inet_contains_eq (inet_network r) s = inet_contains_eq r s"
  by (cases r; cases "fst r"; cases s; cases "fst s") (auto simp: rule_ok_def drop_push_drop)

lemma inet_network_covers:
  assumes "rule_ok r" and "same_family (fst r) a"
  shows "rule_covers (inet_network r) a = rule_covers r a"
proof -
  have "same_family (fst (inet_network r)) a"
    using assms(2) by (cases r; cases "fst r") (auto simp: same_family_def)
  then show ?thesis
    using assms by (simp add: covers_iff_inet inet_network_ok inet_network_contains)
qed

lemma inet_network_idem: "rule_ok r \<Longrightarrow> inet_network (inet_network r) = inet_network r"
  by (cases r; cases "fst r") (auto simp: rule_ok_def drop_push_drop)

lemma single_ok [simp]: "rule_ok (single a)"
  by (simp add: rule_ok_def single_def)

lemma rule_covers_single:
  "rule_covers (single a) b \<Longrightarrow> same_family a b \<Longrightarrow> b = a"
  by (cases a; cases b) (auto simp: single_def same_family_def)

lemma rule_covers_self [simp]: "rule_covers (a, p) a"
  by (simp add: rule_covers_def)

lemma inet_overlap_shorter:
  "inet_contains_eq r (single x) \<Longrightarrow> inet_contains_eq s (single x) \<Longrightarrow> snd r \<le> snd s \<Longrightarrow>
    inet_contains_eq r s"
  by (cases r; cases s; cases "fst r"; cases "fst s"; cases x)
    (auto simp: single_def dest: drop_bit_mono [OF diff_le_mono2])

lemma inet_overlap:
  "inet_contains_eq r (single x) \<Longrightarrow> inet_contains_eq s (single x) \<Longrightarrow>
    inet_contains_eq r s \<or> inet_contains_eq s r"
  using inet_overlap_shorter [of r x s] inet_overlap_shorter [of s x r] by linarith

text \<open>Networks and addresses that stay clear of the IPv4-mapped range \<open>::ffff:0:0/96\<close>.\<close>

definition mapped_base :: "128 word" where
  "mapped_base = 0xFFFF00000000"

fun outside_mapped :: "rule \<Rightarrow> bool" where
  "outside_mapped (V4 _, _) = True"
| "outside_mapped (V6 a, p) = (drop_bit (max 32 (128 - p)) a \<noteq> drop_bit (max 32 (128 - p)) mapped_base)"

lemma unat_mapped_base: "unat mapped_base = 0xFFFF * 2 ^ 32"
  by (simp add: mapped_base_def)

lemma embed_mapped: "drop_bit 32 (embed (V4 b)) = drop_bit 32 mapped_base"
  unfolding drop_bit_eq_iff_div unat_embed_V4 unat_mapped_base
  using unat_lt_32 [of b] by simp

lemma mapped_base_32: "drop_bit 32 mapped_base = 0xFFFF"
  by (simp add: mapped_base_def)

lemma outside_no_V4:
  assumes "outside_mapped (V6 a, p)"
  shows "\<not> rule_covers (V6 a, p) (V4 b)"
proof
  assume "rule_covers (V6 a, p) (V4 b)"
  then have "drop_bit (128 - p) a = drop_bit (128 - p) (embed (V4 b))"
    by (simp add: rule_covers_def del: embed.simps) simp
  then have "drop_bit (max 32 (128 - p)) a = drop_bit (max 32 (128 - p)) (embed (V4 b))"
    by (rule drop_bit_mono [rotated]) simp
  also have "\<dots> = drop_bit (max 32 (128 - p)) mapped_base"
    by (rule drop_bit_mono [OF _ embed_mapped]) simp
  finally show False using assms by simp
qed

lemma outside_not_mapped: "rule_ok r \<Longrightarrow> outside_mapped r \<Longrightarrow> \<not> is_mapped (fst r)"
  using drop_bit_mono [of 32 "max 32 (128 - snd r)" "case fst r of V6 a \<Rightarrow> a" mapped_base]
  by (cases r; cases "fst r") (auto simp: is_mapped_def mapped_base_32)

text \<open>Outside that range the BlockList and PostgreSQL agree on every rule and address.\<close>

lemma covers_iff_inet_all:
  assumes "rule_ok r" and "outside_mapped r" and "\<not> is_mapped x"
  shows "rule_covers r x \<longleftrightarrow> inet_contains_eq r (single x)"
proof (cases "same_family (fst r) x")
  case True
  then show ?thesis by (rule covers_iff_inet [OF assms(1)])
next
  case False
  obtain a p where r: "r = (a, p)" by (cases r)
  show ?thesis
  proof (cases a)
    case (V4 w)
    with False r obtain v where x: "x = V6 v" by (cases x) (auto simp: same_family_def)
    with r V4 assms have "\<not> rule_covers r x" using rule_covers_V4_V6 [of p w v] by (auto simp: rule_ok_def)
    with r V4 x show ?thesis by (simp add: single_def)
  next
    case (V6 w)
    with False r obtain v where x: "x = V4 v" by (cases x) (auto simp: same_family_def)
    with r V6 assms(2) have "\<not> rule_covers r x" using outside_no_V4 [of w p v] by simp
    with r V6 x show ?thesis by (simp add: single_def)
  qed
qed

lemma covers_same_family:
  assumes "rule_ok r" and "outside_mapped r" and "\<not> is_mapped x" and "rule_covers r x"
  shows "same_family (fst r) x"
  using assms covers_iff_inet_all [OF assms(1-3)]
  by (cases r; cases "fst r"; cases x) (auto simp: same_family_def single_def)

text \<open>Two networks that share an address are nested: one covers the base address of the other.\<close>

lemma drop_bit_nested:
  fixes a b c :: "'a::len word"
  assumes "drop_bit k a = drop_bit k c" and "drop_bit l b = drop_bit l c"
  shows "drop_bit k a = drop_bit k b \<or> drop_bit l b = drop_bit l a"
  using drop_bit_mono [of k l a c] drop_bit_mono [of l k b c] assms by (cases "k \<le> l") auto

lemma networks_nested:
  assumes "rule_ok r" "rule_ok s" "same_family (fst r) x" "same_family (fst s) x"
    and "rule_covers r x" "rule_covers s x"
  shows "rule_covers r (fst s) \<or> rule_covers s (fst r)"
proof (cases x)
  case (V4 c)
  with assms(3,4) obtain a p b q where rs: "r = (V4 a, p)" "s = (V4 b, q)"
    by (cases r; cases s; cases "fst r"; cases "fst s") (auto simp: same_family_def)
  with assms V4 show ?thesis
    using drop_bit_nested [of "32 - p" a c "32 - q" b] by (simp add: rule_ok_def)
next
  case (V6 c)
  with assms(3,4) obtain a p b q where rs: "r = (V6 a, p)" "s = (V6 b, q)"
    by (cases r; cases s; cases "fst r"; cases "fst s") (auto simp: same_family_def)
  with assms V6 show ?thesis
    using drop_bit_nested [of "128 - p" a c "128 - q" b] by simp
qed

subsection \<open>Block lists\<close>

lemma list_check_Nil [simp]: "\<not> list_check [] a"
  by (simp add: list_check_def)

lemma list_check_append [simp]: "list_check (xs @ ys) a \<longleftrightarrow> list_check xs a \<or> list_check ys a"
  by (simp add: list_check_def)

lemma list_check_iff: "list_check rules a \<longleftrightarrow> (\<exists>r \<in> set rules. rule_covers r a)"
  by (simp add: list_check_def list_ex_iff)

lemma list_check_addTo [simp]:
  "list_check (addTo rules n) a \<longleftrightarrow> list_check rules a \<or> rule_covers (net_ip n, net_prefix n) a"
  by (simp add: addTo_def list_check_def)

lemma list_check_mono: "set rs \<subseteq> set qs \<Longrightarrow> list_check rs a \<Longrightarrow> list_check qs a"
  by (auto simp: list_check_iff)

subsection \<open>Plain addresses\<close>

lemma mapped_re_start: "\<not> prefix ''::'' s \<Longrightarrow> re_exec mapped_re s = None"
proof -
  assume "\<not> prefix ''::'' s"
  then have "re_match (Lit ''::'') ([], s, []) = []" by (simp only: re_match_Lit if_False)
  then show ?thesis
    unfolding mapped_re_def Seqs.simps re_exec_anchored by (simp del: Lit.simps)
qed

lemma mapped_group_chars:
  "re_exec mapped_re s = Some g \<Longrightarrow> c \<in> set (group_str g 1) \<Longrightarrow> js_digit c \<or> c = CHR ''.''"
  by (rule group_chars [where Q = "\<lambda>_ c. js_digit c \<or> c = CHR ''.''"])
    (auto simp: mapped_re_def)

lemma mapped_group_plain:
  assumes "re_exec mapped_re s = Some g"
  shows "js_trim (group_str g 1) = group_str g 1" "\<not> prefix ''::'' (group_str g 1)"
proof -
  have "\<not> js_space c \<and> c \<noteq> CHR '':''" if "c \<in> set (group_str g 1)" for c
    using mapped_group_chars [OF assms that] by (auto simp: js_digit_def js_space_def)
  then show "js_trim (group_str g 1) = group_str g 1" "\<not> prefix ''::'' (group_str g 1)"
    by (auto intro!: js_trim_id) (auto simp: prefix_def, blast)
qed

lemma plainIp_idem [simp]: "plainIp (plainIp s) = plainIp s"
proof (cases "re_exec mapped_re (js_trim s)")
  case None
  then show ?thesis by (simp add: plainIp_def)
next
  case (Some g)
  then have p: "plainIp s = group_str g 1" by (simp add: plainIp_def)
  show ?thesis
    unfolding p using mapped_group_plain [OF Some] by (simp add: plainIp_def mapped_re_start)
qed

lemma plainIp_trim [simp]: "plainIp (js_trim s) = plainIp s"
  by (simp only: plainIp_def js_trim_idem)

lemma parseNetwork_plain: "parseNetwork s = Some n \<Longrightarrow> plainIp (net_address n) = net_address n"
  by (auto simp: parseNetwork_def Let_def split: list.splits option.splits if_splits)

subsection \<open>What \<open>parseNetwork\<close> accepts\<close>

lemma parseNetwork_ok: "parseNetwork s = Some n \<Longrightarrow> rule_ok (net_ip n, net_prefix n)"
  by (auto simp: parseNetwork_def rule_ok_def Let_def split: list.splits option.splits if_splits)

lemma parseNetwork_parse: "parseNetwork s = Some n \<Longrightarrow> parse_ip (net_address n) = Some (net_ip n)"
  by (auto simp: parseNetwork_def Let_def split: list.splits option.splits if_splits)

end
