(* ===== verification/PgInet.thy ===== *)
theory PgInet
  imports IpNet
begin

text \<open>
  PostgreSQL's inet and cidr values as text, as the queries of \<open>auth/bans.ts\<close> exchange them with
  the program: \<open>network::text\<close> and \<open>text::inet\<close>. PostgreSQL is a parameter: the record
  \<open>pg_inet_ops\<close>, with its documented behaviour as the locale \<open>pg_inet_type\<close>. The second part
  prints addresses and proves that the parser of \<open>IpNet\<close> reads them back; \<open>mem_pg\<close>,
  built from the two, satisfies the locale.
\<close>

record pg_inet_ops =
  pg_cidr_text :: "rule \<Rightarrow> string"
  pg_inet :: "string \<Rightarrow> rule option"

text \<open>
  The text of a network outside the IPv4-mapped range is one that \<open>parseNetwork\<close> reads back
  (PostgreSQL writes mapped networks in the dotted form, which \<open>plainIp\<close> turns into IPv4).
  An address that \<open>net.isIP\<close> accepts is a valid inet, unless it has a zone.
\<close>

locale pg_inet_type =
  fixes PG :: pg_inet_ops
  assumes text_network: "rule_ok r \<Longrightarrow> \<not> is_mapped (fst r) \<Longrightarrow>
      \<exists>n. parseNetwork (pg_cidr_text PG r) = Some n \<and> (net_ip n, net_prefix n) = r"
    and inet_text: "rule_ok r \<Longrightarrow> pg_inet PG (pg_cidr_text PG r) = Some r"
    and inet_ok: "pg_inet PG s = Some r \<Longrightarrow> rule_ok r"
    and inet_ip: "parse_ip s = Some a \<Longrightarrow> CHR ''%'' \<notin> set s \<Longrightarrow> pg_inet PG s = Some (single a)"
    and inet_net: "parse_ip s = Some a \<Longrightarrow> CHR ''%'' \<notin> set s \<Longrightarrow> p \<le> max_prefix a \<Longrightarrow>
      pg_inet PG (s @ ''/'' @ show_nat p) = Some (a, p)"

subsection \<open>Printing addresses\<close>

definition hex_char :: "nat \<Rightarrow> char" where
  "hex_char d = (if d < 10 then char_of (48 + d) else char_of (87 + d))"

fun digits_base :: "nat \<Rightarrow> nat \<Rightarrow> nat \<Rightarrow> nat list" where
  \<comment> \<open>the \<open>k\<close> lowest digits in base \<open>b\<close>, most significant first\<close>
  "digits_base b 0 n = []"
| "digits_base b (Suc k) n = digits_base b k (n div b) @ [n mod b]"

definition show_hextet :: "nat \<Rightarrow> string" where
  "show_hextet n = map hex_char (digits_base 16 4 n)"

fun show_ip :: "ip \<Rightarrow> string" where
  "show_ip (V4 a) = join_with ''.'' (map show_nat (digits_base 256 4 (unat a)))"
| "show_ip (V6 a) = join_with '':'' (map show_hextet (digits_base 65536 8 (unat a)))"

lemma digits_base_less: "0 < b \<Longrightarrow> d \<in> set (digits_base b k n) \<Longrightarrow> d < b"
  by (induction k arbitrary: n) auto

lemma length_digits_base [simp]: "length (digits_base b k n) = k"
  by (induction k arbitrary: n) auto

lemma foldl_digits_base:
  "n < b ^ k \<Longrightarrow> foldl (\<lambda>x d. x * b + d) 0 (digits_base b k n) = n"
proof (induction k arbitrary: n)
  case (Suc k)
  then have "n < b ^ k * b" by (simp only: power_Suc2)
  then have "n div b < b ^ k" by (rule less_mult_imp_div_less)
  from Suc.IH [OF this] show ?case by (simp add: div_mult_mod_eq)
qed simp

lemma length_4: "length xs = 4 \<Longrightarrow> \<exists>p q r s. xs = [p, q, r, s]"
  by (auto simp: length_Suc_conv eval_nat_numeral)

lemma digits_4: "\<exists>p q r s. digits_base b 4 n = [p, q, r, s]"
  by (rule length_4) (rule length_digits_base)

lemma digits_base_Nil [simp]: "digits_base b k n = [] \<longleftrightarrow> k = 0"
  by (cases k) auto

lemma all_some_map_Some: "(\<And>x. x \<in> set xs \<Longrightarrow> f x = Some (g x)) \<Longrightarrow> all_some (map f xs) = Some (map g xs)"
  by (induction xs) auto

lemma parse_octet_show: "n < 256 \<Longrightarrow> parse_octet (show_nat n) = Some n"
  using length_show_nat [of n 2] hd_show_nat [of n]
  by (cases "n = 0") (simp_all add: parse_octet_def, simp add: show_nat_0)

lemma show_nat_no_sep: "c \<in> set (show_nat n) \<Longrightarrow> c \<notin> set '':./%'' \<and> \<not> js_space c"
  using show_nat_digit [of c n] by (auto simp: js_digit_def js_space_def)

lemma hex_char_ok: "d < 16 \<Longrightarrow> hex_val (hex_char d) = Some d \<and> hex_char d \<notin> set '':./%'' \<and> \<not> js_space (hex_char d)"
proof -
  have *: "list_all (\<lambda>d. hex_val (hex_char d) = Some d \<and> hex_char d \<notin> set '':./%'' \<and> \<not> js_space (hex_char d)) [0..<16]"
    by code_simp
  assume "d < 16"
  then have "d \<in> set [0..<16]" by simp
  with * show ?thesis unfolding list_all_iff by (rule bspec)
qed

lemma parse_hextet_show: "n < 65536 \<Longrightarrow> parse_hextet (show_hextet n) = Some n"
proof -
  assume "n < 65536"
  let ?ds = "digits_base 16 4 n"
  have "all_some (map hex_val (map hex_char ?ds)) = Some (map id ?ds)"
    unfolding map_map by (rule all_some_map_Some) (use hex_char_ok digits_base_less in auto)
  moreover have "foldl (\<lambda>a d. a * 16 + d) 0 ?ds = n"
    using \<open>n < 65536\<close> by (intro foldl_digits_base) simp
  moreover have "?ds \<noteq> []" by simp
  ultimately show ?thesis by (simp add: parse_hextet_def show_hextet_def)
qed

lemma show_hextet_chars: "c \<in> set (show_hextet n) \<Longrightarrow> c \<notin> set '':./%'' \<and> \<not> js_space c"
  using hex_char_ok digits_base_less [of 16 _ 4 n] by (auto simp: show_hextet_def)

lemma parse_ipv4_show: "parse_ipv4 (show_ip (V4 a)) = Some (unat a)"
proof -
  let ?ds = "digits_base 256 4 (unat a)"
  have ne: "map show_nat ?ds \<noteq> []" by simp
  have "split_on (CHR ''.'') (show_ip (V4 a)) = map show_nat ?ds"
    unfolding show_ip.simps by (rule split_join [OF ne]) (use show_nat_no_sep in auto)
  moreover have "all_some (map parse_octet (map show_nat ?ds)) = Some (map id ?ds)"
    unfolding map_map by (rule all_some_map_Some) (use digits_base_less [of 256] parse_octet_show in auto)
  moreover obtain p q r s where ds: "?ds = [p, q, r, s]" using digits_4 by blast
  moreover have "((p * 256 + q) * 256 + r) * 256 + s = unat a"
    using foldl_digits_base [of "unat a" 256 4] unat_lt_32 [of a] unfolding ds by simp
  ultimately show ?thesis by (simp add: parse_ipv4_def)
qed

lemma parse_groups_show:
  "\<forall>g \<in> set gs. g < 65536 \<Longrightarrow> parse_groups v (map show_hextet gs) = Some gs"
  by (induction gs rule: induct_list012) (auto simp: parse_hextet_show)

fun no_double :: "string \<Rightarrow> bool" where
  "no_double (c # d # s) = (\<not> (c = CHR '':'' \<and> d = CHR '':'') \<and> no_double (d # s))"
| "no_double s = True"

lemma split_no_double: "no_double s \<Longrightarrow> split_double_colon s = (s, None)"
  by (induction s rule: no_double.induct) auto

lemma no_double_no_colon: "CHR '':'' \<notin> set w \<Longrightarrow> no_double w"
  by (induction w rule: no_double.induct) auto

lemma no_double_sep:
  "CHR '':'' \<notin> set w \<Longrightarrow> v \<noteq> [] \<Longrightarrow> hd v \<noteq> CHR '':'' \<Longrightarrow> no_double v \<Longrightarrow> no_double (w @ CHR '':'' # v)"
proof (induction w)
  case Nil
  then show ?case by (cases v) auto
next
  case (Cons c w)
  then show ?case by (cases w) auto
qed

lemma no_double_join:
  "\<forall>w \<in> set ws. w \<noteq> [] \<and> CHR '':'' \<notin> set w \<Longrightarrow> no_double (join_with '':'' ws)"
proof (induction ws rule: induct_list012)
  case (3 w v ws)
  have "join_with '':'' (v # ws) \<noteq> [] \<and> hd (join_with '':'' (v # ws)) \<noteq> CHR '':''"
    using 3 by (cases v; cases ws) auto
  with 3 show ?case using no_double_sep [of w "join_with '':'' (v # ws)"] by simp
qed (auto simp: no_double_no_colon)

lemma set_join_with: "set (join_with d ws) \<subseteq> set d \<union> (\<Union>w \<in> set ws. set w)"
  by (induction ws rule: induct_list012) auto

abbreviation hextets :: "128 word \<Rightarrow> nat list" where
  "hextets a \<equiv> digits_base 65536 8 (unat a)"

lemma hextets_less: "g \<in> set (hextets a) \<Longrightarrow> g < 65536"
  by (rule digits_base_less) simp_all

lemma show_hextet_Nil [simp]: "show_hextet n \<noteq> []"
  by (simp add: show_hextet_def)

lemma show_ip_chars: "c \<in> set (show_ip a) \<Longrightarrow> c \<notin> set ''/%'' \<and> \<not> js_space c"
proof (cases a)
  case (V4 w)
  assume "c \<in> set (show_ip a)"
  then have "c = CHR ''.'' \<or> (\<exists>d. c \<in> set (show_nat d))"
    using subsetD [OF set_join_with, of c "''.''" "map show_nat (digits_base 256 4 (unat w))"] by (auto simp: V4)
  then show ?thesis using show_nat_no_sep by (auto simp: js_space_def)
next
  case (V6 w)
  assume "c \<in> set (show_ip a)"
  then have "c = CHR '':'' \<or> (\<exists>d. c \<in> set (show_hextet d))"
    using subsetD [OF set_join_with, of c "'':''" "map show_hextet (hextets w)"] by (auto simp: V6)
  then show ?thesis using show_hextet_chars by (auto simp: js_space_def)
qed

lemma parse_ipv6_show: "parse_ipv6 (show_ip (V6 a)) = Some (hextets a)"
proof -
  let ?ws = "map show_hextet (hextets a)"
  have ws: "?ws \<noteq> []" "\<forall>w \<in> set ?ws. CHR '':'' \<notin> set w" using show_hextet_chars by auto
  then have ne: "show_ip (V6 a) \<noteq> []"
    by (cases ?ws rule: list.exhaust; cases "tl ?ws") (auto simp del: digits_base.simps)
  have "no_double (show_ip (V6 a))"
    unfolding show_ip.simps by (rule no_double_join) (use show_hextet_chars in auto)
  moreover have "split_on (CHR '':'') (show_ip (V6 a)) = ?ws"
    unfolding show_ip.simps by (rule split_join [OF ws])
  ultimately show ?thesis
    using ne by (simp add: parse_ipv6_def split_no_double groups_of_def parse_groups_show hextets_less del: show_ip.simps)
qed

lemma parse_ipv4_colon: "CHR ''.'' \<notin> set s \<Longrightarrow> parse_ipv4 s = None"
proof -
  assume "CHR ''.'' \<notin> set s"
  then have "split_on (CHR ''.'') s = [s]" by (rule split_on_no_sep)
  then show ?thesis by (cases "parse_octet s") (simp_all add: parse_ipv4_def)
qed

lemma strip_zone_plain: "CHR ''%'' \<notin> set s \<Longrightarrow> strip_zone s = Some s"
  by (simp add: strip_zone_def split_on_no_sep)

lemma parse_ip_show: "parse_ip (show_ip a) = Some a"
proof (cases a)
  case (V4 w)
  then show ?thesis using parse_ipv4_show [of w] by (simp add: parse_ip_def del: show_ip.simps)
next
  case (V6 w)
  have "CHR ''.'' \<notin> set (show_ip (V6 w))"
    using set_join_with [of "'':''" "map show_hextet (hextets w)"] show_hextet_chars by auto
  moreover have "CHR ''%'' \<notin> set (show_ip (V6 w))"
    using show_ip_chars [of "CHR ''%''" "V6 w"] by (auto simp del: show_ip.simps)
  moreover have "foldl (\<lambda>x g. x * 65536 + g) 0 (hextets w) = unat w"
    by (rule foldl_digits_base) (use unsigned_less [of w, where ?'a = nat] in simp)
  ultimately show ?thesis
    using V6 parse_ipv6_show [of w] by (simp add: parse_ip_def parse_ipv4_colon strip_zone_plain del: show_ip.simps)
qed

subsection \<open>What an address is made of\<close>

lemma all_some_SomeD: "all_some xs = Some ys \<Longrightarrow> x \<in> set xs \<Longrightarrow> x \<noteq> None"
  by (induction xs arbitrary: ys rule: all_some.induct) auto

lemma split_on_chars: "c \<in> set s \<Longrightarrow> c = d \<or> (\<exists>w \<in> set (split_on d s). c \<in> set w)"
  using subsetD [OF set_join_with, of c "[d]" "split_on d s"] by auto

lemma parse_ipv4_chars: "parse_ipv4 s = Some n \<Longrightarrow> c \<in> set s \<Longrightarrow> c = CHR ''.'' \<or> js_digit c"
proof -
  assume "parse_ipv4 s = Some n" and c: "c \<in> set s"
  then obtain xs where "all_some (map parse_octet (split_on (CHR ''.'') s)) = Some xs"
    by (auto simp: parse_ipv4_def split: option.splits)
  then have "parse_octet w \<noteq> None" if "w \<in> set (split_on (CHR ''.'') s)" for w
    using all_some_SomeD [of _ xs "parse_octet w"] that by force
  then have "all_digits w" if "w \<in> set (split_on (CHR ''.'') s)" for w
    using that by (fastforce simp: parse_octet_def split: if_splits)
  then show ?thesis
    using split_on_chars [OF c, of "CHR ''.''"] by (auto simp: all_digits_def list_all_iff)
qed

lemma parse_hextet_chars: "parse_hextet w = Some g \<Longrightarrow> c \<in> set w \<Longrightarrow> hex_val c \<noteq> None"
  by (auto simp: parse_hextet_def split: if_splits dest!: all_some_SomeD)

lemma hex_val_slash: "hex_val (CHR ''/'') = None"
  by code_simp

lemma parse_groups_no_slash: "parse_groups v ws = Some gs \<Longrightarrow> w \<in> set ws \<Longrightarrow> CHR ''/'' \<notin> set w"
proof (induction v ws arbitrary: gs rule: parse_groups.induct)
  case (2 v w')
  then show ?case
    using parse_hextet_chars [of w' _ "CHR ''/''"] parse_ipv4_chars [of w' _ "CHR ''/''"] hex_val_slash
    by (auto simp: js_digit_def split: option.splits if_splits)
next
  case (3 v w' u ws)
  then show ?case
    using parse_hextet_chars [of w' _ "CHR ''/''"] hex_val_slash by (auto split: option.splits)
qed simp

lemma groups_of_no_slash: "groups_of v s = Some gs \<Longrightarrow> CHR ''/'' \<notin> set s"
  using split_on_chars [of "CHR ''/''" s "CHR '':''"] parse_groups_no_slash
  by (fastforce simp: groups_of_def split: if_splits)

lemma split_double_colon_chars:
  "c \<in> set s \<Longrightarrow> c = CHR '':'' \<or> c \<in> set (fst (split_double_colon s)) \<or>
    (\<exists>t. snd (split_double_colon s) = Some t \<and> c \<in> set t)"
proof (induction s rule: split_double_colon.induct)
  case (1 x y s)
  show ?case
  proof (cases "x = CHR '':'' \<and> y = CHR '':''")
    case False
    with 1 have "c = x \<or> c = CHR '':'' \<or> c \<in> set (fst (split_double_colon (y # s))) \<or>
        (\<exists>t. snd (split_double_colon (y # s)) = Some t \<and> c \<in> set t)" by auto
    with False show ?thesis
      by (cases "split_double_colon (y # s)") (auto simp: Let_def simp del: split_double_colon.simps(2,3))
  qed (use 1 in auto)
qed auto

lemma parse_ipv6_no_slash: "parse_ipv6 s = Some gs \<Longrightarrow> CHR ''/'' \<notin> set s"
proof
  assume p: "parse_ipv6 s = Some gs" and c: "CHR ''/'' \<in> set s"
  obtain l r where lr: "split_double_colon s = (l, r)" by fastforce
  from split_double_colon_chars [OF c] p show False
    by (auto simp: parse_ipv6_def lr split: option.splits if_splits dest: groups_of_no_slash)
qed

lemma parse_ip_no_slash: "parse_ip s = Some a \<Longrightarrow> CHR ''%'' \<notin> set s \<Longrightarrow> CHR ''/'' \<notin> set s"
  using parse_ipv4_chars [of s _ "CHR ''/''"] parse_ipv6_no_slash [of s] strip_zone_plain [of s]
  by (auto simp: parse_ip_def js_digit_def split: option.splits)

subsection \<open>An instance\<close>

definition mem_pg :: pg_inet_ops where
  "mem_pg = \<lparr>
     pg_cidr_text = \<lambda>r. show_ip (fst r) @ ''/'' @ show_nat (snd r),
     pg_inet = \<lambda>s. (case split_on (CHR ''/'') s of
         [a] \<Rightarrow> if CHR ''%'' \<in> set a then None else map_option single (parse_ip a)
       | [a, p] \<Rightarrow> (case parse_ip a of
             None \<Rightarrow> None
           | Some x \<Rightarrow> if CHR ''%'' \<notin> set a \<and> all_digits p \<and> nat_of_digits p \<le> max_prefix x
                      then Some (x, nat_of_digits p) else None)
       | _ \<Rightarrow> None)\<rparr>"

lemma show_ip_start: "\<not> prefix ''::'' (show_ip a)"
proof (cases a)
  case (V4 w)
  have "CHR '':'' \<notin> set (show_ip a)"
    using subsetD [OF set_join_with, of "CHR '':''" "''.''" "map show_nat (digits_base 256 4 (unat w))"]
      show_nat_no_sep by (auto simp: V4)
  then show ?thesis by (auto simp: prefix_def)
next
  case (V6 w)
  obtain g gs where "hextets w = g # gs" by (cases "hextets w") auto
  then have "prefix (show_hextet g) (show_ip a)"
    by (cases gs) (simp_all add: V6)
  moreover have "hd (show_hextet g) \<noteq> CHR '':''"
    using show_hextet_chars [OF hd_in_set, of g] by simp
  ultimately show ?thesis
    by (cases "show_hextet g") (auto simp: prefix_def simp del: show_ip.simps)
qed

lemma plainIp_show: "plainIp (show_ip a) = show_ip a"
proof -
  have "js_trim (show_ip a) = show_ip a"
    using show_ip_chars [OF hd_in_set, of a] show_ip_chars [OF last_in_set, of a]
    by (intro js_trim_id) (auto simp del: show_ip.simps)
  then show ?thesis
    using mapped_re_start [OF show_ip_start [of a]] by (simp add: plainIp_def del: show_ip.simps)
qed

lemma show_ip_Nil: "show_ip a \<noteq> []"
proof -
  have "parse_ip [] = None" by code_simp
  then show ?thesis using parse_ip_show [of a] by (metis option.discI)
qed

lemma split_cidr_text:
  "split_on (CHR ''/'') (show_ip a @ CHR ''/'' # show_nat p) = [show_ip a, show_nat p]"
proof -
  have "CHR ''/'' \<notin> set (show_ip a)" "CHR ''/'' \<notin> set (show_nat p)"
    using show_ip_chars [of "CHR ''/''" a] show_nat_no_sep [of "CHR ''/''" p] by auto
  then show ?thesis using split_on_append_sep [of "CHR ''/''" "show_ip a" "show_nat p"] split_on_no_sep
    by metis
qed

lemma parseNetwork_show:
  assumes "rule_ok r"
  shows "parseNetwork (pg_cidr_text mem_pg r) =
    Some \<lparr>net_address = show_ip (fst r), net_prefix = snd r, net_ip = fst r\<rparr>"
proof -
  let ?a = "show_ip (fst r)" and ?p = "show_nat (snd r)"
  have ne: "?a \<noteq> []" by (rule show_ip_Nil)
  have "js_trim (?a @ ''/'' @ ?p) = ?a @ ''/'' @ ?p"
    using ne show_ip_chars [OF hd_in_set [OF ne]] show_nat_no_sep [OF last_in_set [OF show_nat_not_Nil]]
    by (intro js_trim_id) (simp add: js_space_def del: show_ip.simps)
  then show ?thesis
    using assms ne
    by (simp add: parseNetwork_def mem_pg_def split_cidr_text plainIp_show parse_ip_show rule_ok_def del: show_ip.simps)
qed

interpretation mem_pg: pg_inet_type mem_pg
proof
  fix r assume "rule_ok r"
  then show "\<exists>n. parseNetwork (pg_cidr_text mem_pg r) = Some n \<and> (net_ip n, net_prefix n) = r"
    by (simp add: parseNetwork_show)
  show "pg_inet mem_pg (pg_cidr_text mem_pg r) = Some r"
    using \<open>rule_ok r\<close> show_ip_chars [of "CHR ''%''" "fst r"]
    by (cases r) (auto simp: mem_pg_def split_cidr_text parse_ip_show rule_ok_def simp del: show_ip.simps)
next
  fix s r assume "pg_inet mem_pg s = Some r"
  then show "rule_ok r"
    by (auto simp: mem_pg_def rule_ok_def single_def split: list.splits option.splits if_splits)
next
  fix s a assume "parse_ip s = Some a" "CHR ''%'' \<notin> set s"
  with parse_ip_no_slash [OF this] show "pg_inet mem_pg s = Some (single a)"
    by (simp add: mem_pg_def split_on_no_sep)
next
  fix s a p assume "parse_ip s = Some a" "CHR ''%'' \<notin> set s" "p \<le> max_prefix a"
  moreover have "CHR ''/'' \<notin> set (show_nat p)" using show_nat_no_sep [of "CHR ''/''" p] by auto
  ultimately show "pg_inet mem_pg (s @ ''/'' @ show_nat p) = Some (a, p)"
    using parse_ip_no_slash [of s a] split_on_append_sep [of "CHR ''/''" s "show_nat p"]
      split_on_no_sep [of "CHR ''/''" "show_nat p"] by (simp add: mem_pg_def)
qed

end
