(* ===== verification/TtlCache.thy ===== *)
theory TtlCache
  imports Prelude
begin

text \<open>
  A value read from the database and kept for a while: \<open>auth/bans.ts\<close> keeps its allowlist
  and the active bans this way, \<open>auth/session.ts\<close> the disabled domains. Each of them tests
  \<open>cache && Date.now() - cache.at < ttl\<close>, and stores what it loaded with the time of the load;
  \<open>cached\<close> is that pattern. The locale \<open>ttl_cache\<close> is the contract of such a cache: every
  operation either drops the cache or leaves what the cache would load unchanged. Under it, a read
  never returns anything but what a load at some moment of the last \<open>ttl\<close> milliseconds would
  have returned.
\<close>

definition cached ::
    "int \<Rightarrow> (time \<Rightarrow> 'v) \<Rightarrow> time \<Rightarrow> (time \<times> 'v) option \<Rightarrow> 'v \<times> (time \<times> 'v) option" where
  "cached ttl load now c = (case c of
     Some (at, v) \<Rightarrow> if now - at < ttl then (v, c) else (load now, Some (now, load now))
   | None \<Rightarrow> (load now, Some (now, load now)))"

definition cache_valid :: "int \<Rightarrow> time \<Rightarrow> (time \<times> 'v) option \<Rightarrow> bool" where
  "cache_valid ttl now c = (case c of None \<Rightarrow> False | Some (at, _) \<Rightarrow> now - at < ttl)"

lemma cached_valid: "cache_valid ttl now c \<Longrightarrow> snd (cached ttl load now c) = c"
  by (auto simp: cache_valid_def cached_def split: option.splits)

lemma cached_snd: "snd (cached ttl load now c) = c \<or> snd (cached ttl load now c) = Some (now, load now)"
  by (auto simp: cached_def split: option.splits)

text \<open>
  What an operation at time \<open>now\<close> may do to a cache: drop it, fill it with what it would load
  now, or leave it and what it loads alone. Such operations compose.
\<close>

definition keeps_cache ::
    "('s \<Rightarrow> time \<Rightarrow> 'v) \<Rightarrow> ('s \<Rightarrow> (time \<times> 'v) option) \<Rightarrow> time \<Rightarrow> 's \<Rightarrow> 's \<Rightarrow> bool" where
  "keeps_cache load cache now s s' \<longleftrightarrow>
     cache s' = None \<or> cache s' = Some (now, load s' now) \<or> (load s' = load s \<and> cache s' = cache s)"

lemma keeps_cache_same: "load s' = load s \<Longrightarrow> cache s' = cache s \<Longrightarrow> keeps_cache load cache now s s'"
  by (simp add: keeps_cache_def)

lemma keeps_cache_refl: "keeps_cache load cache now s s"
  by (simp add: keeps_cache_def)

lemma keeps_cache_drop: "cache s' = None \<Longrightarrow> keeps_cache load cache now s s'"
  by (simp add: keeps_cache_def)

lemma keeps_cache_read:
  "load s' = load s \<Longrightarrow> cache s' = snd (cached ttl (load s) now (cache s)) \<Longrightarrow> keeps_cache load cache now s s'"
  using cached_snd [of ttl "load s" now "cache s"] by (auto simp: keeps_cache_def)

lemma keeps_cache_trans:
  "keeps_cache load cache now s s' \<Longrightarrow> keeps_cache load cache now s' s'' \<Longrightarrow> keeps_cache load cache now s s''"
  by (auto simp: keeps_cache_def)

text \<open>A run of the operations, at increasing times.\<close>

inductive run :: "(time \<Rightarrow> 's \<Rightarrow> 's \<Rightarrow> bool) \<Rightarrow> time \<Rightarrow> 's \<Rightarrow> time \<Rightarrow> 's \<Rightarrow> bool"
  for step :: "time \<Rightarrow> 's \<Rightarrow> 's \<Rightarrow> bool" where
  run_refl: "t \<le> u \<Longrightarrow> run step t s u s"
| run_step: "run step t s u s' \<Longrightarrow> step u s' s'' \<Longrightarrow> u \<le> v \<Longrightarrow> run step t s v s''"

lemma run_one: "step u s s' \<Longrightarrow> t \<le> u \<Longrightarrow> u \<le> v \<Longrightarrow> run step t s v s'"
  using run_refl [of t u step s] by (rule run_step)

lemma run_time: "run step t s u s' \<Longrightarrow> t \<le> u"
  by (induction rule: run.induct) auto

locale ttl_cache =
  fixes ttl :: int
    and load :: "'s \<Rightarrow> time \<Rightarrow> 'v"
    and cache :: "'s \<Rightarrow> (time \<times> 'v) option"
    and step :: "time \<Rightarrow> 's \<Rightarrow> 's \<Rightarrow> bool"
  assumes ttl_pos: "0 < ttl"
    and step_keeps: "step now s s' \<Longrightarrow> keeps_cache load cache now s s'"
begin

definition fresh :: "time \<Rightarrow> 's \<Rightarrow> bool" where
  "fresh now s \<longleftrightarrow> (\<forall>at v. cache s = Some (at, v) \<longrightarrow> at \<le> now \<and> v = load s at)"

lemma fresh_empty: "cache s = None \<Longrightarrow> fresh now s"
  by (simp add: fresh_def)

lemma fresh_later: "fresh t s \<Longrightarrow> t \<le> u \<Longrightarrow> fresh u s"
  by (force simp: fresh_def)

lemma fresh_step: "fresh now s \<Longrightarrow> step now s s' \<Longrightarrow> fresh now s'"
  using step_keeps [of now s s'] by (auto simp: fresh_def keeps_cache_def)

lemma fresh_run: "run step t s u s' \<Longrightarrow> fresh t s \<Longrightarrow> fresh u s'"
  by (induction rule: run.induct) (auto intro: fresh_later fresh_step)

lemma cached_fresh:
  assumes "fresh now s"
  shows "\<exists>at. now - ttl < at \<and> at \<le> now \<and> fst (cached ttl (load s) now (cache s)) = load s at"
proof (cases "cache s")
  case None
  then show ?thesis using ttl_pos by (intro exI [of _ now]) (simp add: cached_def)
next
  case (Some e)
  then show ?thesis using assms ttl_pos by (cases e) (force simp: cached_def fresh_def)
qed

lemma cached_recent:
  assumes "run step t s u s'" and "cache s = None"
  shows "\<exists>at. u - ttl < at \<and> at \<le> u \<and> fst (cached ttl (load s') u (cache s')) = load s' at"
  using cached_fresh [OF fresh_run [OF assms(1) fresh_empty [OF assms(2)]]] .

lemma cached_stays_fresh:
  assumes "fresh now s" and "snd (cached ttl (load s) now (cache s)) = Some (at, v)"
  shows "at \<le> now \<and> v = load s at"
  using assms by (auto simp: cached_def fresh_def split: option.splits if_splits)

lemma cached_empty: "cache s = None \<Longrightarrow> fst (cached ttl (load s) now (cache s)) = load s now"
  by (simp add: cached_def)

end

end
