(* ===== verification/Bans.thy ===== *)
theory Bans
  imports PgInet TtlCache
begin

text \<open>
  IP bans, \<open>apps/server/src/auth/bans.ts\<close>: the allowlist, the cached list of active bans,
  automatic bans after failed sign-ins, and the bans an admin makes and lifts; and the SQL function
  \<open>ip_is_banned\<close> of migration 0006, through which Postfix and Dovecot ask.

  \<open>bans_state\<close> is the table \<open>ip_bans\<close>, the allowlist setting and the variables of the module.
  \<open>bs_online\<close> says whether the database answers. The sign-in events that the automatic bans look
  at are an argument, the table \<open>auth_events\<close>.
\<close>

subsection \<open>The table and the state of the module\<close>

record ban_row =
  ib_id :: nat
  ib_network :: rule
  ib_reason :: "string option"
  ib_source :: ban_source
  ib_createdBy :: "string option"
  ib_createdAt :: time
  ib_expiresAt :: "time option"
  ib_liftedAt :: "time option"
  ib_liftedBy :: "string option"
  ib_hits :: nat
  ib_lastHitAt :: "time option"

text \<open>
  The allowlist setting as \<open>JSON.parse\<close> sees it: missing, not JSON, or a JSON value, of which the
  code distinguishes arrays and, in an array, strings.
\<close>

datatype allow_setting = Missing | Unparsable | NotArray | Array "string option list"

record bans_state =
  bs_rows :: "ban_row list"
  bs_nextId :: nat
  bs_allowSetting :: allow_setting
  bs_allowCache :: "(time \<times> (rule list \<times> string list)) option"
  bs_banCache :: "(time \<times> rule list) option"
  bs_evaluating :: "string list"
  bs_online :: bool

definition CACHE_MS :: int where "CACHE_MS = 15000"

definition ESCALATION :: "rat list" where "ESCALATION = [1, 7, 30]"

definition REPEAT_LOOKBACK_DAYS :: int where "REPEAT_LOOKBACK_DAYS = 90"

definition SUCCESS_GRACE_HOURS :: int where "SUCCESS_GRACE_HOURS = 24"

definition TRUSTED_SUCCESS_DAYS :: int where "TRUSTED_SUCCESS_DAYS = 7"

definition HOUR_MS :: int where "HOUR_MS = 3600000"

definition DAY_MS :: int where "DAY_MS = 86400000"

definition active :: "time \<Rightarrow> ban_row \<Rightarrow> bool" where
  \<comment> \<open>the SQL condition \<open>ACTIVE\<close>\<close>
  "active now r \<longleftrightarrow> ib_liftedAt r = None \<and> (case ib_expiresAt r of None \<Rightarrow> True | Some e \<Rightarrow> now < e)"

record policy =
  pol_enabled :: bool
  pol_windowMinutes :: nat
  pol_distinctAccounts :: nat
  pol_failures :: nat
  pol_durationHours :: rat
  pol_slowWindowHours :: nat
  pol_unknownFailures :: nat
  pol_networkAddresses :: nat

definition autoBanPolicy :: "config \<Rightarrow> policy" where
  "autoBanPolicy C = \<lparr>
     pol_enabled = cfg_AUTOBAN_ENABLED C,
     pol_windowMinutes = cfg_AUTOBAN_WINDOW_MINUTES C,
     pol_distinctAccounts = cfg_AUTOBAN_DISTINCT_ACCOUNTS C,
     pol_failures = cfg_AUTOBAN_FAILURES C,
     pol_durationHours = cfg_AUTOBAN_DURATION_HOURS C,
     pol_slowWindowHours = cfg_AUTOBAN_SLOW_WINDOW_HOURS C,
     pol_unknownFailures = cfg_AUTOBAN_UNKNOWN_FAILURES C,
     pol_networkAddresses = cfg_AUTOBAN_NETWORK_ADDRESSES C\<rparr>"

subsection \<open>The allowlist\<close>

definition build_list :: "string list \<Rightarrow> rule list" where
  \<comment> \<open>the loop that fills a BlockList, leaving out what is no network\<close>
  "build_list entries =
     foldl (\<lambda>l e. case parseNetwork e of None \<Rightarrow> l | Some n \<Rightarrow> addTo l n) [] entries"

definition BUILTIN_ALLOW :: "config \<Rightarrow> string list" where
  "BUILTIN_ALLOW C = [''127.0.0.0/8'', ''::1/128'', cfg_MAIL_NETWORK_SUBNET C]"

definition getAllowlist :: "bans_state \<Rightarrow> string list" where
  "getAllowlist s =
     (if bs_online s
      then (case bs_allowSetting s of Array xs \<Rightarrow> List.map_filter id xs | _ \<Rightarrow> [])
      else [])"

definition network_text :: "network \<Rightarrow> string" where
  "network_text n =
     (if net_prefix n = max_prefix (net_ip n) then net_address n
      else net_address n @ ''/'' @ show_nat (net_prefix n))"

definition not_a_network :: "string \<Rightarrow> http_error" where
  "not_a_network e = badRequest (CHR 0x22 # e @ CHR 0x22 # '' is not an IP address or network'')"

fun clean_entries :: "string list \<Rightarrow> string list \<Rightarrow> http_error + string list" where
  "clean_entries clean [] = Inr clean"
| "clean_entries clean (e # es) = (case parseNetwork e of
     None \<Rightarrow> Inl (not_a_network e)
   | Some n \<Rightarrow> clean_entries (if network_text n \<in> set clean then clean else clean @ [network_text n]) es)"

definition setAllowlist :: "string list \<Rightarrow> bans_state \<Rightarrow> (http_error + string list) \<times> bans_state" where
  "setAllowlist entries s = (case clean_entries [] entries of
     Inl err \<Rightarrow> (Inl err, s)
   | Inr clean \<Rightarrow> (Inr clean, s\<lparr>bs_allowSetting := Array (map Some clean), bs_allowCache := None\<rparr>))"

definition allow_entries :: "config \<Rightarrow> bans_state \<Rightarrow> string list" where
  "allow_entries C s =
     BUILTIN_ALLOW C @ filter (\<lambda>e. e \<noteq> []) (map js_trim (split_on (CHR '','') (cfg_AUTOBAN_ALLOWLIST C)))
     @ getAllowlist s"

definition load_allow :: "config \<Rightarrow> bans_state \<Rightarrow> time \<Rightarrow> rule list \<times> string list" where
  "load_allow C s now = (build_list (allow_entries C s), allow_entries C s)"

definition allowList :: "config \<Rightarrow> time \<Rightarrow> bans_state \<Rightarrow> (rule list \<times> string list) \<times> bans_state" where
  "allowList C now s =
     (let (v, c) = cached CACHE_MS (load_allow C s) now (bs_allowCache s) in (v, s\<lparr>bs_allowCache := c\<rparr>))"

definition isAllowlisted :: "config \<Rightarrow> string \<Rightarrow> time \<Rightarrow> bans_state \<Rightarrow> bool \<times> bans_state" where
  "isAllowlisted C a now s = (let (v, s') = allowList C now s in (list_contains (fst v) a, s'))"

definition touches_entry :: "rule list \<Rightarrow> network \<Rightarrow> string \<Rightarrow> bool" where
  "touches_entry allowed n e = (case parseNetwork e of
     None \<Rightarrow> False
   | Some a \<Rightarrow> is_v4 (net_ip a) = is_v4 (net_ip n) \<and>
       (list_check (addTo [] n) (net_ip a) \<or> list_contains allowed (net_address n)))"

definition networkTouchesAllowlist :: "config \<Rightarrow> string \<Rightarrow> time \<Rightarrow> bans_state \<Rightarrow> bool \<times> bans_state" where
  "networkTouchesAllowlist C nw now s =
     (let (v, s') = allowList C now s
      in (case parseNetwork nw of
            None \<Rightarrow> True
          | Some n \<Rightarrow> list_ex (touches_entry (fst v) n) (snd v), s'))"

subsection \<open>Active bans\<close>

definition load_bans :: "pg_inet_ops \<Rightarrow> bans_state \<Rightarrow> time \<Rightarrow> rule list" where
  "load_bans PG s now = build_list (map (\<lambda>r. pg_cidr_text PG (ib_network r)) (filter (active now) (bs_rows s)))"

text \<open>None: the database could not be reached.\<close>

definition activeBanList :: "pg_inet_ops \<Rightarrow> time \<Rightarrow> bans_state \<Rightarrow> rule list option \<times> bans_state" where
  "activeBanList PG now s =
     (if cache_valid CACHE_MS now (bs_banCache s) \<or> bs_online s
      then (let (v, c) = cached CACHE_MS (load_bans PG s) now (bs_banCache s)
            in (Some v, s\<lparr>bs_banCache := c\<rparr>))
      else (None, s))"

definition invalidateBans :: "bans_state \<Rightarrow> bans_state" where
  "invalidateBans s = s\<lparr>bs_banCache := None\<rparr>"

definition isBanned :: "pg_inet_ops \<Rightarrow> string option \<Rightarrow> time \<Rightarrow> bans_state \<Rightarrow> bool \<times> bans_state" where
  "isBanned PG ip now s = (case ip of
     None \<Rightarrow> (False, s)
   | Some a \<Rightarrow>
       if a = [] \<or> a = ''unknown'' then (False, s)
       else (case activeBanList PG now s of
               (None, s') \<Rightarrow> (False, s')
             | (Some l, s') \<Rightarrow> (list_contains l a, s')))"

definition row_contains :: "rule \<Rightarrow> ban_row \<Rightarrow> bool" where
  \<comment> \<open>\<open>network >>= x\<close>\<close>
  "row_contains x r \<longleftrightarrow> inet_contains_eq (ib_network r) x"

definition recordBanHit :: "pg_inet_ops \<Rightarrow> string \<Rightarrow> time \<Rightarrow> bans_state \<Rightarrow> bans_state" where
  "recordBanHit PG ip now s =
     (let addr = plainIp ip
      in if parse_ip addr = None \<or> \<not> bs_online s then s
         else (case pg_inet PG addr of
                 None \<Rightarrow> s
               | Some x \<Rightarrow> s\<lparr>bs_rows := update_where (\<lambda>r. row_contains x r \<and> active now r)
                   (\<lambda>r. r\<lparr>ib_hits := ib_hits r + 1, ib_lastHitAt := Some now\<rparr>) (bs_rows s)\<rparr>))"

subsection \<open>Automatic bans\<close>

definition failed :: "auth_event_row \<Rightarrow> bool" where
  \<comment> \<open>the SQL condition \<open>FAILED\<close>\<close>
  "failed e \<longleftrightarrow> \<not> ae_success e \<and> ae_reason e \<noteq> Some Banned"

definition in_net :: "pg_inet_ops \<Rightarrow> rule \<Rightarrow> auth_event_row \<Rightarrow> bool" where
  \<comment> \<open>the SQL condition \<open>IN_NET\<close>\<close>
  "in_net PG net e = (case ae_ip e of
     None \<Rightarrow> False
   | Some a \<Rightarrow> (case pg_inet PG a of None \<Rightarrow> False | Some x \<Rightarrow> inet_contains_eq net x))"

definition surrounding :: "rule \<Rightarrow> rule" where
  \<comment> \<open>\<open>network(set_masklen(ip, bits))\<close>\<close>
  "surrounding x = inet_network (fst x, if is_v4 (fst x) then 24 else 64)"

definition surroundingNetwork :: "pg_inet_ops \<Rightarrow> string \<Rightarrow> string option" where
  "surroundingNetwork PG addr = map_option (\<lambda>x. pg_cidr_text PG (surrounding x)) (pg_inet PG addr)"

definition ban_hours :: "config \<Rightarrow> nat \<Rightarrow> rat" where
  "ban_hours C previous = cfg_AUTOBAN_DURATION_HOURS C * ESCALATION ! min previous (length ESCALATION - 1)"

definition expiry :: "time \<Rightarrow> rat \<Rightarrow> time" where
  \<comment> \<open>\<open>new Date(Date.now() + hours * 3600_000)\<close>, which drops the fraction of a millisecond\<close>
  "expiry now hours = \<lfloor>of_int now + hours * 3600000\<rfloor>"

definition previous_bans :: "time \<Rightarrow> rule \<Rightarrow> ban_row list \<Rightarrow> nat" where
  "previous_bans now net rows = count_where (\<lambda>r. ib_network r = net \<and> ib_source r = AutoBan \<and>
     now - REPEAT_LOOKBACK_DAYS * DAY_MS < ib_createdAt r) rows"

definition create_row :: "ban_row \<Rightarrow> bans_state \<Rightarrow> bans_state" where
  "create_row r s = s\<lparr>bs_rows := bs_rows s @ [r], bs_nextId := Suc (bs_nextId s)\<rparr>"

definition new_ban ::
    "bans_state \<Rightarrow> rule \<Rightarrow> string option \<Rightarrow> ban_source \<Rightarrow> string option \<Rightarrow> time \<Rightarrow> time option \<Rightarrow> ban_row" where
  "new_ban s net reason src by now expires = \<lparr>
     ib_id = bs_nextId s, ib_network = net, ib_reason = reason, ib_source = src, ib_createdBy = by,
     ib_createdAt = now, ib_expiresAt = expires, ib_liftedAt = None, ib_liftedBy = None,
     ib_hits = 0, ib_lastHitAt = None\<rparr>"

definition autoBan ::
    "pg_inet_ops \<Rightarrow> config \<Rightarrow> string \<Rightarrow> string \<Rightarrow> time \<Rightarrow> bans_state \<Rightarrow> ban_row option \<times> bans_state" where
  "autoBan PG C nw reason now s = (case pg_inet PG nw of
     None \<Rightarrow> (None, s)
   | Some net \<Rightarrow>
       if count_where (\<lambda>r. row_contains net r \<and> active now r) (bs_rows s) > 0 then (None, s)
       else (let previous = previous_bans now net (bs_rows s);
                 reason' = (if previous > 0
                   then reason @ ''; banned '' @ show_nat previous @ '' time(s) before'' else reason);
                 ban = new_ban s net (Some reason') AutoBan None now (Some (expiry now (ban_hours C previous)))
             in (Some ban, invalidateBans (create_row ban s))))"

record fail_stats =
  fs_accounts :: nat
  fs_failures :: nat
  fs_unknown :: nat
  fs_trusted :: bool
  fs_sources :: "auth_source list"

fun source_name :: "auth_source \<Rightarrow> string" where
  "source_name SrcWeb = ''web''"
| "source_name SrcImap = ''imap''"
| "source_name SrcPop3 = ''pop3''"
| "source_name SrcSmtp = ''smtp''"
| "source_name SrcSieve = ''sieve''"
| "source_name SrcOther = ''other''"

definition sources_sorted :: "auth_source list" where
  "sources_sorted = [SrcImap, SrcOther, SrcPop3, SrcSieve, SrcSmtp, SrcWeb]"

definition good_usernames :: "string \<Rightarrow> time \<Rightarrow> auth_event_row list \<Rightarrow> string list" where
  "good_usernames addr now events =
     List.map_filter ae_username
       (filter (\<lambda>e. ae_ip e = Some addr \<and> ae_success e \<and> now - SUCCESS_GRACE_HOURS * HOUR_MS < ae_lastAt e) events)"

definition trusted_address :: "string \<Rightarrow> time \<Rightarrow> auth_event_row list \<Rightarrow> bool" where
  "trusted_address addr now events =
     list_ex (\<lambda>e. ae_ip e = Some addr \<and> ae_success e \<and> now - TRUSTED_SUCCESS_DAYS * DAY_MS < ae_lastAt e) events"

definition slow_since :: "config \<Rightarrow> time \<Rightarrow> time" where
  "slow_since C now = now - int (cfg_AUTOBAN_SLOW_WINDOW_HOURS C) * HOUR_MS"

definition window_since :: "config \<Rightarrow> time \<Rightarrow> time" where
  "window_since C now = now - int (cfg_AUTOBAN_WINDOW_MINUTES C) * 60000"

definition fail_rows :: "config \<Rightarrow> string \<Rightarrow> time \<Rightarrow> auth_event_row list \<Rightarrow> auth_event_row list" where
  "fail_rows C addr now events =
     filter (\<lambda>e. ae_ip e = Some addr \<and> failed e \<and> slow_since C now < ae_lastAt e) events"

definition stats_of :: "config \<Rightarrow> string \<Rightarrow> time \<Rightarrow> auth_event_row list \<Rightarrow> fail_stats" where
  "stats_of C addr now events =
     (let rows = fail_rows C addr now events;
          recent = filter (\<lambda>e. window_since C now < ae_lastAt e) rows
      in \<lparr>fs_accounts = length (remdups (filter (\<lambda>u. u \<notin> set (good_usernames addr now events))
              (List.map_filter ae_username recent))),
          fs_failures = sum_list (map ae_count recent),
          fs_unknown = sum_list (map ae_count (filter (\<lambda>e. ae_reason e = Some UnknownUser) rows)),
          fs_trusted = trusted_address addr now events,
          fs_sources = filter (\<lambda>x. x \<in> set (map ae_source rows)) sources_sorted\<rparr>)"

definition net_rows :: "pg_inet_ops \<Rightarrow> config \<Rightarrow> rule \<Rightarrow> time \<Rightarrow> auth_event_row list \<Rightarrow> auth_event_row list" where
  "net_rows PG C net now events =
     filter (\<lambda>e. in_net PG net e \<and> (ae_success e \<or> slow_since C now < ae_lastAt e)) events"

definition net_ips :: "auth_event_row list \<Rightarrow> nat" where
  "net_ips rows = length (remdups (List.map_filter ae_ip
     (filter (\<lambda>e. failed e \<and> ae_reason e = Some UnknownUser) rows)))"

definition net_trusted :: "time \<Rightarrow> auth_event_row list \<Rightarrow> bool" where
  "net_trusted now rows = list_ex (\<lambda>e. ae_success e \<and> now - TRUSTED_SUCCESS_DAYS * DAY_MS < ae_lastAt e) rows"

definition single_text :: "string \<Rightarrow> string" where
  "single_text addr = addr @ ''/'' @ (case parse_ip addr of Some (V4 _) \<Rightarrow> ''32'' | _ \<Rightarrow> ''128'')"

text \<open>The reasons the bans are recorded with.\<close>

definition via_text :: "fail_stats \<Rightarrow> string" where
  "via_text st = '' ('' @ join_with '', '' (map source_name (fs_sources st)) @ '')''"

definition accounts_reason :: "config \<Rightarrow> fail_stats \<Rightarrow> string" where
  "accounts_reason C st = ''Failed sign-ins for '' @ show_nat (fs_accounts st) @ '' different accounts within ''
     @ show_nat (cfg_AUTOBAN_WINDOW_MINUTES C) @ '' minutes'' @ via_text st"

definition failures_reason :: "config \<Rightarrow> fail_stats \<Rightarrow> string" where
  "failures_reason C st = show_nat (fs_failures st) @ '' failed sign-ins within ''
     @ show_nat (cfg_AUTOBAN_WINDOW_MINUTES C) @ '' minutes'' @ via_text st"

definition network_reason :: "config \<Rightarrow> nat \<Rightarrow> fail_stats \<Rightarrow> string" where
  "network_reason C ips st = show_nat ips @ '' addresses in this network tried accounts that don't exist within ''
     @ show_nat (cfg_AUTOBAN_SLOW_WINDOW_HOURS C) @ '' hours'' @ via_text st"

definition unknown_reason :: "config \<Rightarrow> fail_stats \<Rightarrow> string" where
  "unknown_reason C st = show_nat (fs_unknown st) @ '' sign-ins to accounts that don't exist within ''
     @ show_nat (cfg_AUTOBAN_SLOW_WINDOW_HOURS C) @ '' hours'' @ via_text st"

definition evaluate_body ::
    "pg_inet_ops \<Rightarrow> config \<Rightarrow> auth_event_row list \<Rightarrow> string \<Rightarrow> time \<Rightarrow> bans_state \<Rightarrow> ban_row option \<times> bans_state" where
  "evaluate_body PG C events addr now s0 =
     (let (allowed, s1) = isAllowlisted C addr now s0 in
      if allowed then (None, s1)
      else (let (banned, s2) = isBanned PG (Some addr) now s1 in
      if banned \<or> \<not> bs_online s2 then (None, s2)
      else (let st = stats_of C addr now events; single = single_text addr in
      if fs_accounts st \<ge> cfg_AUTOBAN_DISTINCT_ACCOUNTS C
      then autoBan PG C single (accounts_reason C st) now s2
      else if fs_failures st \<ge> cfg_AUTOBAN_FAILURES C
      then autoBan PG C single (failures_reason C st) now s2
      else if fs_trusted st then (None, s2)
      else (case surroundingNetwork PG addr of
        None \<Rightarrow> (None, s2)
      | Some nw \<Rightarrow>
          (let (touches, s3) = (if cfg_AUTOBAN_NETWORK_ADDRESSES C > 0
                 then networkTouchesAllowlist C nw now s2 else (True, s2));
               rows = (case pg_inet PG nw of None \<Rightarrow> [] | Some net \<Rightarrow> net_rows PG C net now events)
           in
      if \<not> touches \<and> \<not> net_trusted now rows \<and> net_ips rows \<ge> cfg_AUTOBAN_NETWORK_ADDRESSES C
      then autoBan PG C nw (network_reason C (net_ips rows) st) now s3
      else if cfg_AUTOBAN_UNKNOWN_FAILURES C > 0 \<and> fs_unknown st \<ge> cfg_AUTOBAN_UNKNOWN_FAILURES C
      then autoBan PG C single (unknown_reason C st) now s3
      else (None, s3))))))"

definition evaluateAutoBan ::
    "pg_inet_ops \<Rightarrow> config \<Rightarrow> auth_event_row list \<Rightarrow> string option \<Rightarrow> time \<Rightarrow> bans_state \<Rightarrow> ban_row option \<times> bans_state" where
  "evaluateAutoBan PG C events ip now s = (case ip of
     None \<Rightarrow> (None, s)
   | Some a \<Rightarrow>
       if \<not> cfg_AUTOBAN_ENABLED C \<or> a = [] \<or> a = ''unknown'' then (None, s)
       else (let addr = plainIp a in
         if parse_ip addr = None \<or> addr \<in> set (bs_evaluating s) then (None, s)
         else (let (r, s') = evaluate_body PG C events addr now (s\<lparr>bs_evaluating := addr # bs_evaluating s\<rparr>)
               in (r, s'\<lparr>bs_evaluating := filter (\<lambda>x. x \<noteq> addr) (bs_evaluating s')\<rparr>))))"

subsection \<open>The admin's operations\<close>

record ip_ban =
  ipb_id :: string
  ipb_network :: string
  ipb_reason :: "string option"
  ipb_source :: ban_source
  ipb_createdBy :: "string option"
  ipb_createdAt :: time
  ipb_expiresAt :: "time option"
  ipb_liftedAt :: "time option"
  ipb_liftedBy :: "string option"
  ipb_hits :: nat
  ipb_lastHitAt :: "time option"
  ipb_active :: bool

definition toIpBanDto :: "pg_inet_ops \<Rightarrow> time \<Rightarrow> ban_row \<Rightarrow> ip_ban" where
  "toIpBanDto PG now r = \<lparr>
     ipb_id = show_nat (ib_id r), ipb_network = displayNetwork (pg_cidr_text PG (ib_network r)),
     ipb_reason = ib_reason r, ipb_source = ib_source r, ipb_createdBy = ib_createdBy r,
     ipb_createdAt = ib_createdAt r, ipb_expiresAt = ib_expiresAt r, ipb_liftedAt = ib_liftedAt r,
     ipb_liftedBy = ib_liftedBy r, ipb_hits = ib_hits r, ipb_lastHitAt = ib_lastHitAt r,
     ipb_active = (ib_liftedAt r = None \<and> (case ib_expiresAt r of None \<Rightarrow> True | Some e \<Rightarrow> e > now))\<rparr>"

record ip_ban_list =
  ibl_bans :: "ip_ban list"
  ibl_allowlist :: "string list"
  ibl_policy :: policy

definition listBans :: "pg_inet_ops \<Rightarrow> config \<Rightarrow> bool \<Rightarrow> time \<Rightarrow> bans_state \<Rightarrow> ip_ban_list" where
  "listBans PG C includeInactive now s =
     (let rows = (if includeInactive then bs_rows s
           else filter (\<lambda>r. ib_liftedAt r = None \<and>
             (case ib_expiresAt r of None \<Rightarrow> True | Some e \<Rightarrow> e > now)) (bs_rows s));
          found = take (if includeInactive then 500 else 2000) (rev (sort_key ib_id rows))
      in \<lparr>ibl_bans = map (toIpBanDto PG now) found, ibl_allowlist = getAllowlist s,
          ibl_policy = autoBanPolicy C\<rparr>)"

definition lift_where :: "(ban_row \<Rightarrow> bool) \<Rightarrow> string option \<Rightarrow> time \<Rightarrow> ban_row list \<Rightarrow> ban_row list" where
  "lift_where p by now rows = update_where p
     (\<lambda>r. r\<lparr>ib_liftedAt := Some now, ib_liftedBy := Some (case by of None \<Rightarrow> ''system'' | Some b \<Rightarrow> b)\<rparr>) rows"

definition createBan ::
    "pg_inet_ops \<Rightarrow> string \<Rightarrow> rat option \<Rightarrow> string option \<Rightarrow> string option \<Rightarrow> time \<Rightarrow> bans_state
      \<Rightarrow> (http_error + ban_row) \<times> bans_state" where
  "createBan PG input hours reason by now s = (case parseNetwork input of
     None \<Rightarrow> (Inl (not_a_network input), s)
   | Some n \<Rightarrow> (case pg_inet PG (net_address n @ ''/'' @ show_nat (net_prefix n)) of
       None \<Rightarrow> (Inl internal_error, s)
     | Some x \<Rightarrow>
         (let net = inet_network x;
              s1 = s\<lparr>bs_rows := lift_where (\<lambda>r. ib_network r = net \<and> active now r) by now (bs_rows s)\<rparr>;
              ban = new_ban s1 net (if reason = Some [] then None else reason) ManualBan by now
                (map_option (expiry now) hours)
          in (Inr ban, invalidateBans (create_row ban s1)))))"

definition liftBan :: "string \<Rightarrow> string option \<Rightarrow> time \<Rightarrow> bans_state \<Rightarrow> ban_row option \<times> bans_state" where
  "liftBan i by now s =
     (if \<not> all_digits i then (None, s)
      else (let same = (\<lambda>r. ib_id r = nat_of_digits i) in
        (case find same (bs_rows s) of
           None \<Rightarrow> (None, s)
         | Some _ \<Rightarrow>
             (let rows = lift_where (\<lambda>r. same r \<and> ib_liftedAt r = None) by now (bs_rows s)
              in (find same rows, invalidateBans (s\<lparr>bs_rows := rows\<rparr>))))))"

definition liftBansFor ::
    "pg_inet_ops \<Rightarrow> string \<Rightarrow> string option \<Rightarrow> time \<Rightarrow> bans_state \<Rightarrow> (http_error + nat) \<times> bans_state" where
  "liftBansFor PG ip by now s = (case parseNetwork ip of
     None \<Rightarrow> (Inl (not_a_network ip), s)
   | Some n \<Rightarrow> (case pg_inet PG (net_address n @ ''/'' @ show_nat (net_prefix n)) of
       None \<Rightarrow> (Inl internal_error, s)
     | Some x \<Rightarrow>
         (let p = (\<lambda>r. (inet_contains_eq (ib_network r) x \<or> inet_contains_eq x (ib_network r)) \<and> active now r)
          in (Inr (count_where p (bs_rows s)), invalidateBans (s\<lparr>bs_rows := lift_where p by now (bs_rows s)\<rparr>)))))"

subsection \<open>The check of the mail servers\<close>

definition plainIp_sql :: "string \<Rightarrow> string" where
  \<comment> \<open>\<open>regexp_replace(addr, '^::ffff:(...)$', '\1', 'i')\<close>\<close>
  "plainIp_sql a = (case re_exec mapped_re a of Some m \<Rightarrow> group_str m 1 | None \<Rightarrow> a)"

definition ip_is_banned :: "pg_inet_ops \<Rightarrow> ban_row list \<Rightarrow> string option \<Rightarrow> time \<Rightarrow> bool" where
  "ip_is_banned PG rows addr now =
     (let a = plainIp_sql (case addr of None \<Rightarrow> [] | Some x \<Rightarrow> x)
      in if a = [] then False
         else (case pg_inet PG a of
                 None \<Rightarrow> False
               | Some x \<Rightarrow> list_ex (\<lambda>r. inet_contains_eq (ib_network r) x \<and> ib_liftedAt r = None \<and>
                   (case ib_expiresAt r of None \<Rightarrow> True | Some e \<Rightarrow> now < e)) rows))"

subsection \<open>The list of active bans\<close>

lemma build_list_check:
  "list_check (build_list es) x \<longleftrightarrow>
    (\<exists>e \<in> set es. \<exists>n. parseNetwork e = Some n \<and> rule_covers (net_ip n, net_prefix n) x)"
proof -
  have "list_check (foldl (\<lambda>l e. case parseNetwork e of None \<Rightarrow> l | Some n \<Rightarrow> addTo l n) l es) x \<longleftrightarrow>
      list_check l x \<or> (\<exists>e \<in> set es. \<exists>n. parseNetwork e = Some n \<and> rule_covers (net_ip n, net_prefix n) x)"
    for l
    by (induction es arbitrary: l) (auto split: option.splits)
  then show ?thesis by (simp add: build_list_def)
qed

definition rows_ok :: "ban_row list \<Rightarrow> bool" where
  \<comment> \<open>networks as the code stores them, none of them inside the IPv4-mapped range\<close>
  "rows_ok rows \<longleftrightarrow> (\<forall>r \<in> set rows. rule_ok (ib_network r) \<and> outside_mapped (ib_network r))"

definition covered :: "ban_row list \<Rightarrow> time \<Rightarrow> ip \<Rightarrow> bool" where
  \<comment> \<open>the specification of a ban: an active row whose network covers the address\<close>
  "covered rows now x \<longleftrightarrow> list_ex (\<lambda>r. active now r \<and> rule_covers (ib_network r) x) rows"

lemma covered_iff: "covered rows now x \<longleftrightarrow> (\<exists>r \<in> set rows. active now r \<and> rule_covers (ib_network r) x)"
  by (simp add: covered_def list_ex_iff)

lemma no_address: "parse_ip (plainIp []) = None" "parse_ip (plainIp ''unknown'') = None"
  by code_simp+

lemma address_not_special: "parse_ip (plainIp a) = Some x \<Longrightarrow> a \<noteq> [] \<and> a \<noteq> ''unknown''"
  using no_address by (metis option.discI)

lemma isBanned_list:
  assumes "parse_ip (plainIp a) = Some x"
  shows "fst (isBanned PG (Some a) now s) =
    (case fst (activeBanList PG now s) of None \<Rightarrow> False | Some l \<Rightarrow> list_check l x)"
  using assms address_not_special [OF assms]
  by (auto simp: isBanned_def list_contains_def split: option.splits prod.splits)

context pg_inet_type
begin

lemma load_bans_check:
  assumes "rows_ok (bs_rows s)"
  shows "list_check (load_bans PG s now) x = covered (bs_rows s) now x"
proof -
  have "(\<exists>n. parseNetwork (pg_cidr_text PG r) = Some n \<and> rule_covers (net_ip n, net_prefix n) x) =
      rule_covers r x" if "rule_ok r" "outside_mapped r" for r
    using text_network [OF that(1) outside_not_mapped [OF that]] by auto
  with assms show ?thesis
    by (auto simp: load_bans_def build_list_check covered_iff rows_ok_def)
qed

lemma isBanned_reload:
  assumes "parse_ip (plainIp a) = Some x" and "bs_banCache s = None" and "bs_online s"
    and "rows_ok (bs_rows s)"
  shows "fst (isBanned PG (Some a) now s) = covered (bs_rows s) now x"
  using assms by (simp add: isBanned_list activeBanList_def cached_def load_bans_check)

lemma ip_is_banned_covered:
  assumes "parse_ip (plainIp a) = Some x" and "js_trim a = a" and "CHR ''%'' \<notin> set (plainIp a)"
    and "rows_ok rows" and "\<not> is_mapped x"
  shows "ip_is_banned PG rows (Some a) now = covered rows now x"
proof -
  have a: "plainIp_sql a = plainIp a" by (simp only: plainIp_sql_def plainIp_def assms(2))
  have ne: "plainIp a \<noteq> []" using assms(1) no_address(1) by (metis plainIp_idem option.discI)
  have "inet_contains_eq r (single x) = rule_covers r x" if "rule_ok r" "outside_mapped r" for r
    using covers_iff_inet_all [OF that assms(5)] by simp
  then show ?thesis
    using assms(4) inet_ip [OF assms(1,3)] ne
    by (auto simp: ip_is_banned_def a covered_iff list_ex_iff active_def rows_ok_def)
qed

lemma network_inet:
  assumes "parseNetwork input = Some n" and "CHR ''%'' \<notin> set (net_address n)"
  shows "pg_inet PG (net_address n @ ''/'' @ show_nat (net_prefix n)) = Some (net_ip n, net_prefix n)"
  using inet_net [OF parseNetwork_parse [OF assms(1)] assms(2)] parseNetwork_ok [OF assms(1)]
  by (simp add: rule_ok_def)

end

lemma outside_mapped_network: "rule_ok r \<Longrightarrow> outside_mapped r \<Longrightarrow> outside_mapped (inet_network r)"
proof -
  assume "rule_ok r" "outside_mapped r"
  then obtain a p where r: "r = (a, p)" "p \<le> max_prefix a" by (cases r) (auto simp: rule_ok_def)
  show ?thesis
  proof (cases a)
    case (V6 w)
    have "drop_bit (max 32 (128 - p)) (push_bit (128 - p) (drop_bit (128 - p) w)) =
        drop_bit (max 32 (128 - p)) w"
      by (rule drop_bit_mono [of "128 - p"]) (simp_all add: drop_push_drop)
    with \<open>outside_mapped r\<close> r V6 show ?thesis by simp
  qed (use r in simp)
qed

lemma inet_network_covers_all:
  assumes "rule_ok r" and "outside_mapped r" and "\<not> is_mapped x"
  shows "rule_covers (inet_network r) x = rule_covers r x"
  using covers_iff_inet_all [OF assms] inet_network_contains [OF assms(1)]
    covers_iff_inet_all [OF inet_network_ok [OF assms(1)] outside_mapped_network [OF assms(1,2)] assms(3)]
  by simp



lemma lifted_inactive: "\<not> active t (r\<lparr>ib_liftedAt := Some now, ib_liftedBy := b\<rparr>)"
  by (simp add: active_def)


subsection \<open>The operations and the two caches\<close>

lemma load_bans_cong:
  assumes "map (\<lambda>r. (ib_network r, ib_liftedAt r, ib_expiresAt r)) (bs_rows s') =
    map (\<lambda>r. (ib_network r, ib_liftedAt r, ib_expiresAt r)) (bs_rows s)"
  shows "load_bans PG s' = load_bans PG s"
proof -
  let ?k = "\<lambda>r. (ib_network r, ib_liftedAt r, ib_expiresAt r)"
  let ?a = "\<lambda>now (n :: rule, l :: time option, e). l = None \<and> (case e of None \<Rightarrow> True | Some x \<Rightarrow> now < x)"
  have "map (\<lambda>r. pg_cidr_text PG (ib_network r)) (filter (active now) rows) =
      map (\<lambda>t. pg_cidr_text PG (fst t)) (filter (?a now) (map ?k rows))" for now rows
    by (induction rows) (auto simp: active_def)
  then show ?thesis using assms by (auto simp: load_bans_def)
qed

abbreviation keeps_bans :: "pg_inet_ops \<Rightarrow> time \<Rightarrow> bans_state \<Rightarrow> bans_state \<Rightarrow> bool" where
  "keeps_bans PG \<equiv> keeps_cache (load_bans PG) bs_banCache"

abbreviation keeps_allow :: "config \<Rightarrow> time \<Rightarrow> bans_state \<Rightarrow> bans_state \<Rightarrow> bool" where
  "keeps_allow C \<equiv> keeps_cache (load_allow C) bs_allowCache"

lemma load_allow_cong:
  "bs_allowSetting s' = bs_allowSetting s \<Longrightarrow> bs_online s' = bs_online s \<Longrightarrow> load_allow C s' = load_allow C s"
  by (simp add: load_allow_def allow_entries_def getAllowlist_def fun_eq_iff)

text \<open>What each operation leaves alone.\<close>

lemma allowList_state:
  "snd (allowList C now s) = s\<lparr>bs_allowCache := snd (cached CACHE_MS (load_allow C s) now (bs_allowCache s))\<rparr>"
  by (simp add: allowList_def Let_def case_prod_beta)

lemma activeBanList_state:
  "snd (activeBanList PG now s) = s \<or>
   snd (activeBanList PG now s) = s\<lparr>bs_banCache := snd (cached CACHE_MS (load_bans PG s) now (bs_banCache s))\<rparr>"
  by (simp add: activeBanList_def Let_def case_prod_beta)

lemma isBanned_state:
  "snd (isBanned PG ip now s) = s \<or>
   snd (isBanned PG ip now s) = s\<lparr>bs_banCache := snd (cached CACHE_MS (load_bans PG s) now (bs_banCache s))\<rparr>"
  using activeBanList_state [of PG now s] by (auto simp: isBanned_def split: option.splits prod.splits)

lemma networkTouchesAllowlist_state: "snd (networkTouchesAllowlist C nw now s) = snd (allowList C now s)"
  by (simp add: networkTouchesAllowlist_def Let_def case_prod_beta)

lemma isAllowlisted_state: "snd (isAllowlisted C a now s) = snd (allowList C now s)"
  by (simp add: isAllowlisted_def Let_def case_prod_beta)

lemma load_bans_update [simp]:
  "load_bans PG (s\<lparr>bs_allowCache := c\<rparr>) = load_bans PG s"
  "load_bans PG (s\<lparr>bs_banCache := d\<rparr>) = load_bans PG s"
  "load_bans PG (s\<lparr>bs_evaluating := xs\<rparr>) = load_bans PG s"
  by (rule load_bans_cong, simp)+

lemma load_allow_update [simp]:
  "load_allow C (s\<lparr>bs_allowCache := c\<rparr>) = load_allow C s"
  "load_allow C (s\<lparr>bs_banCache := d\<rparr>) = load_allow C s"
  "load_allow C (s\<lparr>bs_evaluating := xs\<rparr>) = load_allow C s"
  "load_allow C (s\<lparr>bs_rows := rows\<rparr>) = load_allow C s"
  "load_allow C (s\<lparr>bs_nextId := n\<rparr>) = load_allow C s"
  by (rule load_allow_cong; simp)+

lemma keeps_allowList: "keeps_bans PG now s (snd (allowList C now s))" "keeps_allow C now s (snd (allowList C now s))"
  unfolding allowList_state by (rule keeps_cache_same; simp) (rule keeps_cache_read; simp)

lemma keeps_isBanned:
  "keeps_bans PG now s (snd (isBanned PG ip now s))" "keeps_allow C now s (snd (isBanned PG ip now s))"
proof -
  let ?t = "s\<lparr>bs_banCache := snd (cached CACHE_MS (load_bans PG s) now (bs_banCache s))\<rparr>"
  have "keeps_bans PG now s ?t" by (rule keeps_cache_read; simp)
  moreover have "keeps_allow C now s ?t" by (rule keeps_cache_same; simp)
  ultimately show "keeps_bans PG now s (snd (isBanned PG ip now s))"
    "keeps_allow C now s (snd (isBanned PG ip now s))"
    using isBanned_state [of PG ip now s] keeps_cache_refl by metis+
qed

lemma autoBan_state:
  "snd (autoBan PG C nw reason now s) = s \<or>
   (\<exists>ban. snd (autoBan PG C nw reason now s) = invalidateBans (create_row ban s))"
  by (auto simp: autoBan_def Let_def split: option.split)

lemma keeps_create:
  "keeps_bans PG now s (invalidateBans (create_row ban s))"
  "keeps_allow C now s (invalidateBans (create_row ban s))"
  by (rule keeps_cache_drop, simp add: invalidateBans_def)
    (rule keeps_cache_same; simp add: invalidateBans_def create_row_def)

lemma keeps_autoBan:
  "keeps_bans PG now s (snd (autoBan PG C nw reason now s))"
  "keeps_allow C' now s (snd (autoBan PG C nw reason now s))"
  using autoBan_state [of PG C nw reason now s] keeps_create keeps_cache_refl by metis+

lemma keeps_evaluating:
  "keeps_bans PG now s (s\<lparr>bs_evaluating := xs\<rparr>)" "keeps_allow C now s (s\<lparr>bs_evaluating := xs\<rparr>)"
  by (rule keeps_cache_same; simp)+

lemma evaluate_body_keeps:
  "keeps_bans PG now s (snd (evaluate_body PG C events addr now s)) \<and>
   keeps_allow C now s (snd (evaluate_body PG C events addr now s))"
proof -
  define keeps where "keeps s' \<longleftrightarrow> keeps_bans PG now s s' \<and> keeps_allow C now s s'" for s'
  obtain al s1 where 1: "isAllowlisted C addr now s = (al, s1)" by fastforce
  obtain b s2 where 2: "isBanned PG (Some addr) now s1 = (b, s2)" by fastforce
  have k1: "keeps s1"
    using isAllowlisted_state [of C addr now s] keeps_allowList(1) [of PG now s C] keeps_allowList(2) [of C now s] 1
    by (simp add: keeps_def)
  have "keeps_bans PG now s1 s2" "keeps_allow C now s1 s2"
    using keeps_isBanned(1) [of PG now s1 "Some addr"] keeps_isBanned(2) [of C now s1 PG "Some addr"] 2 by simp_all
  then have k2: "keeps s2"
    using k1 unfolding keeps_def by (blast intro: keeps_cache_trans)
  have k3: "keeps (snd (networkTouchesAllowlist C nw now s2))" for nw
    using k2 keeps_allowList(1) [of PG now s2 C] keeps_allowList(2) [of C now s2]
    unfolding keeps_def networkTouchesAllowlist_state by (blast intro: keeps_cache_trans)
  have k4: "keeps (snd (autoBan PG C nw reason now t))" if "keeps t" for nw reason t
    using that keeps_autoBan(1) [of PG now t C nw reason] keeps_autoBan(2) [of C now t PG C nw reason] unfolding keeps_def by (blast intro: keeps_cache_trans)
  have "keeps (snd (evaluate_body PG C events addr now s))"
    unfolding evaluate_body_def Let_def
    by (simp add: 1 2 k1 k2 k3 k4 case_prod_beta split: option.split)
  then show ?thesis by (simp add: keeps_def)
qed

lemma evaluateAutoBan_keeps:
  "keeps_bans PG now s (snd (evaluateAutoBan PG C events ip now s)) \<and>
   keeps_allow C now s (snd (evaluateAutoBan PG C events ip now s))"
proof -
  have body: "keeps_bans PG now s (t\<lparr>bs_evaluating := ys\<rparr>) \<and> keeps_allow C now s (t\<lparr>bs_evaluating := ys\<rparr>)"
    if "t = snd (evaluate_body PG C events addr now (s\<lparr>bs_evaluating := xs\<rparr>))" for t addr xs ys
    using evaluate_body_keeps [of PG now "s\<lparr>bs_evaluating := xs\<rparr>" C events addr]
      keeps_evaluating(1) [of PG now s xs] keeps_evaluating(1) [of PG now t ys]
      keeps_evaluating(2) [of C now s xs] keeps_evaluating(2) [of C now t ys]
    unfolding that by (blast intro: keeps_cache_trans)
  show ?thesis
    by (simp add: evaluateAutoBan_def Let_def case_prod_beta body keeps_cache_refl split: option.split)
qed

text \<open>The operations of the module as steps; the sign-in events are those at the time of the step.\<close>

inductive ban_step :: "pg_inet_ops \<Rightarrow> config \<Rightarrow> time \<Rightarrow> bans_state \<Rightarrow> bans_state \<Rightarrow> bool"
  for PG :: pg_inet_ops and C :: config where
  step_allowlist: "ban_step PG C now s (snd (setAllowlist entries s))"
| step_check: "ban_step PG C now s (snd (isBanned PG ip now s))"
| step_hit: "ban_step PG C now s (recordBanHit PG a now s)"
| step_evaluate: "ban_step PG C now s (snd (evaluateAutoBan PG C events ip now s))"
| step_create: "ban_step PG C now s (snd (createBan PG input hours reason by now s))"
| step_lift: "ban_step PG C now s (snd (liftBan i by now s))"
| step_lift_for: "ban_step PG C now s (snd (liftBansFor PG a by now s))"

inductive_cases ban_stepE: "ban_step PG C now s s'"

lemma setAllowlist_keeps:
  "keeps_bans PG now s (snd (setAllowlist entries s)) \<and> keeps_allow C now s (snd (setAllowlist entries s))"
proof -
  have "load_bans PG (s\<lparr>bs_allowSetting := a, bs_allowCache := None\<rparr>) = load_bans PG s" for a
    by (rule load_bans_cong) simp
  then show ?thesis
    by (auto simp: setAllowlist_def keeps_cache_refl keeps_cache_drop intro: keeps_cache_same split: sum.split)
qed

lemma recordBanHit_keeps:
  "keeps_bans PG now s (recordBanHit PG a now s) \<and> keeps_allow C now s (recordBanHit PG a now s)"
proof -
  have "load_bans PG (s\<lparr>bs_rows := update_where p (\<lambda>r. r\<lparr>ib_hits := ib_hits r + 1, ib_lastHitAt := Some now\<rparr>) (bs_rows s)\<rparr>)
      = load_bans PG s" for p
    by (rule load_bans_cong) (simp add: update_where_def)
  then show ?thesis
    by (auto simp: recordBanHit_def Let_def keeps_cache_refl intro: keeps_cache_same split: option.split)
qed

lemma createBan_keeps:
  "keeps_bans PG now s (snd (createBan PG input hours reason by now s)) \<and>
   keeps_allow C now s (snd (createBan PG input hours reason by now s))"
  by (auto simp: createBan_def Let_def keeps_cache_refl invalidateBans_def create_row_def
      intro: keeps_cache_same keeps_cache_drop split: option.split)

lemma liftBan_keeps:
  "keeps_bans PG now s (snd (liftBan i by now s)) \<and> keeps_allow C now s (snd (liftBan i by now s))"
  by (auto simp: liftBan_def Let_def keeps_cache_refl invalidateBans_def
      intro: keeps_cache_same keeps_cache_drop split: option.split)

lemma liftBansFor_keeps:
  "keeps_bans PG now s (snd (liftBansFor PG a by now s)) \<and> keeps_allow C now s (snd (liftBansFor PG a by now s))"
  by (auto simp: liftBansFor_def Let_def keeps_cache_refl invalidateBans_def
      intro: keeps_cache_same keeps_cache_drop split: option.split)

lemma ban_step_keeps: "ban_step PG C now s s' \<Longrightarrow> keeps_bans PG now s s' \<and> keeps_allow C now s s'"
  by (erule ban_stepE)
    (simp_all add: setAllowlist_keeps keeps_isBanned recordBanHit_keeps evaluateAutoBan_keeps
      createBan_keeps liftBan_keeps liftBansFor_keeps)


interpretation allow_cache: ttl_cache CACHE_MS "load_allow C" bs_allowCache "ban_step PG C" for PG C
  by unfold_locales (simp_all add: CACHE_MS_def ban_step_keeps)




subsection \<open>Properties of the ban check\<close>




subsection \<open>Properties of the automatic bans\<close>

lemma autoBan_Some:
  "autoBan PG C nw reason now s = (Some ban, s') \<Longrightarrow>
    \<exists>net. pg_inet PG nw = Some net \<and> ib_network ban = net \<and> ib_source ban = AutoBan \<and>
      ib_createdAt ban = now \<and> ib_liftedAt ban = None \<and>
      ib_expiresAt ban = Some (expiry now (ban_hours C (previous_bans now net (bs_rows s)))) \<and>
      (\<forall>r \<in> set (bs_rows s). row_contains net r \<longrightarrow> \<not> active now r) \<and>
      s' = invalidateBans (create_row ban s)"
  by (auto simp: autoBan_def Let_def new_ban_def table_simps split: option.splits if_splits)

definition allow_fresh :: "config \<Rightarrow> bans_state \<Rightarrow> bool" where
  "allow_fresh C s \<longleftrightarrow> (\<forall>u v. bs_allowCache s = Some (u, v) \<longrightarrow> v = load_allow C s u)"

lemma load_allow_const: "load_allow C s now = load_allow C s u"
  by (simp add: load_allow_def)

lemma allowList_fresh: "allow_fresh C s \<Longrightarrow> fst (allowList C now s) = load_allow C s now"
  using load_allow_const [of C s]
  by (auto simp: allow_fresh_def allowList_def cached_def Let_def split: option.splits)

lemma allow_fresh_allowList: "allow_fresh C s \<Longrightarrow> allow_fresh C (snd (allowList C now s))"
  by (auto simp: allow_fresh_def allowList_state cached_def split: option.splits if_splits)

lemma load_allow_allowList [simp]: "load_allow C (snd (allowList C now s)) = load_allow C s"
  by (simp add: allowList_state)

lemma isBanned_allow:
  "bs_allowCache (snd (isBanned PG ip now s)) = bs_allowCache s"
  "load_allow C (snd (isBanned PG ip now s)) = load_allow C s"
  "bs_rows (snd (isBanned PG ip now s)) = bs_rows s"
  "bs_online (snd (isBanned PG ip now s)) = bs_online s"
  using isBanned_state [of PG ip now s] by auto

lemma allow_fresh_isBanned: "allow_fresh C s \<Longrightarrow> allow_fresh C (snd (isBanned PG ip now s))"
  by (simp add: allow_fresh_def isBanned_allow)

text \<open>Where an automatic ban comes from.\<close>

lemma evaluate_body_Some:
  assumes fresh: "allow_fresh C s" and res: "evaluate_body PG C events addr now s = (Some ban, s')"
  shows "\<not> list_contains (fst (load_allow C s now)) addr \<and>
    (\<exists>nw reason t. autoBan PG C nw reason now t = (Some ban, s') \<and> bs_rows t = bs_rows s \<and>
      (nw = single_text addr \<or>
       surroundingNetwork PG addr = Some nw \<and>
       (\<forall>n. parseNetwork nw = Some n \<longrightarrow>
          \<not> list_ex (touches_entry (fst (load_allow C s now)) n) (snd (load_allow C s now))) \<and>
       parseNetwork nw \<noteq> None))"
proof -
  obtain s1 where 1: "isAllowlisted C addr now s = (list_contains (fst (load_allow C s now)) addr, s1)"
    and s1: "s1 = snd (allowList C now s)"
    using allowList_fresh [OF fresh] by (simp add: isAllowlisted_def Let_def case_prod_beta)
  obtain b s2 where 2: "isBanned PG (Some addr) now s1 = (b, s2)" by fastforce
  have s2: "s2 = snd (isBanned PG (Some addr) now s1)" using 2 by simp
  have f2: "allow_fresh C s2" "load_allow C s2 = load_allow C s" "bs_rows s2 = bs_rows s"
    using allow_fresh_isBanned [OF allow_fresh_allowList [OF fresh]] unfolding s2 s1
    by (simp_all add: isBanned_allow allowList_state)
  have 3: "networkTouchesAllowlist C nw now s2 = (case parseNetwork nw of None \<Rightarrow> True
      | Some n \<Rightarrow> list_ex (touches_entry (fst (load_allow C s now)) n) (snd (load_allow C s now)),
      snd (allowList C now s2))" for nw
    by (simp only: networkTouchesAllowlist_def Let_def case_prod_beta allowList_fresh [OF f2(1)] f2(2))
  have rows3: "bs_rows (snd (allowList C now s2)) = bs_rows s" by (simp add: allowList_state f2)
  show ?thesis
    using res f2(3) rows3 unfolding evaluate_body_def Let_def 1 prod.case 2 3
    by (auto split: option.splits if_splits) (force+)
qed

text \<open>
  The networks an automatic ban can name: the address alone, or the /24 or /64 around it.
\<close>

definition around :: "ip \<Rightarrow> rule" where
  "around x = (x, if is_v4 x then 24 else 64)"

lemma around_ok: "rule_ok (around x)"
  by (simp add: around_def rule_ok_def max_prefix_def)

lemma surrounding_single: "surrounding (single x) = inet_network (around x)"
  by (simp add: surrounding_def single_def around_def)

lemma around_not_mapped: "outside_mapped (around x) \<Longrightarrow> \<not> is_mapped x"
  using outside_not_mapped [OF around_ok, of x] by (simp add: around_def)

lemma outside_single: "\<not> is_mapped x \<Longrightarrow> outside_mapped (single x)"
  by (cases x) (simp_all add: single_def is_mapped_def mapped_base_32)

lemma show_32_128: "show_nat 32 = ''32''" "show_nat 128 = ''128''"
  by code_simp+

lemma single_text_show:
  "parse_ip addr = Some x \<Longrightarrow> single_text addr = addr @ ''/'' @ show_nat (max_prefix x)"
  by (cases x) (simp_all add: single_text_def show_32_128)

context pg_inet_type
begin

lemma single_text_inet:
  assumes "parse_ip addr = Some x" and "CHR ''%'' \<notin> set addr"
  shows "pg_inet PG (single_text addr) = Some (single x)"
  using inet_net [OF assms order.refl] by (simp only: single_text_show [OF assms(1)] single_def)

lemma surroundingNetwork_text:
  assumes "parse_ip addr = Some x" and "CHR ''%'' \<notin> set addr" and "outside_mapped (around x)"
  obtains nw n where "surroundingNetwork PG addr = Some nw" "pg_inet PG nw = Some (inet_network (around x))"
    "parseNetwork nw = Some n" "(net_ip n, net_prefix n) = inet_network (around x)"
proof -
  let ?r = "inet_network (around x)"
  have ok: "rule_ok ?r" "\<not> is_mapped (fst ?r)"
    using inet_network_ok [OF around_ok] outside_not_mapped outside_mapped_network [OF around_ok assms(3)]
    by blast+
  obtain n where "parseNetwork (pg_cidr_text PG ?r) = Some n" "(net_ip n, net_prefix n) = ?r"
    using text_network [OF ok] by blast
  moreover have "surroundingNetwork PG addr = Some (pg_cidr_text PG ?r)"
    using inet_ip [OF assms(1,2)] by (simp add: surroundingNetwork_def surrounding_single)
  ultimately show ?thesis using inet_text [OF ok(1)] that by blast
qed

lemma evaluate_network:
  assumes "evaluate_body PG C events addr now s = (Some ban, s')" and "allow_fresh C s"
    and x: "parse_ip addr = Some x" "CHR ''%'' \<notin> set addr" "outside_mapped (around x)"
  shows "ib_network ban = single x \<or> ib_network ban = inet_network (around x)"
proof -
  obtain nw n where nw: "surroundingNetwork PG addr = Some nw" "pg_inet PG nw = Some (inet_network (around x))"
    by (rule surroundingNetwork_text [OF x]) blast
  from evaluate_body_Some [OF assms(2,1)] obtain nw' reason t
    where "autoBan PG C nw' reason now t = (Some ban, s')"
      "nw' = single_text addr \<or> surroundingNetwork PG addr = Some nw'" by blast
  with nw single_text_inet [OF x(1,2)] show ?thesis
    by (auto dest!: autoBan_Some)
qed

lemma spares_allowlist:
  assumes res: "evaluate_body PG C events addr now s = (Some ban, s')" and fresh: "allow_fresh C s"
    and x: "parse_ip addr = Some x" "CHR ''%'' \<notin> set addr" "outside_mapped (around x)" "plainIp addr = addr"
    and e: "e \<in> set (allow_entries C s)" "parseNetwork e = Some m" "outside_mapped (net_ip m, net_prefix m)"
    and y: "rule_covers (net_ip m, net_prefix m) y" "\<not> is_mapped y"
  shows "\<not> rule_covers (ib_network ban) y"
proof
  assume bad: "rule_covers (ib_network ban) y"
  let ?e = "(net_ip m, net_prefix m)" and ?allow = "build_list (allow_entries C s)"
  have eok: "rule_ok ?e" by (rule parseNetwork_ok [OF e(2)])
  have nx: "\<not> is_mapped x" by (rule around_not_mapped [OF x(3)])
  have listed: "list_check ?allow z" if "rule_covers ?e z" for z
    using that e(1,2) unfolding build_list_check by blast
  from evaluate_body_Some [OF fresh res] obtain nw reason t where free: "\<not> list_contains ?allow addr"
    and ab: "autoBan PG C nw reason now t = (Some ban, s')"
    and nw: "nw = single_text addr \<or> surroundingNetwork PG addr = Some nw \<and>
      (\<forall>n. parseNetwork nw = Some n \<longrightarrow> \<not> list_ex (touches_entry ?allow n) (allow_entries C s))"
    unfolding load_allow_def fst_conv snd_conv by blast
  have fam_e: "same_family (net_ip m) y" using covers_same_family [OF eok e(3) y(2,1)] by simp
  from nw show False
  proof
    assume "nw = single_text addr"
    then have b: "ib_network ban = single x"
      using autoBan_Some [OF ab] single_text_inet [OF x(1,2)] by auto
    then have "y = x"
      using rule_covers_single [of x y] covers_same_family [OF single_ok outside_single [OF nx] y(2)] bad
      by (simp add: single_def)
    with listed [OF y(1)] free x show False by (simp add: list_contains_def)
  next
    assume a: "surroundingNetwork PG addr = Some nw \<and>
      (\<forall>n. parseNetwork nw = Some n \<longrightarrow> \<not> list_ex (touches_entry ?allow n) (allow_entries C s))"
    obtain nw' n where n: "surroundingNetwork PG addr = Some nw'" "pg_inet PG nw' = Some (inet_network (around x))"
      "parseNetwork nw' = Some n" "(net_ip n, net_prefix n) = inet_network (around x)"
      by (rule surroundingNetwork_text [OF x(1-3)]) blast
    let ?n = "(net_ip n, net_prefix n)"
    have nok: "rule_ok ?n" "outside_mapped ?n"
      unfolding n(4) by (rule inet_network_ok [OF around_ok]) (rule outside_mapped_network [OF around_ok x(3)])
    have "ib_network ban = ?n" using autoBan_Some [OF ab] a n by auto
    with bad have cov: "rule_covers ?n y" by simp
    have fam_n: "same_family (net_ip n) y" using covers_same_family [OF nok y(2) cov] by simp
    have "rule_covers ?n (net_ip m) \<or> rule_covers ?e (net_ip n)"
      using networks_nested [OF nok(1) eok _ _ cov y(1)] fam_e fam_n by simp
    then have "touches_entry ?allow n e"
      using e(2) fam_e fam_n listed [of "net_ip n"] parseNetwork_plain [OF n(3)] parseNetwork_parse [OF n(3)]
      by (auto simp: touches_entry_def same_family_def list_contains_def)
    with a n(1,3) e(1) show False by (auto simp: list_ex_iff)
  qed
qed

end

lemma allow_entries_evaluating: "allow_entries C (s\<lparr>bs_evaluating := xs\<rparr>) = allow_entries C s"
  unfolding allow_entries_def getAllowlist_def by simp

lemma evaluateAutoBan_body:
  assumes "evaluateAutoBan PG C events ip now s = (Some ban, s')"
  obtains a xs t where "ip = Some a" "cfg_AUTOBAN_ENABLED C" "parse_ip (plainIp a) \<noteq> None"
    "evaluate_body PG C events (plainIp a) now (s\<lparr>bs_evaluating := xs\<rparr>) = (Some ban, t)"
    "s' = t\<lparr>bs_evaluating := filter (\<lambda>x. x \<noteq> plainIp a) (bs_evaluating t)\<rparr>"
  using assms by (auto simp: evaluateAutoBan_def Let_def split: option.splits if_splits prod.splits)

text \<open>
  C1: an automatic ban never reaches an allowlisted address. Whenever \<open>evaluateAutoBan\<close> bans, be
  it the address itself or the whole network around it, no address of any entry of the allowlist
  (loopback, the mail network, the configured and the admin's entries) lies in the banned network.
\<close>

theorem autoban_spares_allowlist:
  assumes "pg_inet_type PG" and "allow_fresh C s"
    and "evaluateAutoBan PG C events (Some a) now s = (Some ban, s')"
    and "parse_ip (plainIp a) = Some x" "CHR ''%'' \<notin> set (plainIp a)" "outside_mapped (around x)"
    and "e \<in> set (allow_entries C s)" "parseNetwork e = Some m" "outside_mapped (net_ip m, net_prefix m)"
    and "rule_covers (net_ip m, net_prefix m) y" "\<not> is_mapped y"
  shows "\<not> rule_covers (ib_network ban) y"
proof -
  obtain xs t where b: "evaluate_body PG C events (plainIp a) now (s\<lparr>bs_evaluating := xs\<rparr>) = (Some ban, t)"
    by (rule evaluateAutoBan_body [OF assms(3)]) auto
  have "allow_fresh C (s\<lparr>bs_evaluating := xs\<rparr>)" using assms(2) by (simp add: allow_fresh_def)
  moreover have "e \<in> set (allow_entries C (s\<lparr>bs_evaluating := xs\<rparr>))"
    unfolding allow_entries_evaluating by (rule assms(7))
  ultimately show ?thesis
    using pg_inet_type.spares_allowlist [OF assms(1) b _ assms(4-6) plainIp_idem] assms(8-11) by blast
qed

lemma autoBan_creates:
  "pg_inet PG nw = Some net \<Longrightarrow> \<forall>r \<in> set (bs_rows s). active now r \<longrightarrow> \<not> row_contains net r \<Longrightarrow>
    \<exists>ban. fst (autoBan PG C nw reason now s) = Some ban"
  by (auto simp: autoBan_def Let_def table_simps)

context pg_inet_type
begin

lemma uncovered_rows:
  assumes "rows_ok rows" and "outside_mapped (around x)" and "\<not> covered rows now x" and "r \<in> set rows" and "active now r"
  shows "\<not> row_contains (single x) r" and "\<not> row_contains (inet_network (around x)) r"
proof -
  have r: "rule_ok (ib_network r)" "outside_mapped (ib_network r)" using assms(1,4) by (auto simp: rows_ok_def)
  show 1: "\<not> row_contains (single x) r"
    using covers_iff_inet_all [OF r around_not_mapped [OF assms(2)]] assms(3-5)
    by (auto simp: covered_iff row_contains_def)
  have "rule_covers (inet_network (around x)) x"
    using inet_network_covers_all [OF around_ok assms(2) around_not_mapped [OF assms(2)]] by (simp add: around_def)
  then have "inet_contains_eq (inet_network (around x)) (single x)"
    using covers_iff_inet_all [OF inet_network_ok [OF around_ok] outside_mapped_network [OF around_ok assms(2)]
        around_not_mapped [OF assms(2)]] by simp
  with 1 inet_contains_eq_trans show "\<not> row_contains (inet_network (around x)) r"
    unfolding row_contains_def by blast
qed

lemma evaluate_body_decision:
  assumes fresh: "allow_fresh C s" and online: "bs_online s" and cache: "bs_banCache s = None"
    and rows: "rows_ok (bs_rows s)"
    and x: "parse_ip addr = Some x" "CHR ''%'' \<notin> set addr" "outside_mapped (around x)" "plainIp addr = addr"
    and free: "\<not> fst (isAllowlisted C addr now s)" "\<not> covered (bs_rows s) now x"
  shows "fst (evaluate_body PG C events addr now s) \<noteq> None \<longleftrightarrow>
    cfg_AUTOBAN_DISTINCT_ACCOUNTS C \<le> fs_accounts (stats_of C addr now events) \<or>
    cfg_AUTOBAN_FAILURES C \<le> fs_failures (stats_of C addr now events) \<or>
    \<not> fs_trusted (stats_of C addr now events) \<and>
    (0 < cfg_AUTOBAN_NETWORK_ADDRESSES C \<and>
       \<not> fst (networkTouchesAllowlist C (pg_cidr_text PG (inet_network (around x))) now s) \<and>
       \<not> net_trusted now (net_rows PG C (inet_network (around x)) now events) \<and>
       cfg_AUTOBAN_NETWORK_ADDRESSES C \<le> net_ips (net_rows PG C (inet_network (around x)) now events) \<or>
     0 < cfg_AUTOBAN_UNKNOWN_FAILURES C \<and>
       cfg_AUTOBAN_UNKNOWN_FAILURES C \<le> fs_unknown (stats_of C addr now events))"
proof -
  let ?nw = "pg_cidr_text PG (inet_network (around x))"
  obtain s1 where 1: "isAllowlisted C addr now s = (False, s1)" and s1: "s1 = snd (allowList C now s)"
    using free(1) isAllowlisted_state [of C addr now s] by (cases "isAllowlisted C addr now s") auto
  obtain b s2 where 2: "isBanned PG (Some addr) now s1 = (b, s2)" by fastforce
  have s2: "s2 = snd (isBanned PG (Some addr) now s1)" using 2 by simp
  have keep: "bs_rows s2 = bs_rows s" "bs_online s2" "allow_fresh C s2" "load_allow C s2 = load_allow C s"
    using online allow_fresh_isBanned [OF allow_fresh_allowList [OF fresh]] unfolding s2 s1
    by (simp_all add: isBanned_allow allowList_state)
  have "b = covered (bs_rows s) now x"
    using isBanned_reload [of addr x s1 now] 2 x cache online rows
    by (simp add: s1 allowList_state)
  with free have b: "\<not> b" by simp
  have touch: "fst (networkTouchesAllowlist C nw now s2) = fst (networkTouchesAllowlist C nw now s)" for nw
    by (simp only: networkTouchesAllowlist_def Let_def case_prod_beta allowList_fresh [OF keep(3)]
        allowList_fresh [OF fresh] keep(4) fst_conv)
  have nw: "surroundingNetwork PG addr = Some ?nw" "pg_inet PG ?nw = Some (inet_network (around x))"
    using inet_ip [OF x(1,2)] inet_text [OF inet_network_ok [OF around_ok]]
    by (simp_all add: surroundingNetwork_def surrounding_single)
  have ab: "\<exists>ban. fst (autoBan PG C nw' reason now t) = Some ban"
    if "nw' = single_text addr \<or> nw' = ?nw" "bs_rows t = bs_rows s" for nw' reason t
    using that uncovered_rows [OF rows x(3) free(2)] single_text_inet [OF x(1,2)] nw(2)
    by (auto intro: autoBan_creates)
  have rows3: "bs_rows (snd (networkTouchesAllowlist C nw now s2)) = bs_rows s" for nw
    by (simp add: networkTouchesAllowlist_state allowList_state keep)
  show ?thesis
    unfolding evaluate_body_def Let_def 1 prod.case 2 nw option.case
    by (simp add: b keep ab touch rows3 case_prod_beta)
qed

end

text \<open>
  C2: the automatic ban decides as it is documented. For an address that is neither allowlisted nor
  banned, \<open>evaluateAutoBan\<close> bans if and only if one of the rules holds: too many different accounts
  or too many failures within the window; or, unless the address signed in successfully in the last
  week, enough addresses of a surrounding network that neither touches the allowlist nor is
  trusted tried unknown accounts, or this one tried unknown accounts often enough. A network ban
  that is due is never swallowed by an existing ban.
\<close>

theorem autoban_decision:
  assumes "pg_inet_type PG" and "allow_fresh C s" and "cfg_AUTOBAN_ENABLED C" and "bs_online s"
    and "bs_banCache s = None" and "rows_ok (bs_rows s)" and "bs_evaluating s = []"
    and "parse_ip (plainIp a) = Some x" "CHR ''%'' \<notin> set (plainIp a)" "outside_mapped (around x)"
    and "\<not> fst (isAllowlisted C a now s)" and "\<not> covered (bs_rows s) now x"
  shows "fst (evaluateAutoBan PG C events (Some a) now s) \<noteq> None \<longleftrightarrow>
    (let st = stats_of C (plainIp a) now events; net = inet_network (around x);
         rows = net_rows PG C net now events
     in cfg_AUTOBAN_DISTINCT_ACCOUNTS C \<le> fs_accounts st \<or> cfg_AUTOBAN_FAILURES C \<le> fs_failures st \<or>
        \<not> fs_trusted st \<and>
        (0 < cfg_AUTOBAN_NETWORK_ADDRESSES C \<and>
           \<not> fst (networkTouchesAllowlist C (pg_cidr_text PG net) now s) \<and>
           \<not> net_trusted now rows \<and> cfg_AUTOBAN_NETWORK_ADDRESSES C \<le> net_ips rows \<or>
         0 < cfg_AUTOBAN_UNKNOWN_FAILURES C \<and> cfg_AUTOBAN_UNKNOWN_FAILURES C \<le> fs_unknown st))"
proof -
  let ?s = "s\<lparr>bs_evaluating := [plainIp a]\<rparr>"
  have al: "fst (allowList C now ?s) = fst (allowList C now s)"
    using allowList_fresh [of C ?s now] allowList_fresh [OF assms(2), of now] assms(2)
    by (simp add: allow_fresh_def)
  have "fst (isAllowlisted C (plainIp a) now ?s) = fst (isAllowlisted C a now s)"
    by (simp only: isAllowlisted_def Let_def case_prod_beta list_contains_def plainIp_idem al fst_conv)
  then have 1: "allow_fresh C ?s" "\<not> fst (isAllowlisted C (plainIp a) now ?s)"
    using assms(2,11) by (simp_all add: allow_fresh_def)
  have 2: "fst (networkTouchesAllowlist C nw now ?s) = fst (networkTouchesAllowlist C nw now s)" for nw
    by (simp only: networkTouchesAllowlist_def Let_def case_prod_beta al fst_conv)
  have "evaluateAutoBan PG C events (Some a) now s =
      (let (r, s') = evaluate_body PG C events (plainIp a) now ?s
       in (r, s'\<lparr>bs_evaluating := filter (\<lambda>x. x \<noteq> plainIp a) (bs_evaluating s')\<rparr>))"
    using assms(3,7,8) address_not_special [OF assms(8)] by (simp add: evaluateAutoBan_def Let_def)
  then have "fst (evaluateAutoBan PG C events (Some a) now s) = fst (evaluate_body PG C events (plainIp a) now ?s)"
    by (simp add: Let_def case_prod_beta)
  with pg_inet_type.evaluate_body_decision [OF assms(1) 1(1) _ _ _ assms(8-10) plainIp_idem 1(2), of events]
    assms(4-6,12)
  show ?thesis by (simp add: Let_def 2)
qed

fun ban_series :: "pg_inet_ops \<Rightarrow> config \<Rightarrow> string \<Rightarrow> string \<Rightarrow> time list \<Rightarrow> bans_state \<Rightarrow> ban_row option list" where
  "ban_series PG C nw reason [] s = []"
| "ban_series PG C nw reason (t # ts) s =
     (let (b, s') = autoBan PG C nw reason t s in b # ban_series PG C nw reason ts s')"

text \<open>The times are far enough apart when each comes after the expiry of the ban before it.\<close>

fun apart :: "config \<Rightarrow> nat \<Rightarrow> time list \<Rightarrow> bool" where
  "apart C k (t # u # ts) = (expiry t (ban_hours C k) \<le> u \<and> t \<le> u \<and> apart C (Suc k) (u # ts))"
| "apart C k _ = True"

definition banned_before :: "rule \<Rightarrow> nat \<Rightarrow> time \<Rightarrow> time \<Rightarrow> bans_state \<Rightarrow> bool" where
  \<comment> \<open>the network was banned \<open>k\<close> times since \<open>t0\<close>, and none of the bans that touch it runs past \<open>t\<close>\<close>
  "banned_before net k t0 t s \<longleftrightarrow>
     count_where (\<lambda>r. ib_network r = net \<and> ib_source r = AutoBan) (bs_rows s) = k \<and>
     (\<forall>r \<in> set (bs_rows s). ib_network r = net \<longrightarrow> t0 \<le> ib_createdAt r) \<and>
     (\<forall>u \<ge> t. \<forall>r \<in> set (bs_rows s). row_contains net r \<longrightarrow> \<not> active u r)"

lemma previous_all:
  assumes "\<forall>r \<in> set rows. ib_network r = net \<longrightarrow> t0 \<le> ib_createdAt r" and "t < t0 + REPEAT_LOOKBACK_DAYS * DAY_MS"
  shows "previous_bans t net rows = count_where (\<lambda>r. ib_network r = net \<and> ib_source r = AutoBan) rows"
proof -
  have "filter (\<lambda>r. ib_network r = net \<and> ib_source r = AutoBan \<and> t - REPEAT_LOOKBACK_DAYS * DAY_MS < ib_createdAt r) rows
      = filter (\<lambda>r. ib_network r = net \<and> ib_source r = AutoBan) rows"
    using assms by (intro filter_cong) auto
  then show ?thesis by (simp add: previous_bans_def count_where_def)
qed

lemma autoBan_again:
  assumes net: "pg_inet PG nw = Some net" and b: "banned_before net k t0 t s"
    and t: "t0 \<le> t" "t < t0 + REPEAT_LOOKBACK_DAYS * DAY_MS"
  obtains ban s' where "autoBan PG C nw reason t s = (Some ban, s')"
    "ib_expiresAt ban = Some (expiry t (ban_hours C k))"
    "banned_before net (Suc k) t0 (max t (expiry t (ban_hours C k))) s'"
proof -
  have free: "\<forall>r \<in> set (bs_rows s). active t r \<longrightarrow> \<not> row_contains net r"
    and old: "\<forall>r \<in> set (bs_rows s). ib_network r = net \<longrightarrow> t0 \<le> ib_createdAt r"
    and k: "previous_bans t net (bs_rows s) = k"
    using b previous_all [of "bs_rows s" net t0 t] t by (auto simp: banned_before_def)
  obtain ban where ban: "fst (autoBan PG C nw reason t s) = Some ban"
    using autoBan_creates [OF net free] by blast
  then obtain s' where r: "autoBan PG C nw reason t s = (Some ban, s')" by (metis prod.collapse)
  from autoBan_Some [OF r] net k have facts: "ib_network ban = net" "ib_source ban = AutoBan" "ib_createdAt ban = t"
    "ib_expiresAt ban = Some (expiry t (ban_hours C k))" "s' = invalidateBans (create_row ban s)" by auto
  have "\<not> active u ban" if "expiry t (ban_hours C k) \<le> u" for u
    using that facts by (simp add: active_def)
  then have "banned_before net (Suc k) t0 (max t (expiry t (ban_hours C k))) s'"
    using b t facts by (auto simp: banned_before_def invalidateBans_def create_row_def count_where_def)
  with r facts(4) show ?thesis by (rule that)
qed

lemma ban_series_expiry:
  assumes "pg_inet PG nw = Some net" and "banned_before net k t0 t s" and "apart C k (t # ts)" and "t0 \<le> t"
    and "\<forall>u \<in> set (t # ts). u < t0 + REPEAT_LOOKBACK_DAYS * DAY_MS"
  shows "map (\<lambda>b. Option.bind b ib_expiresAt) (ban_series PG C nw reason (t # ts) s) =
    map (\<lambda>(j, u). Some (expiry u (ban_hours C (k + j)))) (enumerate 0 (t # ts))"
  using assms
proof (induction ts arbitrary: t k s)
  case Nil
  then show ?case using autoBan_again [OF Nil.prems(1,2), of C reason] by (fastforce simp: case_prod_beta)
next
  case (Cons u ts)
  have lt: "t < t0 + REPEAT_LOOKBACK_DAYS * DAY_MS" using Cons.prems by simp
  obtain ban s' where r: "autoBan PG C nw reason t s = (Some ban, s')"
    "ib_expiresAt ban = Some (expiry t (ban_hours C k))"
    "banned_before net (Suc k) t0 (max t (expiry t (ban_hours C k))) s'"
    by (rule autoBan_again [OF Cons.prems(1,2,4) lt])
  have "max t (expiry t (ban_hours C k)) \<le> u" using Cons.prems(3) by simp
  then have b: "banned_before net (Suc k) t0 u s'" using r(3) by (auto simp: banned_before_def)
  have "map (\<lambda>b. Option.bind b ib_expiresAt) (ban_series PG C nw reason (u # ts) s') =
      map (\<lambda>(j, u). Some (expiry u (ban_hours C (Suc k + j)))) (enumerate 0 (u # ts))"
    by (rule Cons.IH [OF Cons.prems(1) b]) (use Cons.prems in auto)
  then show ?case
    by (simp add: r enumerate_Suc_eq comp_def case_prod_beta del: ban_series.simps)
      (simp add: r enumerate_Suc_eq comp_def case_prod_beta)
qed

text \<open>
  C13: repeat offenders are banned longer. When the same network is banned automatically again and
  again, each time after the previous ban ran out and all within ninety days, the first ban lasts
  the configured time, the second seven times that, the third and every later one thirty times.
\<close>

theorem autoban_escalates:
  assumes "pg_inet PG nw = Some net"
    and "\<forall>r \<in> set (bs_rows s). ib_network r \<noteq> net \<and> (\<forall>u \<ge> t. row_contains net r \<longrightarrow> \<not> active u r)"
    and "apart C 0 (t # ts)" and "\<forall>u \<in> set (t # ts). u < t + REPEAT_LOOKBACK_DAYS * DAY_MS"
  shows "map (\<lambda>b. Option.bind b ib_expiresAt) (ban_series PG C nw reason (t # ts) s) =
    map (\<lambda>(j, u). Some (expiry u (cfg_AUTOBAN_DURATION_HOURS C * (if j = 0 then 1 else if j = 1 then 7 else 30))))
      (enumerate 0 (t # ts))"
proof -
  have "count_where (\<lambda>r. ib_network r = net \<and> ib_source r = AutoBan) (bs_rows s) = 0"
    using assms(2) by (simp add: table_simps)
  then have "banned_before net 0 t t s" using assms(2) by (auto simp: banned_before_def)
  moreover have "ban_hours C j = cfg_AUTOBAN_DURATION_HOURS C * (if j = 0 then 1 else if j = 1 then 7 else 30)" for j
    by (cases j rule: nat.exhaust; cases "j - 1") (auto simp: ban_hours_def ESCALATION_def)
  ultimately show ?thesis
    using ban_series_expiry [OF assms(1) _ assms(3) order.refl assms(4)] by simp
qed


subsection \<open>The properties on an example\<close>

definition ex_state :: bans_state where
  "ex_state = \<lparr>bs_rows = [], bs_nextId = 1, bs_allowSetting = Missing, bs_allowCache = None,
     bs_banCache = None, bs_evaluating = [], bs_online = True\<rparr>"

definition ex_ban :: ban_row where
  "ex_ban = \<lparr>ib_id = 1, ib_network = (V4 0x01020300, 24), ib_reason = None, ib_source = ManualBan,
     ib_createdBy = None, ib_createdAt = 5, ib_expiresAt = None, ib_liftedAt = None, ib_liftedBy = None,
     ib_hits = 0, ib_lastHitAt = None\<rparr>"

definition ex_net :: network where
  "ex_net = \<lparr>net_address = ''1.2.3.9'', net_prefix = 24, net_ip = V4 0x01020309\<rparr>"

definition ex_banned :: bans_state where
  "ex_banned = ex_state\<lparr>bs_rows := [ex_ban], bs_nextId := 2\<rparr>"


lemma ex_facts:
  "rows_ok (bs_rows ex_banned)" "rows_ok (bs_rows ex_state)" "bs_online ex_state" "bs_online ex_banned"
  "bs_banCache ex_state = None" "bs_banCache ex_banned = None" "bs_evaluating ex_state = []"
  "parse_ip (plainIp ''1.2.3.4'') = Some (V4 0x01020304)" "js_trim ''1.2.3.4'' = ''1.2.3.4''"
  "CHR ''%'' \<notin> set (plainIp ''1.2.3.4'')" "parseNetwork ''1.2.3.9/24'' = Some ex_net"
  "CHR ''%'' \<notin> set (net_address ex_net)" "rule_covers (net_ip ex_net, net_prefix ex_net) (V4 0x01020304)"
  "outside_mapped (net_ip ex_net, net_prefix ex_net)" "covered (bs_rows ex_banned) 6 (V4 0x01020304)"
  by code_simp+

lemma V4_not_mapped: "\<not> is_mapped (V4 w)"
  by (simp add: is_mapped_def)




definition ex_event :: "nat \<Rightarrow> string \<Rightarrow> auth_event_row" where
  "ex_event i u = \<lparr>ae_id = i, ae_createdAt = 100, ae_lastAt = 100, ae_source = SrcImap, ae_username = Some u,
     ae_mailboxId = None, ae_ip = Some ''9.8.7.6'', ae_success = False, ae_reason = Some UnknownUser,
     ae_detail = None, ae_userAgent = None, ae_count = 1\<rparr>"

definition ex_events :: "auth_event_row list" where
  "ex_events = [ex_event 1 ''a'', ex_event 2 ''b'', ex_event 3 ''c'']"

lemma ex_attacker:
  "parse_ip (plainIp ''9.8.7.6'') = Some (V4 0x09080706)" "CHR ''%'' \<notin> set (plainIp ''9.8.7.6'')"
  "outside_mapped (around (V4 0x09080706))" "\<not> fst (isAllowlisted (default_config ''m'') ''9.8.7.6'' 200 ex_state)"
  "\<not> covered (bs_rows ex_state) 200 (V4 0x09080706)" "cfg_AUTOBAN_ENABLED (default_config ''m'')"
  "cfg_AUTOBAN_DISTINCT_ACCOUNTS (default_config ''m'') \<le>
     fs_accounts (stats_of (default_config ''m'') (plainIp ''9.8.7.6'') 200 ex_events)"
  by code_simp+

lemma ex_fresh: "allow_fresh C ex_state"
  by (simp add: allow_fresh_def ex_state_def)

theorem autoban_decision_witness:
  "fst (evaluateAutoBan mem_pg (default_config ''m'') ex_events (Some ''9.8.7.6'') 200 ex_state) \<noteq> None"
  using autoban_decision [OF mem_pg.pg_inet_type_axioms ex_fresh ex_attacker(6) ex_facts(3,5,2,7) ex_attacker(1-5), of ex_events]
    ex_attacker(7) by (simp add: Let_def)

lemma ex_allowed:
  "''127.0.0.0/8'' \<in> set (allow_entries (default_config ''m'') ex_state)"
  "parseNetwork ''127.0.0.0/8'' = Some \<lparr>net_address = ''127.0.0.0'', net_prefix = 8, net_ip = V4 0x7F000000\<rparr>"
  "rule_covers (V4 0x7F000000, 8) (V4 0x7F000001)"
  by code_simp+

theorem autoban_spares_allowlist_witness:
  "\<exists>ban s'. evaluateAutoBan mem_pg (default_config ''m'') ex_events (Some ''9.8.7.6'') 200 ex_state = (Some ban, s') \<and>
    \<not> rule_covers (ib_network ban) (V4 0x7F000001)"
proof -
  have "fst (evaluateAutoBan mem_pg (default_config ''m'') ex_events (Some ''9.8.7.6'') 200 ex_state) \<noteq> None"
    by code_simp
  then obtain ban s' where e:
    "evaluateAutoBan mem_pg (default_config ''m'') ex_events (Some ''9.8.7.6'') 200 ex_state = (Some ban, s')"
    by (metis not_None_eq prod.collapse)
  from autoban_spares_allowlist [OF mem_pg.pg_inet_type_axioms ex_fresh e ex_attacker(1-3) ex_allowed(1,2) _ _ V4_not_mapped]
    ex_allowed(3) e show ?thesis by auto
qed

theorem autoban_escalates_witness:
  "map (\<lambda>b. Option.bind b ib_expiresAt)
      (ban_series mem_pg (default_config ''m'') ''9.8.7.6/32'' ''r'' [0, 86400000, 691200000] ex_state) =
    [Some 86400000, Some 691200000, Some 3283200000]"
proof -
  have net: "pg_inet mem_pg ''9.8.7.6/32'' = Some (V4 0x09080706, 32)" by code_simp
  have 1: "apart (default_config ''m'') 0 [0, 86400000, 691200000]" by code_simp
  have 2: "list_all (\<lambda>u. u < 0 + REPEAT_LOOKBACK_DAYS * DAY_MS) [0, 86400000, 691200000]" by code_simp
  have 3: "bs_rows ex_state = []" by (simp add: ex_state_def)
  have "map (\<lambda>b. Option.bind b ib_expiresAt)
      (ban_series mem_pg (default_config ''m'') ''9.8.7.6/32'' ''r'' [0, 86400000, 691200000] ex_state) =
    map (\<lambda>(j, u). Some (expiry u (cfg_AUTOBAN_DURATION_HOURS (default_config ''m'') *
        (if j = 0 then 1 else if j = 1 then 7 else 30)))) (enumerate 0 [0, 86400000, 691200000])"
    by (rule autoban_escalates [OF net _ 1]) (use 2 3 in \<open>simp_all add: list_all_iff\<close>)
  also have "\<dots> = [Some 86400000, Some 691200000, Some 3283200000]" by code_simp
  finally show ?thesis .
qed


end
