(* ===== verification/BanRace.thy ===== *)
theory BanRace
  imports Bans
begin

text \<open>
  The awaits of \<open>activeBanList\<close> (\<open>apps/server/src/auth/bans.ts\<close>). While a load of the active
  bans waits for the database, other requests run: they can write bans and call
  \<open>invalidateBans\<close>. \<open>race_apply\<close> is one turn of the event loop or of the database on the
  variables \<open>banCache\<close> and \<open>banLoad\<close> and on the table.
\<close>

datatype load_state = Querying | Got "rule list"

record race_state =
  rc_rows :: "ban_row list"
  rc_cache :: "(time \<times> rule list) option"
  rc_load :: "load_state option"

datatype race_event = BeginLoad | RunQuery | FinishLoad | Write "ban_row list" | Invalidate

definition active_rules :: "pg_inet_ops \<Rightarrow> ban_row list \<Rightarrow> time \<Rightarrow> rule list" where
  "active_rules PG rows now = build_list (map (\<lambda>r. pg_cidr_text PG (ib_network r)) (filter (active now) rows))"

fun race_apply :: "pg_inet_ops \<Rightarrow> time \<Rightarrow> race_event \<Rightarrow> race_state \<Rightarrow> race_state option" where
  "race_apply PG now BeginLoad s =
     (if cache_valid CACHE_MS now (rc_cache s) \<or> rc_load s \<noteq> None then None
      else Some (s\<lparr>rc_load := Some Querying\<rparr>))"
| "race_apply PG now RunQuery s =
     (if rc_load s = Some Querying
      then Some (s\<lparr>rc_load := Some (Got (active_rules PG (rc_rows s) now))\<rparr>) else None)"
| "race_apply PG now FinishLoad s = (case rc_load s of
     Some (Got l) \<Rightarrow> Some (s\<lparr>rc_cache := Some (now, l), rc_load := None\<rparr>)
   | _ \<Rightarrow> None)"
| "race_apply PG now (Write rows) s = Some (s\<lparr>rc_rows := rows\<rparr>)"
| "race_apply PG now Invalidate s = Some (s\<lparr>rc_cache := None\<rparr>)"

fun race_run :: "pg_inet_ops \<Rightarrow> (time \<times> race_event) list \<Rightarrow> race_state \<Rightarrow> race_state option" where
  "race_run PG [] s = Some s"
| "race_run PG ((t, e) # es) s = (case race_apply PG t e s of None \<Rightarrow> None | Some s' \<Rightarrow> race_run PG es s')"

lemma active_rules_load: "active_rules PG (bs_rows s) now = load_bans PG s now"
  by (simp add: active_rules_def load_bans_def)

definition no_write :: "time \<times> race_event \<Rightarrow> bool" where
  "no_write e = (case snd e of Write _ \<Rightarrow> False | _ \<Rightarrow> True)"

text \<open>Everything the module holds came from the rows in the table, at some time.\<close>

definition current :: "pg_inet_ops \<Rightarrow> race_state \<Rightarrow> bool" where
  "current PG s \<longleftrightarrow>
     (\<forall>u l. rc_cache s = Some (u, l) \<longrightarrow> (\<exists>v. l = active_rules PG (rc_rows s) v)) \<and>
     (\<forall>l. rc_load s = Some (Got l) \<longrightarrow> (\<exists>v. l = active_rules PG (rc_rows s) v))"

lemma race_apply_current:
  "race_apply PG t e s = Some s' \<Longrightarrow> no_write (t, e) \<Longrightarrow> current PG s \<Longrightarrow>
    current PG s' \<and> rc_rows s' = rc_rows s"
  by (cases e) (auto simp: current_def no_write_def split: if_splits option.splits load_state.splits)

lemma race_run_current:
  "race_run PG es s = Some s' \<Longrightarrow> list_all no_write es \<Longrightarrow> current PG s \<Longrightarrow>
    current PG s' \<and> rc_rows s' = rc_rows s"
proof (induction es arbitrary: s)
  case (Cons e es)
  obtain t e' where e: "e = (t, e')" by (cases e)
  with Cons.prems obtain s1 where s1: "race_apply PG t e' s = Some s1" "race_run PG es s1 = Some s'"
    by (auto split: option.splits)
  have "current PG s1 \<and> rc_rows s1 = rc_rows s"
    using race_apply_current [OF s1(1)] Cons.prems e by simp
  with Cons.IH [OF s1(2)] Cons.prems show ?case by simp
qed simp

text \<open>
  C39: a change of the bans reaches the cache as long as no load is waiting with an answer. When a
  write and its \<open>invalidateBans\<close> find no result of an older query in flight, then from there on,
  whatever loads and checks follow, every list the cache holds was read from the new rows.
\<close>

theorem invalidate_sound:
  assumes "\<forall>l. rc_load s \<noteq> Some (Got l)" and "list_all no_write es"
    and "race_run PG ((t, Write rows) # (u, Invalidate) # es) s = Some s'"
    and "rc_cache s' = Some (v, l)"
  shows "rc_rows s' = rows \<and> (\<exists>w. l = active_rules PG rows w)"
proof -
  have "race_run PG es (s\<lparr>rc_rows := rows, rc_cache := None\<rparr>) = Some s'" using assms(3) by simp
  moreover have "current PG (s\<lparr>rc_rows := rows, rc_cache := None\<rparr>)"
    using assms(1) by (simp add: current_def)
  ultimately have "current PG s' \<and> rc_rows s' = rows"
    using race_run_current [of PG es "s\<lparr>rc_rows := rows, rc_cache := None\<rparr>" s'] assms(2) by simp
  with assms(4) show ?thesis by (auto simp: current_def)
qed

definition example_ban :: ban_row where
  "example_ban = \<lparr>ib_id = 1, ib_network = (V4 0x01020304, 32), ib_reason = None, ib_source = ManualBan,
     ib_createdBy = None, ib_createdAt = 2, ib_expiresAt = None, ib_liftedAt = None, ib_liftedBy = None,
     ib_hits = 0, ib_lastHitAt = None\<rparr>"

definition race_start :: race_state where
  "race_start = \<lparr>rc_rows = [], rc_cache = None, rc_load = None\<rparr>"

theorem invalidate_sound_witness:
  "\<exists>s' l w. race_run mem_pg
      [(0, Write [example_ban]), (1, Invalidate), (2, BeginLoad), (3, RunQuery), (4, FinishLoad)] race_start = Some s' \<and>
    rc_cache s' = Some (4, l) \<and> l = active_rules mem_pg [example_ban] w"
proof -
  let ?es = "[(2, BeginLoad), (3, RunQuery), (4, FinishLoad)]"
  define s' where "s' = race_start\<lparr>rc_rows := [example_ban], rc_load := None,
    rc_cache := Some (4, active_rules mem_pg [example_ban] 3)\<rparr>"
  have "race_run mem_pg ((0, Write [example_ban]) # (1, Invalidate) # ?es) race_start = Some s'"
    by (simp add: race_start_def cache_valid_def s'_def)
  moreover have "rc_cache s' = Some (4, active_rules mem_pg [example_ban] 3)" by (simp add: s'_def)
  ultimately show ?thesis
    using invalidate_sound [of race_start ?es mem_pg 0 "[example_ban]" 1 s' 4]
    by (force simp: race_start_def no_write_def)
qed


end
