(* ===== verification/Session.thy ===== *)
theory Session
  imports Models TtlCache
begin

text \<open>
  Sessions, \<open>apps/server/src/auth/session.ts\<close>: one cookie with the active session and one with
  every session the browser holds, so that it can stay signed in to several mailboxes.

  \<open>web\<close> holds the tables the file reads, the cache of disabled domains, and \<open>w_jar\<close>, the two
  cookies as the browser has them once it has taken the answer's \<open>Set-Cookie\<close> headers. A request
  reads the cookies it came with, the argument \<open>rq\<close>; what it sets does not change them. The
  random id of a new session is an argument of \<open>createSession\<close>.
\<close>

subsection \<open>State\<close>

record cookies =
  ck_session :: "string option"
  ck_accounts :: "string option"

record web =
  w_sessions :: "session_row list"
  w_mailboxes :: "mailbox_row list"
  w_domains :: "domain_row list"
  w_disabled :: "(time \<times> string list) option"
  w_jar :: cookies

type_synonym signed_in = "session_row \<times> mailbox_row"

definition TTL_MS :: int where "TTL_MS = 30 * 24 * 3600 * 1000"

definition REFRESH_AFTER_MS :: int where "REFRESH_AFTER_MS = 24 * 3600 * 1000"

definition MAX_COOKIE_IDS :: nat where "MAX_COOKIE_IDS = 16"

definition DISABLED_MS :: int where "DISABLED_MS = 15000"

subsection \<open>Disabled domains\<close>

definition load_disabled :: "web \<Rightarrow> time \<Rightarrow> string list" where
  "load_disabled s now = map dom_id (filter (\<lambda>d. \<not> dom_active d) (w_domains s))"

definition disabledDomainIds :: "time \<Rightarrow> web \<Rightarrow> string list \<times> web" where
  "disabledDomainIds now s =
     (let (v, c) = cached DISABLED_MS (load_disabled s) now (w_disabled s) in (v, s\<lparr>w_disabled := c\<rparr>))"

definition forgetDisabledDomains :: "web \<Rightarrow> web" where
  "forgetDisabledDomains s = s\<lparr>w_disabled := None\<rparr>"

definition canSignIn :: "mailbox_row \<Rightarrow> time \<Rightarrow> web \<Rightarrow> bool \<times> web" where
  "canSignIn u now s =
     (if mb_active u
      then (let (ids, s') = disabledDomainIds now s in (mb_domainId u \<notin> set ids, s'))
      else (False, s))"

subsection \<open>Cookies\<close>

definition setActive :: "string option \<Rightarrow> web \<Rightarrow> web" where
  "setActive i s = s\<lparr>w_jar := (w_jar s)\<lparr>ck_session := (if i = Some [] then None else i)\<rparr>\<rparr>"

definition readIds :: "cookies \<Rightarrow> string list" where
  "readIds rq =
     (let ids = filter (\<lambda>w. w \<noteq> []) (split_on (CHR ''.'') (case ck_accounts rq of None \<Rightarrow> [] | Some a \<Rightarrow> a));
          ids' = (case ck_session rq of
                    None \<Rightarrow> ids
                  | Some a \<Rightarrow> if a \<noteq> [] \<and> a \<notin> set ids then ids @ [a] else ids)
      in take MAX_COOKIE_IDS (distinct_first ids'))"

definition writeIds :: "string list \<Rightarrow> web \<Rightarrow> web" where
  "writeIds ids s = s\<lparr>w_jar := (w_jar s)\<lparr>ck_accounts := (if ids = [] then None else Some (join_with ''.'' ids))\<rparr>\<rparr>"

subsection \<open>Sessions\<close>

fun resolve_loop ::
    "session_row list \<Rightarrow> mailbox_row list \<Rightarrow> signed_in list \<Rightarrow> string list \<Rightarrow> signed_in list" where
  "resolve_loop sessions users out [] = out"
| "resolve_loop sessions users out (i # ids) =
     resolve_loop sessions users
       (case find (\<lambda>s. se_id s = i) sessions of
          None \<Rightarrow> out
        | Some se \<Rightarrow> (case find (\<lambda>u. mb_id u = se_mailboxId se) users of
            None \<Rightarrow> out
          | Some u \<Rightarrow> if list_ex (\<lambda>a. mb_id (snd a) = mb_id u) out then out else out @ [(se, u)]))
       ids"

definition resolve :: "string list \<Rightarrow> time \<Rightarrow> web \<Rightarrow> signed_in list \<times> web" where
  "resolve ids now s =
     (if ids = [] then ([], s)
      else (let sessions = filter (\<lambda>x. se_id x \<in> set ids \<and> se_expiresAt x > now) (w_sessions s);
                (disabled, s') = disabledDomainIds now s;
                users = filter (\<lambda>u. mb_domainId u \<notin> set disabled)
                  (filter (\<lambda>u. mb_id u \<in> set (map se_mailboxId sessions) \<and> mb_active u) (w_mailboxes s))
            in (resolve_loop sessions users [] ids, s')))"

definition new_session :: "string \<Rightarrow> string \<Rightarrow> string \<Rightarrow> string option \<Rightarrow> time \<Rightarrow> session_row" where
  "new_session i mailboxId ip userAgent now =
     (let ua = take 512 (case userAgent of None \<Rightarrow> [] | Some a \<Rightarrow> a)
      in \<lparr>se_id = i, se_mailboxId = mailboxId, se_createdAt = now, se_expiresAt = now + TTL_MS,
          se_ip = Some ip, se_userAgent = (if ua = [] then None else Some ua)\<rparr>)"

definition replaced_ids :: "string list \<Rightarrow> string \<Rightarrow> session_row list \<Rightarrow> string list" where
  "replaced_ids ids mailboxId sessions =
     map se_id (filter (\<lambda>x. se_id x \<in> set ids \<and> se_mailboxId x = mailboxId) sessions)"

definition createSession ::
    "cookies \<Rightarrow> string \<Rightarrow> string \<Rightarrow> string \<Rightarrow> string option \<Rightarrow> time \<Rightarrow> web \<Rightarrow> web" where
  "createSession rq i mailboxId ip userAgent now s =
     (let sessions = w_sessions s @ [new_session i mailboxId ip userAgent now];
          ids = readIds rq;
          replaced = replaced_ids ids mailboxId sessions
      in setActive (Some i)
           (writeIds (filter (\<lambda>x. x \<notin> set replaced) ids @ [i])
             (s\<lparr>w_sessions := destroy_where (\<lambda>x. se_id x \<in> set replaced) sessions\<rparr>)))"

definition loadSession :: "cookies \<Rightarrow> time \<Rightarrow> web \<Rightarrow> signed_in option \<times> web" where
  "loadSession rq now s = (case ck_session rq of
     None \<Rightarrow> (None, s)
   | Some i \<Rightarrow>
       if i = [] then (None, s)
       else (case find (\<lambda>x. se_id x = i) (w_sessions s) of
         None \<Rightarrow> (None, setActive None s)
       | Some se \<Rightarrow>
           if se_expiresAt se < now
           then (None, setActive None (s\<lparr>w_sessions := destroy_where (\<lambda>x. se_id x = i) (w_sessions s)\<rparr>))
           else (case find (\<lambda>u. mb_id u = se_mailboxId se) (w_mailboxes s) of
             None \<Rightarrow> (None, s)
           | Some u \<Rightarrow>
               (let (ok, s1) = canSignIn u now s
                in if \<not> ok then (None, s1)
                   else if se_expiresAt se - now < TTL_MS - REFRESH_AFTER_MS
                   then (Some (se\<lparr>se_expiresAt := now + TTL_MS\<rparr>, u),
                     writeIds (readIds rq) (setActive (Some i)
                       (s1\<lparr>w_sessions := update_where (\<lambda>x. se_id x = i) (\<lambda>x. x\<lparr>se_expiresAt := now + TTL_MS\<rparr>)
                          (w_sessions s1)\<rparr>)))
                   else (Some (se, u), s1)))))"

definition stale :: "time \<Rightarrow> signed_in \<Rightarrow> bool" where
  "stale now a \<longleftrightarrow> se_expiresAt (fst a) - now < TTL_MS - REFRESH_AFTER_MS"

definition loadAccounts :: "cookies \<Rightarrow> time \<Rightarrow> web \<Rightarrow> signed_in list \<times> web" where
  "loadAccounts rq now s =
     (let ids = readIds rq;
          (accounts, s1) = resolve ids now s;
          kept = map (\<lambda>a. se_id (fst a)) accounts;
          staleIds = map (\<lambda>a. se_id (fst a)) (filter (stale now) accounts);
          s2 = (if staleIds \<noteq> []
                then s1\<lparr>w_sessions := update_where (\<lambda>x. se_id x \<in> set staleIds)
                  (\<lambda>x. x\<lparr>se_expiresAt := now + TTL_MS\<rparr>) (w_sessions s1)\<rparr>
                else s1)
      in (accounts,
          if staleIds \<noteq> [] \<or> join_with ''.'' kept \<noteq> join_with ''.'' ids then writeIds kept s2 else s2))"

definition switchSession :: "cookies \<Rightarrow> string \<Rightarrow> time \<Rightarrow> web \<Rightarrow> mailbox_row option \<times> web" where
  "switchSession rq mailboxId now s =
     (let (accounts, s1) = loadAccounts rq now s
      in (case find (\<lambda>a. mb_id (snd a) = mailboxId) accounts of
            None \<Rightarrow> (None, s1)
          | Some hit \<Rightarrow> (Some (snd hit), setActive (Some (se_id (fst hit))) s1)))"

datatype which = ActiveOnly | Everyone | OneMailbox string

definition doomed_ids :: "cookies \<Rightarrow> signed_in list \<Rightarrow> which \<Rightarrow> string list" where
  "doomed_ids rq signedIn w = (case w of
     Everyone \<Rightarrow> readIds rq
   | OneMailbox m \<Rightarrow> map (\<lambda>a. se_id (fst a)) (filter (\<lambda>a. mb_id (snd a) = m) signedIn)
   | ActiveOnly \<Rightarrow> (case ck_session rq of None \<Rightarrow> [] | Some a \<Rightarrow> if a = [] then [] else [a]))"

definition next_account :: "cookies \<Rightarrow> signed_in list \<Rightarrow> signed_in option" where
  "next_account rq rest = (case find (\<lambda>a. Some (se_id (fst a)) = ck_session rq) rest of
     Some a \<Rightarrow> Some a
   | None \<Rightarrow> (case rest of [] \<Rightarrow> None | a # _ \<Rightarrow> Some a))"

definition destroySession :: "cookies \<Rightarrow> which \<Rightarrow> time \<Rightarrow> web \<Rightarrow> mailbox_row option \<times> web" where
  "destroySession rq w now s =
     (let (signedIn, s1) = resolve (readIds rq) now s;
          doomed = doomed_ids rq signedIn w;
          s2 = s1\<lparr>w_sessions := destroy_where (\<lambda>x. se_id x \<in> set doomed) (w_sessions s1)\<rparr>;
          rest = filter (\<lambda>a. se_id (fst a) \<notin> set doomed) signedIn;
          nxt = next_account rq rest
      in (map_option snd nxt,
          setActive (map_option (\<lambda>a. se_id (fst a)) nxt) (writeIds (map (\<lambda>a. se_id (fst a)) rest) s2)))"

definition destroyOtherSessions :: "string \<Rightarrow> string \<Rightarrow> web \<Rightarrow> web" where
  "destroyOtherSessions mailboxId keep s =
     s\<lparr>w_sessions := destroy_where (\<lambda>x. se_mailboxId x = mailboxId \<and> se_id x \<noteq> keep) (w_sessions s)\<rparr>"

definition purgeExpiredSessions :: "time \<Rightarrow> web \<Rightarrow> web" where
  "purgeExpiredSessions now s = s\<lparr>w_sessions := destroy_where (\<lambda>x. se_expiresAt x < now) (w_sessions s)\<rparr>"

subsection \<open>The accounts behind a list of ids\<close>

text \<open>The live account of a session id, given the disabled domains, and the first one per mailbox.\<close>

definition account :: "web \<Rightarrow> string list \<Rightarrow> time \<Rightarrow> string \<Rightarrow> signed_in option" where
  "account s disabled now i =
     (case find (\<lambda>x. se_expiresAt x > now \<and> se_id x = i) (w_sessions s) of
        None \<Rightarrow> None
      | Some se \<Rightarrow> map_option (Pair se)
          (find (\<lambda>u. mb_active u \<and> mb_domainId u \<notin> set disabled \<and> mb_id u = se_mailboxId se) (w_mailboxes s)))"

abbreviation first_per_mailbox :: "signed_in list \<Rightarrow> signed_in list \<Rightarrow> signed_in list" where
  "first_per_mailbox \<equiv> first_by (\<lambda>a. mb_id (snd a))"

lemma resolve_loop_accounts:
  assumes "\<And>i. i \<in> set ids \<Longrightarrow> find (\<lambda>s. se_id s = i) sessions = find (\<lambda>x. se_expiresAt x > now \<and> se_id x = i) (w_sessions w)"
    and "\<And>se. se \<in> set sessions \<Longrightarrow> find (\<lambda>u. mb_id u = se_mailboxId se) users =
      find (\<lambda>u. mb_active u \<and> mb_domainId u \<notin> set disabled \<and> mb_id u = se_mailboxId se) (w_mailboxes w)"
  shows "resolve_loop sessions users out ids = first_per_mailbox out (List.map_filter (account w disabled now) ids)"
  using assms(1)
proof (induction ids arbitrary: out)
  case Nil
  then show ?case by (simp add: map_filter_simps)
next
  case (Cons i ids)
  have i: "find (\<lambda>s. se_id s = i) sessions = find (\<lambda>x. se_expiresAt x > now \<and> se_id x = i) (w_sessions w)"
    using Cons.prems by simp
  have ih: "resolve_loop sessions users out ids = first_per_mailbox out (List.map_filter (account w disabled now) ids)" for out
    using Cons by simp
  show ?case
  proof (cases "find (\<lambda>s. se_id s = i) sessions")
    case None
    then have "account w disabled now i = None" using i by (simp add: account_def)
    with None ih show ?thesis by (simp add: map_filter_simps)
  next
    case (Some se)
    then have "se \<in> set sessions" by (auto dest: find_SomeD)
    then have acc: "account w disabled now i = map_option (Pair se) (find (\<lambda>u. mb_id u = se_mailboxId se) users)"
      using assms(2) Some i by (simp add: account_def)
    show ?thesis
      by (cases "find (\<lambda>u. mb_id u = se_mailboxId se) users")
        (simp_all add: map_filter_simps Some acc ih)
  qed
qed

lemma resolve_accounts:
  "fst (resolve ids now s) =
    first_per_mailbox [] (List.map_filter (account s (fst (disabledDomainIds now s)) now) ids)"
proof (cases "ids = []")
  case True
  then show ?thesis by (simp add: resolve_def map_filter_simps)
next
  case False
  let ?d = "fst (disabledDomainIds now s)"
  let ?ss = "filter (\<lambda>x. se_id x \<in> set ids \<and> se_expiresAt x > now) (w_sessions s)"
  let ?us = "filter (\<lambda>u. mb_domainId u \<notin> set ?d)
    (filter (\<lambda>u. mb_id u \<in> set (map se_mailboxId ?ss) \<and> mb_active u) (w_mailboxes s))"
  have "resolve_loop ?ss ?us [] ids = first_per_mailbox [] (List.map_filter (account s ?d now) ids)"
    by (rule resolve_loop_accounts)
      (auto simp: find_filter conj_commute conj_left_commute intro!: find_cong_set)
  with False show ?thesis by (simp add: resolve_def Let_def case_prod_beta)
qed

lemma resolve_state: "snd (resolve ids now s) = (if ids = [] then s else snd (disabledDomainIds now s))"
  by (simp add: resolve_def Let_def case_prod_beta)

subsection \<open>The cookie with the ids\<close>

definition sid_ok :: "string \<Rightarrow> bool" where
  "sid_ok i \<longleftrightarrow> i \<noteq> [] \<and> CHR ''.'' \<notin> set i"

lemma readIds_written:
  assumes "\<forall>i \<in> set ids. sid_ok i" and "distinct ids" and "length ids \<le> MAX_COOKIE_IDS"
    and "\<forall>a. active = Some a \<longrightarrow> a \<in> set ids"
  shows "readIds \<lparr>ck_session = active, ck_accounts = (if ids = [] then None else Some (join_with ''.'' ids))\<rparr> = ids"
proof -
  have "split_on (CHR ''.'') (join_with ''.'' ids) = ids" if "ids \<noteq> []"
    using that assms(1) by (intro split_join) (auto simp: sid_ok_def)
  moreover have "filter (\<lambda>w. w \<noteq> []) ids = ids" using assms(1) by (auto simp: sid_ok_def filter_id_conv)
  ultimately show ?thesis
    using assms(2-4) by (cases active) (auto simp: readIds_def Let_def distinct_first_id)
qed


lemma distinct_readIds: "distinct (readIds rq)"
  by (simp add: readIds_def Let_def)

lemma readIds_ok:
  assumes "\<forall>a. ck_session rq = Some a \<longrightarrow> CHR ''.'' \<notin> set a" and "i \<in> set (readIds rq)"
  shows "sid_ok i"
proof -
  have "i \<in> set (filter (\<lambda>w. w \<noteq> []) (split_on (CHR ''.'') (case ck_accounts rq of None \<Rightarrow> [] | Some a \<Rightarrow> a))) \<or>
      (\<exists>a. ck_session rq = Some a \<and> a \<noteq> [] \<and> i = a)"
    using assms(2) by (auto simp: readIds_def Let_def split: option.splits if_splits dest!: in_set_takeD)
  then show ?thesis using assms(1) split_on_parts by (force simp: sid_ok_def)
qed

subsection \<open>The cache of disabled domains\<close>

definition setDomainActive :: "string \<Rightarrow> bool \<Rightarrow> web \<Rightarrow> web" where
  \<comment> \<open>an admin's change of a domain, which calls \<open>forgetDisabledDomains\<close>\<close>
  "setDomainActive d b s = forgetDisabledDomains
     (s\<lparr>w_domains := update_where (\<lambda>x. dom_id x = d) (\<lambda>x. x\<lparr>dom_active := b\<rparr>) (w_domains s)\<rparr>)"

inductive web_step :: "time \<Rightarrow> web \<Rightarrow> web \<Rightarrow> bool" where
  step_create: "web_step now s (createSession rq i m ip ua now s)"
| step_load: "web_step now s (snd (loadSession rq now s))"
| step_accounts: "web_step now s (snd (loadAccounts rq now s))"
| step_switch: "web_step now s (snd (switchSession rq m now s))"
| step_destroy: "web_step now s (snd (destroySession rq w now s))"
| step_others: "web_step now s (destroyOtherSessions m keep s)"
| step_purge: "web_step now s (purgeExpiredSessions now s)"
| step_domain: "web_step now s (setDomainActive d b s)"

inductive_cases web_stepE: "web_step now s s'"

lemma keeps_disabled:
  "w_domains s' = w_domains s \<Longrightarrow>
    w_disabled s' = w_disabled s \<or> w_disabled s' = snd (cached DISABLED_MS (load_disabled s) now (w_disabled s)) \<Longrightarrow>
    keeps_cache load_disabled w_disabled now s s'"
proof (erule disjE)
  assume "w_domains s' = w_domains s"
  then have l: "load_disabled s' = load_disabled s" by (simp add: load_disabled_def fun_eq_iff)
  show "w_disabled s' = w_disabled s \<Longrightarrow> ?thesis" using l by (rule keeps_cache_same)
  show "w_disabled s' = snd (cached DISABLED_MS (load_disabled s) now (w_disabled s)) \<Longrightarrow> ?thesis"
    using l by (rule keeps_cache_read)
qed

lemma disabledDomainIds_state:
  "snd (disabledDomainIds now s) = s\<lparr>w_disabled := snd (cached DISABLED_MS (load_disabled s) now (w_disabled s))\<rparr>"
  by (simp add: disabledDomainIds_def Let_def case_prod_beta)

lemma canSignIn_state:
  "snd (canSignIn u now s) = s \<or> snd (canSignIn u now s) = snd (disabledDomainIds now s)"
  by (simp add: canSignIn_def Let_def case_prod_beta)

lemma set_jar [simp]:
  "w_domains (setActive i s) = w_domains s" "w_disabled (setActive i s) = w_disabled s"
  "w_sessions (setActive i s) = w_sessions s" "w_mailboxes (setActive i s) = w_mailboxes s"
  "w_domains (writeIds ids s) = w_domains s" "w_disabled (writeIds ids s) = w_disabled s"
  "w_sessions (writeIds ids s) = w_sessions s" "w_mailboxes (writeIds ids s) = w_mailboxes s"
  by (simp_all add: setActive_def writeIds_def)

lemma loadAccounts_state:
  "w_domains (snd (loadAccounts rq now s)) = w_domains s \<and>
   (w_disabled (snd (loadAccounts rq now s)) = w_disabled s \<or>
    w_disabled (snd (loadAccounts rq now s)) = snd (cached DISABLED_MS (load_disabled s) now (w_disabled s)))"
  by (simp add: loadAccounts_def Let_def case_prod_beta resolve_state disabledDomainIds_state)

lemma loadSession_state:
  "w_domains (snd (loadSession rq now s)) = w_domains s \<and>
   (w_disabled (snd (loadSession rq now s)) = w_disabled s \<or>
    w_disabled (snd (loadSession rq now s)) = snd (cached DISABLED_MS (load_disabled s) now (w_disabled s)))"
proof -
  have c: "w_domains (snd (canSignIn u now s)) = w_domains s \<and>
      (w_disabled (snd (canSignIn u now s)) = w_disabled s \<or>
       w_disabled (snd (canSignIn u now s)) = snd (cached DISABLED_MS (load_disabled s) now (w_disabled s)))" for u
    using canSignIn_state [of u now s] by (auto simp: disabledDomainIds_state)
  show ?thesis
    using c unfolding loadSession_def Let_def case_prod_beta by (simp split: option.split)
qed

lemma web_step_keeps: "web_step now s s' \<Longrightarrow> keeps_cache load_disabled w_disabled now s s'"
proof (erule web_stepE)
  fix rq m assume "s' = snd (switchSession rq m now s)"
  then show ?thesis
    using loadAccounts_state [of rq now s]
    by (intro keeps_disabled) (auto simp: switchSession_def Let_def case_prod_beta split: option.split)
next
  fix rq w assume "s' = snd (destroySession rq w now s)"
  then show ?thesis
    by (intro keeps_disabled) (auto simp: destroySession_def Let_def case_prod_beta resolve_state disabledDomainIds_state)
next
  fix d b assume "s' = setDomainActive d b s"
  then show ?thesis by (intro keeps_cache_drop) (simp add: setDomainActive_def forgetDisabledDomains_def)
next
  fix rq assume "s' = snd (loadAccounts rq now s)"
  then show ?thesis using loadAccounts_state [of rq now s] by (intro keeps_disabled) auto
next
  fix rq assume "s' = snd (loadSession rq now s)"
  then show ?thesis using loadSession_state [of rq now s] by (intro keeps_disabled) auto
qed (auto intro!: keeps_disabled simp: createSession_def Let_def destroyOtherSessions_def purgeExpiredSessions_def)

interpretation domain_cache: ttl_cache DISABLED_MS load_disabled w_disabled web_step
  by unfold_locales (simp_all add: DISABLED_MS_def web_step_keeps)

subsection \<open>Properties\<close>

lemma disabled_same:
  "w_domains s' = w_domains s \<Longrightarrow> w_disabled s' = w_disabled s \<Longrightarrow>
    fst (disabledDomainIds now s') = fst (disabledDomainIds now s)"
proof -
  assume "w_domains s' = w_domains s" and c: "w_disabled s' = w_disabled s"
  then have l: "load_disabled s' = load_disabled s" by (simp add: load_disabled_def fun_eq_iff)
  show ?thesis by (simp only: disabledDomainIds_def Let_def case_prod_beta fst_conv c l)
qed

definition web_ok :: "web \<Rightarrow> bool" where
  \<comment> \<open>primary keys\<close>
  "web_ok s \<longleftrightarrow> distinct (map se_id (w_sessions s)) \<and> distinct (map mb_id (w_mailboxes s))"

definition usable :: "web \<Rightarrow> time \<Rightarrow> mailbox_row \<Rightarrow> bool" where
  "usable s now u \<longleftrightarrow> u \<in> set (w_mailboxes s) \<and> fst (canSignIn u now s)"

lemma usable_iff:
  "usable s now u \<longleftrightarrow> u \<in> set (w_mailboxes s) \<and> mb_active u \<and> mb_domainId u \<notin> set (fst (disabledDomainIds now s))"
  by (simp add: usable_def canSignIn_def Let_def case_prod_beta)

lemma account_Some:
  assumes "web_ok s"
  shows "account s (fst (disabledDomainIds now s)) now i = Some (se, u) \<longleftrightarrow>
    se \<in> set (w_sessions s) \<and> se_id se = i \<and> now < se_expiresAt se \<and> mb_id u = se_mailboxId se \<and> usable s now u"
proof
  assume "account s (fst (disabledDomainIds now s)) now i = Some (se, u)"
  then show "se \<in> set (w_sessions s) \<and> se_id se = i \<and> now < se_expiresAt se \<and> mb_id u = se_mailboxId se \<and> usable s now u"
    by (auto simp: account_def usable_iff split: option.splits dest!: find_SomeD)
next
  let ?d = "fst (disabledDomainIds now s)"
  assume a: "se \<in> set (w_sessions s) \<and> se_id se = i \<and> now < se_expiresAt se \<and> mb_id u = se_mailboxId se \<and> usable s now u"
  have "find (\<lambda>x. se_expiresAt x > now \<and> se_id x = i) (w_sessions s) = find (\<lambda>x. se_id x = i) (w_sessions s)"
    using assms a by (intro find_cong_set) (auto simp: web_ok_def dest: distinct_keyD)
  moreover have "find (\<lambda>x. mb_active x \<and> mb_domainId x \<notin> set ?d \<and> mb_id x = se_mailboxId se) (w_mailboxes s) =
      find (\<lambda>x. mb_id x = mb_id u) (w_mailboxes s)"
    using assms a by (intro find_cong_set) (auto simp: web_ok_def usable_iff dest: distinct_keyD)
  ultimately show "account s ?d now i = Some (se, u)"
    using assms a find_unique [of se_id "w_sessions s" se] find_unique [of mb_id "w_mailboxes s" u]
    by (simp add: account_def web_ok_def usable_iff)
qed

lemma map_filter_eq_filter:
  assumes "\<And>x a. x \<in> set xs \<Longrightarrow> f x = Some a \<Longrightarrow> P x \<longleftrightarrow> Q a"
    and "\<And>x. x \<in> set xs \<Longrightarrow> P x \<Longrightarrow> g x = f x"
  shows "List.map_filter g (filter P xs) = filter Q (List.map_filter f xs)"
  using assms
proof (induction xs)
  case (Cons x xs)
  then have ih: "List.map_filter g (filter P xs) = filter Q (List.map_filter f xs)" by simp
  show ?case using ih Cons.prems(1) [of x] Cons.prems(2) [of x]
    by (cases "P x"; cases "f x") (simp_all add: map_filter_simps)
qed (simp add: map_filter_simps)

lemma map_filter_append: "List.map_filter f (xs @ ys) = List.map_filter f xs @ List.map_filter f ys"
  by (simp add: List.map_filter_def)

lemma loadSession_found:
  assumes "web_ok s" and "ck_session rq = Some i" "i \<noteq> []" "se \<in> set (w_sessions s)" "se_id se = i"
    "now \<le> se_expiresAt se" "mb_id u = se_mailboxId se" "usable s now u"
  shows "fst (loadSession rq now s) = Some
    (if se_expiresAt se - now < TTL_MS - REFRESH_AFTER_MS then se\<lparr>se_expiresAt := now + TTL_MS\<rparr> else se, u)"
proof -
  have "find (\<lambda>x. se_id x = i) (w_sessions s) = Some se"
    using find_unique [of se_id "w_sessions s" se] assms by (simp add: web_ok_def)
  moreover have "find (\<lambda>x. mb_id x = se_mailboxId se) (w_mailboxes s) = Some u"
    using find_unique [of mb_id "w_mailboxes s" u] assms by (simp add: web_ok_def usable_def)
  ultimately show ?thesis
    using assms by (simp add: loadSession_def Let_def case_prod_beta usable_def)
qed

text \<open>
  C16: signing in adds one account and disturbs no other. After \<open>createSession\<close> for a mailbox, the
  browser's cookies stand for exactly the accounts it had before, in the same order, without an
  older session of that mailbox, and the new session at the end; the new session is the active one.
  The sessions the new one replaces are gone from the table.
\<close>

theorem createSession_accounts:
  assumes ok: "web_ok s" and u: "usable s now u"
    and fresh: "i \<notin> se_id ` set (w_sessions s)" "i \<notin> set (readIds rq)" "sid_ok i"
    and rq: "\<forall>a. ck_session rq = Some a \<longrightarrow> CHR ''.'' \<notin> set a" "length (readIds rq) < MAX_COOKIE_IDS"
  shows "let s' = createSession rq i (mb_id u) ip ua now s;
             row = last (w_sessions s')
         in se_id row = i \<and> se_mailboxId row = mb_id u \<and> se_expiresAt row = now + TTL_MS \<and>
            fst (resolve (readIds (w_jar s')) now s') =
              filter (\<lambda>a. mb_id (snd a) \<noteq> mb_id u) (fst (resolve (readIds rq) now s)) @ [(row, u)] \<and>
            fst (loadSession (w_jar s') now s') = Some (row, u) \<and>
            (\<forall>x \<in> set (w_sessions s'). se_id x \<in> set (readIds rq) \<longrightarrow> se_mailboxId x \<noteq> mb_id u)"
proof -
  let ?row = "new_session i (mb_id u) ip ua now"
  let ?ids = "readIds rq" and ?d = "fst (disabledDomainIds now s)"
  let ?rep = "replaced_ids ?ids (mb_id u) (w_sessions s)"
  let ?ss = "destroy_where (\<lambda>x. se_id x \<in> set ?rep) (w_sessions s) @ [?row]"
  let ?ids' = "filter (\<lambda>x. x \<notin> set ?rep) ?ids @ [i]"
  define s' where "s' = createSession rq i (mb_id u) ip ua now s"
  have row: "se_id ?row = i" "se_mailboxId ?row = mb_id u" "se_expiresAt ?row = now + TTL_MS"
    by (simp_all add: new_session_def Let_def)
  have rep: "replaced_ids ?ids (mb_id u) (w_sessions s @ [?row]) = ?rep"
    using fresh(2) row by (simp add: replaced_ids_def)
  have in_rep: "x \<in> set ?rep \<longleftrightarrow> x \<in> set ?ids \<and> (\<exists>y \<in> set (w_sessions s). se_id y = x \<and> se_mailboxId y = mb_id u)" for x
    by (auto simp: replaced_ids_def)
  have "destroy_where (\<lambda>x. se_id x \<in> set ?rep) (w_sessions s @ [?row]) = ?ss"
    using fresh(2) row in_rep by (simp add: destroy_where_def)
  then have s': "s' = setActive (Some i) (writeIds ?ids' (s\<lparr>w_sessions := ?ss\<rparr>))"
    by (simp only: s'_def createSession_def Let_def rep)
  have ss: "w_sessions s' = ?ss" and mb: "w_mailboxes s' = w_mailboxes s" by (simp_all add: s')
  have d: "fst (disabledDomainIds now s') = ?d" by (rule disabled_same) (simp_all add: s')
  have ok': "web_ok s'"
    using ok fresh(1) distinct_destroy_where [of se_id "w_sessions s"] row
    by (auto simp: web_ok_def ss mb table_simps)
  have use: "usable s' now v = usable s now v" for v by (simp add: usable_iff d mb)
  have jar: "ck_session (w_jar s') = Some i" using fresh(3) by (simp add: s' setActive_def sid_ok_def)
  have ids: "readIds (w_jar s') = ?ids'"
  proof -
    have "w_jar s' = \<lparr>ck_session = Some i, ck_accounts = (if ?ids' = [] then None else Some (join_with ''.'' ?ids'))\<rparr>"
      using fresh(3) by (simp add: s' setActive_def writeIds_def sid_ok_def)
    moreover have "length (filter (\<lambda>x. x \<notin> set ?rep) ?ids) < MAX_COOKIE_IDS"
      using rq(2) length_filter_le by (rule le_less_trans [rotated])
    ultimately show ?thesis
      using readIds_ok [OF rq(1)] fresh distinct_readIds [of rq]
      by (simp only:) (rule readIds_written, auto)
  qed
  have old: "account s' ?d now x = account s ?d now x" if "x \<in> set ?ids" "x \<notin> set ?rep" for x
  proof -
    have "find (\<lambda>y. now < se_expiresAt y \<and> se_id y = x) ?ss = find (\<lambda>y. now < se_expiresAt y \<and> se_id y = x) (w_sessions s)"
    proof -
      have "find (\<lambda>y. now < se_expiresAt y \<and> se_id y = x) (filter (\<lambda>r. se_id r \<notin> set ?rep) (w_sessions s)) =
          find (\<lambda>y. now < se_expiresAt y \<and> se_id y = x) (w_sessions s)"
        unfolding find_filter by (rule find_cong_set) (use that(2) in auto)
      moreover have "x \<noteq> i" using that(1) fresh(2) by auto
      ultimately show ?thesis
        by (simp add: destroy_where_def find_append row split: option.split)
    qed
    then show ?thesis by (simp only: account_def ss mb)
  qed
  have new: "account s' ?d now i = Some (?row, u)"
    using account_Some [OF ok', of now i ?row u] u row by (simp add: d ss use TTL_MS_def)
  have mail: "x \<notin> set ?rep \<longleftrightarrow> mb_id (snd a) \<noteq> mb_id u" if "x \<in> set ?ids" "account s ?d now x = Some a" for x a
  proof -
    obtain se v where a: "a = (se, v)" by (cases a)
    with that account_Some [OF ok, of now x se v] have
      "se \<in> set (w_sessions s)" "se_id se = x" "mb_id v = se_mailboxId se" by auto
    with ok that(1) a show ?thesis unfolding in_rep by (auto simp: web_ok_def dest: distinct_keyD)
  qed
  have "List.map_filter (account s' ?d now) (filter (\<lambda>x. x \<notin> set ?rep) ?ids) =
      filter (\<lambda>a. mb_id (snd a) \<noteq> mb_id u) (List.map_filter (account s ?d now) ?ids)"
    by (rule map_filter_eq_filter [OF mail old])
  then have "fst (resolve ?ids' now s') =
      first_per_mailbox (filter (\<lambda>a. mb_id (snd a) \<noteq> mb_id u) (fst (resolve ?ids now s))) [(?row, u)]"
    using first_by_filter [of "\<lambda>a. mb_id (snd a)" "mb_id u" "[]" "List.map_filter (account s ?d now) ?ids"]
    by (simp only: resolve_accounts d map_filter_append first_by_append)
      (simp add: map_filter_simps new)
  also have "\<dots> = filter (\<lambda>a. mb_id (snd a) \<noteq> mb_id u) (fst (resolve ?ids now s)) @ [(?row, u)]"
    by (auto simp: list_ex_iff)
  finally have res: "fst (resolve ?ids' now s') = \<dots>" .
  have "fst (loadSession (w_jar s') now s') = Some (?row, u)"
    using loadSession_found [OF ok', of "w_jar s'" i ?row now u] fresh(3) u
    by (simp add: ss use row jar TTL_MS_def REFRESH_AFTER_MS_def sid_ok_def)
  moreover have "\<forall>x \<in> set ?ss. se_id x \<in> set ?ids \<longrightarrow> se_mailboxId x \<noteq> mb_id u"
    using fresh(2) row in_rep by (auto simp: table_simps)
  ultimately show ?thesis
    using res by (simp add: Let_def s'_def [symmetric] ss ids row)
qed

subsubsection \<open>Switching and signing out\<close>








lemma resolve_tables [simp]:
  "w_sessions (snd (resolve ids now s)) = w_sessions s" "w_mailboxes (snd (resolve ids now s)) = w_mailboxes s"
  "w_jar (snd (resolve ids now s)) = w_jar s" "w_domains (snd (resolve ids now s)) = w_domains s"
  by (simp_all add: resolve_state disabledDomainIds_state)






lemma loadSession_SomeD:
  "loadSession rq now s = (Some (se, u), s') \<Longrightarrow>
    \<exists>i row. ck_session rq = Some i \<and> find (\<lambda>x. se_id x = i) (w_sessions s) = Some row \<and>
      now \<le> se_expiresAt row \<and> find (\<lambda>x. mb_id x = se_mailboxId row) (w_mailboxes s) = Some u \<and>
      fst (canSignIn u now s) \<and> se_id se = se_id row"
  by (auto simp: loadSession_def Let_def case_prod_beta split: option.splits if_splits)

text \<open>
  C20: nobody is signed in without a live session of an active mailbox in a domain that was enabled.
  When a request is let in as a mailbox, after any run of the module's operations, the cookie names
  a row of the session table that belongs to this mailbox and has not expired, the mailbox is
  active, and at some moment of the last fifteen seconds its domain was not disabled.
\<close>

theorem loadSession_sound:
  assumes "run web_step t0 s0 now s" and "w_disabled s0 = None"
    and "loadSession rq now s = (Some (se, u), s')"
  shows "\<exists>row \<in> set (w_sessions s). ck_session rq = Some (se_id row) \<and> se_id se = se_id row \<and>
    se_mailboxId row = mb_id u \<and> now \<le> se_expiresAt row \<and> u \<in> set (w_mailboxes s) \<and> mb_active u \<and>
    (\<exists>v. now - DISABLED_MS < v \<and> v \<le> now \<and> mb_domainId u \<notin> set (load_disabled s v))"
proof -
  obtain v where v: "now - DISABLED_MS < v" "v \<le> now" "fst (disabledDomainIds now s) = load_disabled s v"
    using domain_cache.cached_recent [OF assms(1,2)]
    by (auto simp: disabledDomainIds_def Let_def case_prod_beta)
  from loadSession_SomeD [OF assms(3)] obtain i row where i: "ck_session rq = Some i"
    "find (\<lambda>x. se_id x = i) (w_sessions s) = Some row"
    "now \<le> se_expiresAt row" "find (\<lambda>x. mb_id x = se_mailboxId row) (w_mailboxes s) = Some u"
    "fst (canSignIn u now s)" "se_id se = se_id row" by blast
  moreover from this(5) v(3) have "mb_active u" "mb_domainId u \<notin> set (load_disabled s v)"
    by (auto simp: canSignIn_def Let_def case_prod_beta split: if_splits)
  ultimately show ?thesis using v(1,2) by (auto dest!: find_SomeD)
qed






text \<open>
  A new password ends every other session. After \<open>destroyOtherSessions\<close> no browser but the one
  with the kept session is let in as that mailbox, and the sessions of all other mailboxes are
  untouched.
\<close>

theorem destroyOtherSessions_revokes:
  "(\<forall>rq now se u s'. loadSession rq now (destroyOtherSessions m keep s) = (Some (se, u), s') \<and> mb_id u = m \<longrightarrow>
      ck_session rq = Some keep) \<and>
    filter (\<lambda>x. se_mailboxId x \<noteq> m) (w_sessions (destroyOtherSessions m keep s)) =
      filter (\<lambda>x. se_mailboxId x \<noteq> m) (w_sessions s)"
proof (intro conjI allI impI)
  fix rq now se u s'
  assume "loadSession rq now (destroyOtherSessions m keep s) = (Some (se, u), s') \<and> mb_id u = m"
  then obtain i row where "ck_session rq = Some i"
    "find (\<lambda>x. se_id x = i) (w_sessions (destroyOtherSessions m keep s)) = Some row"
    "find (\<lambda>x. mb_id x = se_mailboxId row) (w_mailboxes (destroyOtherSessions m keep s)) = Some u" "mb_id u = m"
    using loadSession_SomeD by blast
  then show "ck_session rq = Some keep"
    by (auto simp: destroyOtherSessions_def table_simps dest!: find_SomeD)
next
  show "filter (\<lambda>x. se_mailboxId x \<noteq> m) (w_sessions (destroyOtherSessions m keep s)) =
      filter (\<lambda>x. se_mailboxId x \<noteq> m) (w_sessions s)"
    by (auto simp: destroyOtherSessions_def destroy_where_def intro!: filter_cong)
qed

subsection \<open>The properties on an example\<close>

definition ex_mailbox :: "string \<Rightarrow> mailbox_row" where
  "ex_mailbox i = \<lparr>mb_id = i, mb_domainId = ''d'', mb_localPart = i, mb_email = i @ ''@example.org'',
     mb_passwordHash = '''', mb_displayName = '''', mb_signature = None, mb_quotaBytes = 0, mb_isAdmin = False,
     mb_active = True, mb_receiveMail = True, mb_remoteContentAllow = [], mb_createdAt = 0\<rparr>"

definition ex_session :: "string \<Rightarrow> string \<Rightarrow> session_row" where
  "ex_session i m = \<lparr>se_id = i, se_mailboxId = m, se_createdAt = 0, se_expiresAt = 1000, se_ip = None, se_userAgent = None\<rparr>"

definition ex_web :: web where
  "ex_web = \<lparr>w_sessions = [ex_session ''s1'' ''ann'', ex_session ''s2'' ''bob''],
     w_mailboxes = [ex_mailbox ''ann'', ex_mailbox ''bob''],
     w_domains = [\<lparr>dom_id = ''d'', dom_name = ''example.org'', dom_active = True, dom_dkimSelector = '''',
       dom_dkimPrivateKeyPem = '''', dom_dkimPublicKeyB64 = '''', dom_createdAt = 0\<rparr>],
     w_disabled = None, w_jar = \<lparr>ck_session = Some ''s1'', ck_accounts = Some ''s1.s2''\<rparr>\<rparr>"

lemma ex_web_facts:
  "web_ok ex_web" "usable ex_web 5 (ex_mailbox ''bob'')" "''s3'' \<notin> se_id ` set (w_sessions ex_web)"
  "''s3'' \<notin> set (readIds (w_jar ex_web))" "sid_ok ''s3''" "length (readIds (w_jar ex_web)) < MAX_COOKIE_IDS"
  "readIds (w_jar ex_web) = [''s1'', ''s2'']" "w_disabled ex_web = None"
  by code_simp+

lemma ex_jar: "\<forall>a. ck_session (w_jar ex_web) = Some a \<longrightarrow> CHR ''.'' \<notin> set a"
  by (simp add: ex_web_def)

theorem createSession_accounts_witness:
  "fst (resolve (readIds (w_jar (createSession (w_jar ex_web) ''s3'' ''bob'' ''1.2.3.4'' None 5 ex_web))) 5
      (createSession (w_jar ex_web) ''s3'' ''bob'' ''1.2.3.4'' None 5 ex_web)) =
    [(ex_session ''s1'' ''ann'', ex_mailbox ''ann''), (new_session ''s3'' ''bob'' ''1.2.3.4'' None 5, ex_mailbox ''bob'')]"
proof -
  have 1: "mb_id (ex_mailbox ''bob'') = ''bob''" by (simp add: ex_mailbox_def)
  have 2: "last (w_sessions (createSession (w_jar ex_web) ''s3'' ''bob'' ''1.2.3.4'' None 5 ex_web)) =
      new_session ''s3'' ''bob'' ''1.2.3.4'' None 5"
    by code_simp
  have 3: "filter (\<lambda>a. mb_id (snd a) \<noteq> ''bob'') (fst (resolve (readIds (w_jar ex_web)) 5 ex_web)) =
      [(ex_session ''s1'' ''ann'', ex_mailbox ''ann'')]"
    by code_simp
  show ?thesis
    using createSession_accounts [OF ex_web_facts(1-5) ex_jar ex_web_facts(6), of "''1.2.3.4''" None]
    by (simp only: Let_def 1 2 3 append.simps)
qed



theorem loadSession_sound_witness:
  "\<exists>row \<in> set (w_sessions ex_web). ck_session (w_jar ex_web) = Some (se_id row) \<and> se_mailboxId row = ''ann''"
proof -
  have "map_option (\<lambda>(se, u). mb_id u) (fst (loadSession (w_jar ex_web) 5 ex_web)) = Some ''ann''" by code_simp
  then obtain se u s' where e: "loadSession (w_jar ex_web) 5 ex_web = (Some (se, u), s')" and u: "mb_id u = ''ann''"
    by (cases "loadSession (w_jar ex_web) 5 ex_web") auto
  have "run web_step 0 ex_web 5 ex_web" by (rule run_refl) simp
  from loadSession_sound [OF this ex_web_facts(8) e] u show ?thesis by auto
qed



theorem destroyOtherSessions_revokes_witness:
  "filter (\<lambda>x. se_mailboxId x \<noteq> ''ann'') (w_sessions (destroyOtherSessions ''ann'' ''s9'' ex_web)) =
    [ex_session ''s2'' ''bob'']"
proof -
  have "filter (\<lambda>x. se_mailboxId x \<noteq> ''ann'') (w_sessions ex_web) = [ex_session ''s2'' ''bob'']" by code_simp
  then show ?thesis using destroyOtherSessions_revokes [of "''ann''" "''s9''" ex_web] by simp
qed

end
