(* ===== verification/Paging.thy ===== *)
theory Paging
  imports Models
begin

text \<open>
  Paging and searching, \<open>apps/server/src/activity/paging.ts\<close>. \<open>ilike\<close> is PostgreSQL's ILIKE
  with the default escape character, on strings compared without regard to case. The locale
  \<open>paged_list\<close> is the contract of the endpoints that page through a table by descending id; under
  it a client that follows the cursors sees every matching row exactly once.
\<close>

record 't page =
  pg_items :: "'t list"
  pg_nextCursor :: "string option"

definition pageOf :: "('r \<Rightarrow> nat) \<Rightarrow> 'r list \<Rightarrow> nat \<Rightarrow> ('r \<Rightarrow> 't) \<Rightarrow> 't page" where
  "pageOf ident rows limit dto =
     (let more = length rows > limit;
          items = (if more then take limit rows else rows)
      in \<lparr>pg_items = map dto items,
          pg_nextCursor = (if more then Some (show_nat (ident (last items))) else None)\<rparr>)"

fun like_escape :: "string \<Rightarrow> string" where
  "like_escape [] = []"
| "like_escape (c # s) = (if c \<in> set [CHR 0x5C, CHR ''%'', CHR ''_''] then [CHR 0x5C, c] else [c]) @ like_escape s"

definition likePattern :: "string \<Rightarrow> string" where
  "likePattern q = ''%'' @ like_escape q @ ''%''"

definition pageParams :: "rat option \<Rightarrow> string option \<Rightarrow> rat \<Rightarrow> rat \<times> string option" where
  \<comment> \<open>the limit as \<open>Number\<close> reads it, None for NaN\<close>
  "pageParams n before mx =
     (let limit = min (max (case n of None \<Rightarrow> 50 | Some x \<Rightarrow> if x = 0 then 50 else x) 1) mx
      in (limit, case before of None \<Rightarrow> None | Some b \<Rightarrow> if all_digits b then Some b else None))"

subsection \<open>ILIKE\<close>

function (sequential) like_match :: "string \<Rightarrow> string \<Rightarrow> bool" where
  "like_match [] s = (s = [])"
| "like_match (p # ps) s =
     (if p = CHR ''%'' then (like_match ps s \<or> (case s of [] \<Rightarrow> False | c # s' \<Rightarrow> like_match (p # ps) s'))
      else if p = CHR ''_'' then (case s of [] \<Rightarrow> False | c # s' \<Rightarrow> like_match ps s')
      else if p = CHR 0x5C \<and> ps \<noteq> [] then (case s of [] \<Rightarrow> False | c # s' \<Rightarrow> c = hd ps \<and> like_match (tl ps) s')
      else (case s of [] \<Rightarrow> False | c # s' \<Rightarrow> c = p \<and> like_match ps s'))"
  by pat_completeness auto
termination by (relation "measure (\<lambda>(p, s). length p + length s)") auto

declare like_match.simps [simp del]

definition ilike :: "string \<Rightarrow> string \<Rightarrow> bool" where
  "ilike p s \<longleftrightarrow> like_match (js_lower p) (js_lower s)"

lemma like_match_percent: "like_match (CHR ''%'' # ps) s \<longleftrightarrow> (\<exists>t. suffix t s \<and> like_match ps t)"
proof (induction s)
  case Nil
  then show ?case by (subst like_match.simps) simp
next
  case (Cons c s)
  then show ?case
    by (subst like_match.simps) (auto simp: suffix_Cons)
qed

lemma like_match_escape: "like_match (like_escape q @ ps) s \<longleftrightarrow> (\<exists>t. s = q @ t \<and> like_match ps t)"
proof (induction q arbitrary: s)
  case (Cons c q)
  show ?case
    by (cases s) (auto simp: like_match.simps(2) [of c] like_match.simps(2) [of "CHR 0x5C"] Cons)
qed simp

lemma like_match_Nil: "like_match [] s \<longleftrightarrow> s = []"
  by (simp add: like_match.simps)

lemma like_match_contains: "like_match (likePattern q) s \<longleftrightarrow> sublist q s"
  by (auto simp: likePattern_def like_match_percent like_match_escape like_match_Nil sublist_def suffix_def)

lemma str_includes_sublist: "str_includes s p \<longleftrightarrow> sublist p s"
  by (induction s) (auto simp: sublist_Cons_right)

lemma lower_special: "code_unit d < 97 \<Longrightarrow> \<not> js_upper_char d \<Longrightarrow> lower_char c = d \<longleftrightarrow> c = d"
proof
  assume d: "code_unit d < 97" and nu: "\<not> js_upper_char d" and eq: "lower_char c = d"
  show "c = d"
  proof (cases "js_upper_char c")
    case True
    then have "97 \<le> code_unit (lower_char c)" by (auto simp: code_unit_lower js_upper_char_def)
    with d eq show ?thesis by simp
  qed (use eq in \<open>simp add: lower_char_def\<close>)
qed (simp add: lower_char_def)

lemma lower_escape: "js_lower (like_escape q) = like_escape (js_lower q)"
proof -
  have "lower_char c = d \<longleftrightarrow> c = d" if "d \<in> {CHR 0x5C, CHR ''%'', CHR ''_''}" for c d
    using that by (intro lower_special) (auto simp: js_upper_char_def)
  moreover have "lower_char (CHR 0x5C) = CHR 0x5C" by code_simp
  ultimately show ?thesis by (induction q) (auto simp: js_lower_def)
qed

lemma lower_likePattern: "js_lower (likePattern q) = likePattern (js_lower q)"
proof -
  have "lower_char (CHR ''%'') = CHR ''%''" by code_simp
  then show ?thesis using lower_escape [of q] by (simp add: likePattern_def js_lower_append js_lower_def)
qed

lemma ilike_likePattern: "ilike (likePattern q) s \<longleftrightarrow> str_includes (js_lower s) (js_lower q)"
  by (simp add: ilike_def lower_likePattern like_match_contains str_includes_sublist)

subsection \<open>Following the cursors\<close>

text \<open>One page of the rows that match, newest first, and the walk over all pages.\<close>

definition before_cursor :: "('r \<Rightarrow> nat) \<Rightarrow> string option \<Rightarrow> 'r \<Rightarrow> bool" where
  "before_cursor ident before r = (case before of None \<Rightarrow> True | Some b \<Rightarrow> ident r < nat_of_digits b)"

definition page_of_rows ::
    "('r \<Rightarrow> nat) \<Rightarrow> ('r \<Rightarrow> 't) \<Rightarrow> ('r \<Rightarrow> bool) \<Rightarrow> 'r list \<Rightarrow> nat \<Rightarrow> string option \<Rightarrow> 't page" where
  \<comment> \<open>\<open>findAll({where, order: [["id", "DESC"]], limit: limit + 1})\<close> and \<open>pageOf\<close>; the table is in id order\<close>
  "page_of_rows ident dto matches rows limit before =
     pageOf ident (take (limit + 1) (filter (\<lambda>r. matches r \<and> before_cursor ident before r) (rev rows))) limit dto"

fun walk_pages :: "nat \<Rightarrow> (string option \<Rightarrow> 't page) \<Rightarrow> string option \<Rightarrow> 't list option" where
  "walk_pages 0 get before = None"
| "walk_pages (Suc n) get before =
     (let p = get before
      in (case pg_nextCursor p of
            None \<Rightarrow> Some (pg_items p)
          | Some b \<Rightarrow> map_option ((@) (pg_items p)) (walk_pages n get (Some b))))"

lemma pageOf_take:
  "pageOf ident (take (limit + 1) xs) limit dto =
    (if length xs \<le> limit then \<lparr>pg_items = map dto xs, pg_nextCursor = None\<rparr>
     else \<lparr>pg_items = map dto (take limit xs), pg_nextCursor = Some (show_nat (ident (last (take limit xs))))\<rparr>)"
proof -
  have "take limit (take (limit + 1) xs) = take limit xs" by (simp add: min_def)
  then show ?thesis by (auto simp: pageOf_def Let_def)
qed

lemma filter_below_last:
  fixes ident :: "'r \<Rightarrow> nat"
  assumes "sorted_wrt (\<lambda>a b. ident b < ident a) rows" and "0 < k" and "k < length rows"
  shows "filter (\<lambda>r. ident r < ident (last (take k rows))) rows = drop k rows"
  using assms
proof (induction rows arbitrary: k)
  case (Cons x rows)
  show ?case
  proof (cases "k = 1")
    case True
    with Cons.prems show ?thesis by (auto simp: filter_id_conv)
  next
    case False
    with Cons.prems obtain j where k: "k = Suc j" "0 < j" "j < length rows" by (cases k) auto
    then have "take j rows \<noteq> []" by auto
    then have l: "last (take k (x # rows)) = last (take j rows)" "last (take j rows) \<in> set rows"
      using in_set_takeD [OF last_in_set] by (simp_all add: k(1))
    with Cons.prems(1) have "\<not> ident x < ident (last (take j rows))" by (auto dest: less_asym)
    with l k Cons.IH [OF _ k(2,3)] Cons.prems(1) show ?thesis by simp
  qed
qed simp

locale paged_list =
  fixes ident :: "'r \<Rightarrow> nat" and dto :: "'r \<Rightarrow> 't"
    and list_page :: "'f \<Rightarrow> nat \<Rightarrow> string option \<Rightarrow> 'r list \<Rightarrow> 't page"
    and matches :: "'f \<Rightarrow> 'r \<Rightarrow> bool"
  assumes list_page: "list_page f limit before rows = page_of_rows ident dto (matches f) rows limit before"
begin

lemma walk_from:
  assumes "sorted_wrt (\<lambda>a b. ident a < ident b) rows" and "0 < limit"
    and "length (filter (\<lambda>r. matches f r \<and> before_cursor ident before r) (rev rows)) < n"
  shows "walk_pages n (\<lambda>b. list_page f limit b rows) before =
    Some (map dto (filter (\<lambda>r. matches f r \<and> before_cursor ident before r) (rev rows)))"
  using assms(3)
proof (induction n arbitrary: before)
  case (Suc n)
  let ?all = "filter (\<lambda>r. matches f r \<and> before_cursor ident before r) (rev rows)"
  have desc: "sorted_wrt (\<lambda>a b. ident b < ident a) ?all"
    using assms(1) by (intro sorted_wrt_filter) (simp add: sorted_wrt_rev)
  show ?case
  proof (cases "length ?all \<le> limit")
    case True
    then show ?thesis by (simp only: walk_pages.simps list_page page_of_rows_def pageOf_take) simp
  next
    case False
    let ?last = "last (take limit ?all)"
    have ne: "take limit ?all \<noteq> []" using False assms(2) by auto
    then have "?last \<in> set ?all" using in_set_takeD last_in_set by metis
    then have b: "before_cursor ident before ?last" by simp
    have rest: "filter (\<lambda>r. matches f r \<and> before_cursor ident (Some (show_nat (ident ?last))) r) (rev rows) =
        filter (\<lambda>r. ident r < ident ?last) ?all"
      using b by (auto simp: before_cursor_def conj_commute intro!: filter_cong split: option.splits)
    also have "\<dots> = drop limit ?all"
      using filter_below_last [OF desc assms(2)] False by simp
    finally have rest: "filter (\<lambda>r. matches f r \<and> before_cursor ident (Some (show_nat (ident ?last))) r) (rev rows) =
        drop limit ?all" .
    then have "walk_pages n (\<lambda>b. list_page f limit b rows) (Some (show_nat (ident ?last))) = Some (map dto (drop limit ?all))"
      using Suc.IH [of "Some (show_nat (ident ?last))"] Suc.prems False assms(2) by simp
    moreover have "map dto (take limit ?all) @ map dto (drop limit ?all) = map dto ?all"
      by (simp flip: map_append)
    ultimately show ?thesis
      using False by (simp only: walk_pages.simps list_page page_of_rows_def pageOf_take) simp
  qed
qed simp

lemma walk_all:
  assumes "sorted_wrt (\<lambda>a b. ident a < ident b) rows" and "0 < limit"
  shows "walk_pages (Suc (length rows)) (\<lambda>b. list_page f limit b rows) None =
    Some (map dto (filter (matches f) (rev rows)))"
proof -
  have "length (filter (\<lambda>r. matches f r \<and> before_cursor ident None r) (rev rows)) < Suc (length rows)"
    using length_filter_le [of "\<lambda>r. matches f r \<and> before_cursor ident None r" "rev rows"] by simp
  from walk_from [OF assms this] show ?thesis by (simp add: before_cursor_def)
qed

end

end
