(* ===== verification/AuthEvents.thy ===== *)
theory AuthEvents
  imports Bans Session Paging "HOL-Library.Product_Lexorder"
begin

text \<open>
  The log of sign-in attempts, \<open>apps/server/src/activity/auth-events.ts\<close>, and Dovecot's events
  that feed it, \<open>apps/server/src/activity/dovecot-events.ts\<close>. \<open>srv\<close> puts together the table
  \<open>auth_events\<close>, the state of the bans and the state of the sessions.
\<close>

record srv =
  sv_events :: "auth_event_row list"
  sv_nextEvent :: nat
  sv_bans :: bans_state
  sv_web :: web

record auth_attempt =
  at_source :: auth_source
  at_username :: "string option"
  at_ip :: "string option"
  at_success :: bool
  at_reason :: "auth_failure_reason option"
  at_detail :: "string option"
  at_userAgent :: "string option"
  at_mailboxId :: "string option"

definition FOLD_MS :: "bool \<Rightarrow> int" where
  "FOLD_MS success = (if success then 60 * 60000 else 10 * 60000)"

definition non_empty :: "string option \<Rightarrow> string option" where
  \<comment> \<open>\<open>s || null\<close>\<close>
  "non_empty s = (if s = Some [] then None else s)"

definition norm_username :: "string option \<Rightarrow> string option" where
  "norm_username u = non_empty (map_option (\<lambda>x. take 254 (js_lower (js_trim x))) u)"

definition norm_ip :: "string option \<Rightarrow> string option" where
  "norm_ip i = (case i of None \<Rightarrow> None | Some a \<Rightarrow> if a \<noteq> [] \<and> a \<noteq> ''unknown'' then Some (take 64 a) else None)"

type_synonym event_key =
  "auth_source \<times> string option \<times> string option \<times> bool \<times> auth_failure_reason option"

definition row_key :: "auth_event_row \<Rightarrow> event_key" where
  "row_key r = (ae_source r, ae_username r, ae_ip r, ae_success r, ae_reason r)"

definition attempt_key :: "auth_attempt \<Rightarrow> event_key" where
  "attempt_key a = (at_source a, norm_username (at_username a), norm_ip (at_ip a), at_success a,
     if at_success a then None else at_reason a)"

definition attempt_row :: "auth_attempt \<Rightarrow> string option \<Rightarrow> nat \<Rightarrow> time \<Rightarrow> auth_event_row" where
  "attempt_row a mailboxId i now = \<lparr>
     ae_id = i, ae_createdAt = now, ae_lastAt = now, ae_source = at_source a,
     ae_username = norm_username (at_username a), ae_mailboxId = mailboxId, ae_ip = norm_ip (at_ip a),
     ae_success = at_success a, ae_reason = (if at_success a then None else at_reason a),
     ae_detail = non_empty (map_option (take 255) (at_detail a)),
     ae_userAgent = non_empty (map_option (take 512) (at_userAgent a)), ae_count = 1\<rparr>"

definition find_mailbox :: "string \<Rightarrow> web \<Rightarrow> mailbox_row option" where
  "find_mailbox email w = find (\<lambda>m. mb_email m = email) (w_mailboxes w)"

definition writeAuthEvent :: "auth_attempt \<Rightarrow> time \<Rightarrow> srv \<Rightarrow> srv" where
  "writeAuthEvent a now sv =
     (case find (\<lambda>r. row_key r = attempt_key a \<and> ae_createdAt r > now - FOLD_MS (at_success a)) (rev (sv_events sv)) of
        Some existing \<Rightarrow> sv\<lparr>sv_events := update_where (\<lambda>r. ae_id r = ae_id existing)
          (\<lambda>r. r\<lparr>ae_count := ae_count r + 1, ae_lastAt := now\<rparr>) (sv_events sv)\<rparr>
      | None \<Rightarrow>
          (let mailboxId = (case at_mailboxId a of
                 Some m \<Rightarrow> Some m
               | None \<Rightarrow> (case norm_username (at_username a) of
                   None \<Rightarrow> None
                 | Some u \<Rightarrow> map_option mb_id (find_mailbox u (sv_web sv))))
           in sv\<lparr>sv_events := sv_events sv @ [attempt_row a mailboxId (sv_nextEvent sv) now],
                 sv_nextEvent := Suc (sv_nextEvent sv)\<rparr>))"

definition recordAuthEvent :: "pg_inet_ops \<Rightarrow> config \<Rightarrow> auth_attempt \<Rightarrow> time \<Rightarrow> srv \<Rightarrow> srv" where
  "recordAuthEvent PG C a now sv =
     (let sv1 = writeAuthEvent a now sv
      in if \<not> at_success a \<and> at_reason a \<noteq> Some Banned
         then sv1\<lparr>sv_bans := snd (evaluateAutoBan PG C (sv_events sv1) (at_ip a) now (sv_bans sv1))\<rparr>
         else sv1)"

definition failureReason ::
    "string option \<Rightarrow> time \<Rightarrow> web \<Rightarrow> (auth_failure_reason \<times> string option) \<times> web" where
  "failureReason username now w =
     (case (case username of None \<Rightarrow> None | Some u \<Rightarrow> if u = [] then None else find_mailbox (js_lower (js_trim u)) w) of
        None \<Rightarrow> ((UnknownUser, None), w)
      | Some m \<Rightarrow> (let (ok, w') = canSignIn m now w
                   in ((if ok then WrongPassword else Disabled, Some (mb_id m)), w')))"

subsection \<open>Listing\<close>

record auth_event =
  aed_id :: string
  aed_source :: auth_source
  aed_username :: "string option"
  aed_mailboxId :: "string option"
  aed_ip :: "string option"
  aed_success :: bool
  aed_reason :: "auth_failure_reason option"
  aed_detail :: "string option"
  aed_userAgent :: "string option"
  aed_count :: nat
  aed_firstAt :: time
  aed_lastAt :: time

definition toAuthEventDto :: "auth_event_row \<Rightarrow> auth_event" where
  "toAuthEventDto r = \<lparr>
     aed_id = show_nat (ae_id r), aed_source = ae_source r, aed_username = ae_username r,
     aed_mailboxId = ae_mailboxId r, aed_ip = ae_ip r, aed_success = ae_success r, aed_reason = ae_reason r,
     aed_detail = ae_detail r, aed_userAgent = ae_userAgent r, aed_count = ae_count r,
     aed_firstAt = ae_createdAt r, aed_lastAt = ae_lastAt r\<rparr>"

record auth_filter =
  af_failed :: "bool option"
  af_source :: "auth_source option"
  af_q :: "string option"

definition auth_matches :: "auth_filter \<Rightarrow> auth_event_row \<Rightarrow> bool" where
  "auth_matches f r \<longleftrightarrow>
     (case af_failed f of None \<Rightarrow> True | Some x \<Rightarrow> ae_success r = (\<not> x)) \<and>
     (case af_source f of None \<Rightarrow> True | Some x \<Rightarrow> ae_source r = x) \<and>
     (case non_empty (af_q f) of
        None \<Rightarrow> True
      | Some x \<Rightarrow> (let q = js_lower (js_trim x)
          in (case ae_username r of None \<Rightarrow> False | Some u \<Rightarrow> ilike (likePattern q) u) \<or>
             (case ae_ip r of None \<Rightarrow> False | Some i \<Rightarrow> starts_with i q)))"

definition listAuthEvents ::
    "auth_filter \<Rightarrow> nat \<Rightarrow> string option \<Rightarrow> auth_event_row list \<Rightarrow> auth_event page" where
  "listAuthEvents f limit before rows =
     pageOf ae_id (take (limit + 1)
       (filter (\<lambda>r. auth_matches f r \<and> (case before of None \<Rightarrow> True | Some b \<Rightarrow> ae_id r < nat_of_digits b)) (rev rows)))
       limit toAuthEventDto"

record failed_ip =
  fi_ip :: string
  fi_failures :: nat
  fi_usernames :: "string list"
  fi_sources :: "auth_source list"
  fi_lastAt :: time
  fi_banned :: bool

text \<open>\<open>collate\<close> sorts the user names of a group the way the database does.\<close>

definition failed_group :: "(string list \<Rightarrow> string list) \<Rightarrow> auth_event_row list \<Rightarrow> string \<Rightarrow> failed_ip" where
  "failed_group collate rows i =
     (let g = filter (\<lambda>r. ae_ip r = Some i) rows
      in \<lparr>fi_ip = i, fi_failures = sum_list (map ae_count g),
          fi_usernames = take 5 (collate (remdups (List.map_filter ae_username g))),
          fi_sources = filter (\<lambda>x. x \<in> set (map ae_source g)) sources_sorted,
          fi_lastAt = foldl max 0 (map ae_lastAt g), fi_banned = False\<rparr>)"

fun check_banned :: "pg_inet_ops \<Rightarrow> time \<Rightarrow> failed_ip list \<Rightarrow> bans_state \<Rightarrow> failed_ip list \<times> bans_state" where
  "check_banned PG now [] s = ([], s)"
| "check_banned PG now (g # gs) s =
     (let (b, s1) = isBanned PG (Some (fi_ip g)) now s; (gs', s2) = check_banned PG now gs s1
      in (g\<lparr>fi_banned := b\<rparr> # gs', s2))"

definition failedIps ::
    "(string list \<Rightarrow> string list) \<Rightarrow> pg_inet_ops \<Rightarrow> nat \<Rightarrow> nat \<Rightarrow> time \<Rightarrow> auth_event_row list \<Rightarrow> bans_state
      \<Rightarrow> failed_ip list \<times> bans_state" where
  "failedIps collate PG hours limit now events s =
     (let rows = filter (\<lambda>r. \<not> ae_success r \<and> ae_ip r \<noteq> None \<and> ae_createdAt r > now - int hours * HOUR_MS) events;
          groups = map (failed_group collate rows) (remdups (List.map_filter ae_ip rows));
          top = take limit (sort_key (\<lambda>g. (- int (fi_failures g), - fi_lastAt g)) groups)
      in check_banned PG now top s)"

subsection \<open>Dovecot's events\<close>

text \<open>The fields of an event that are strings; the event's name.\<close>

record dovecot_event =
  de_event :: "string option"
  de_fields :: "string \<Rightarrow> string option"

fun protocol_source :: "string \<Rightarrow> auth_source" where
  "protocol_source p =
     (if p = ''imap'' then SrcImap else if p = ''pop3'' then SrcPop3
      else if p = ''smtp'' \<or> p = ''submission'' then SrcSmtp
      else if p = ''sieve'' \<or> p = ''managesieve'' then SrcSieve else SrcOther)"

definition dovecot_handle :: "pg_inet_ops \<Rightarrow> config \<Rightarrow> dovecot_event \<Rightarrow> time \<Rightarrow> srv \<Rightarrow> srv" where
  "dovecot_handle PG C e now sv =
     (if de_event e \<noteq> Some ''auth_request_finished'' then sv
      else (let str = (\<lambda>k. non_empty (de_fields e k));
                protocol = (case str ''protocol'' of None \<Rightarrow> [] | Some p \<Rightarrow> p)
      in if protocol = ''lmtp'' \<or> protocol = ''doveadm'' then sv
         else if str ''master_user'' \<noteq> None then sv
         else (let username = (case str ''original_user'' of Some u \<Rightarrow> Some u | None \<Rightarrow> str ''user'');
                   success = (de_fields e ''success'' = Some ''yes'');
                   ip = str ''remote_ip'';
                   (reason, mailboxId, w) = (if success then (None, None, sv_web sv)
                      else (let ((r, m), w') = failureReason username now (sv_web sv) in (Some r, m, w')));
                   sv1 = sv\<lparr>sv_web := w\<rparr>;
                   (banned, b) = (if \<not> success then isBanned PG ip now (sv_bans sv1) else (False, sv_bans sv1));
                   sv2 = sv1\<lparr>sv_bans := (case ip of
                      Some a \<Rightarrow> if banned then recordBanHit PG a now b else b
                    | None \<Rightarrow> b)\<rparr>;
                   detail = join_with '', '' (List.map_filter id [str ''mechanism'', str ''transport''])
               in recordAuthEvent PG C
                    \<lparr>at_source = protocol_source protocol, at_username = username, at_ip = ip,
                     at_success = success, at_reason = (if banned then Some Banned else reason),
                     at_detail = non_empty (Some detail), at_userAgent = None, at_mailboxId = mailboxId\<rparr> now sv2)))"

text \<open>The HTTP handler: the status it answers, and the events of the body in order.\<close>

definition dovecot_events ::
    "pg_inet_ops \<Rightarrow> config \<Rightarrow> string \<Rightarrow> string \<Rightarrow> dovecot_event list option \<Rightarrow> time \<Rightarrow> srv \<Rightarrow> nat \<times> srv" where
  "dovecot_events PG C token given body now sv =
     (if given \<noteq> token then (404, sv)
      else (case body of
              None \<Rightarrow> (400, sv)
            | Some es \<Rightarrow> (204, foldl (\<lambda>s e. dovecot_handle PG C e now s) sv es)))"

subsection \<open>The table\<close>

lemma row_key_attempt [simp]: "row_key (attempt_row a m i now) = attempt_key a"
  by (simp add: row_key_def attempt_row_def attempt_key_def)

lemma row_key_count [simp]: "row_key (r\<lparr>ae_count := n, ae_lastAt := t\<rparr>) = row_key r"
  by (simp add: row_key_def)

text \<open>
  Rows have distinct ids below the next one, none is from the future, and two rows for the same
  attempt are at least a fold window apart.
\<close>

definition folded :: "time \<Rightarrow> srv \<Rightarrow> bool" where
  "folded now sv \<longleftrightarrow>
     sorted_wrt (\<lambda>r s. ae_id r < ae_id s \<and>
       (row_key r = row_key s \<longrightarrow> ae_createdAt r + FOLD_MS (ae_success r) \<le> ae_createdAt s)) (sv_events sv) \<and>
     (\<forall>r \<in> set (sv_events sv). ae_id r < sv_nextEvent sv \<and> ae_createdAt r \<le> now)"

lemma folded_later: "folded t sv \<Longrightarrow> t \<le> u \<Longrightarrow> folded u sv"
  by (auto simp: folded_def)

lemma folded_sorted: "folded now sv \<Longrightarrow> sorted_wrt (\<lambda>r s. ae_id r < ae_id s) (sv_events sv)"
  unfolding folded_def by (elim conjE) (erule sorted_wrt_mono_rel [rotated], simp)

definition key_total :: "event_key \<Rightarrow> auth_event_row list \<Rightarrow> nat" where
  "key_total k rows = sum_list (map ae_count (filter (\<lambda>r. row_key r = k) rows))"

lemma key_total_append [simp]: "key_total k (xs @ ys) = key_total k xs + key_total k ys"
  by (simp add: key_total_def)

lemma key_total_bump:
  assumes "distinct (map ae_id rows)" and "x \<in> set rows"
  shows "key_total k (update_where (\<lambda>r. ae_id r = ae_id x) (\<lambda>r. r\<lparr>ae_count := ae_count r + 1, ae_lastAt := now\<rparr>) rows) =
    key_total k rows + (if row_key x = k then 1 else 0)"
  using assms
proof (induction rows)
  case (Cons r rows)
  show ?case
  proof (cases "r = x")
    case True
    with Cons.prems have "\<forall>s \<in> set rows. ae_id s \<noteq> ae_id x" by (metis distinct.simps(2) image_eqI list.simps(9) set_map)
    then have "update_where (\<lambda>s. ae_id s = ae_id x) (\<lambda>r. r\<lparr>ae_count := ae_count r + 1, ae_lastAt := now\<rparr>) rows = rows"
      by (simp add: update_where_def map_idI)
    with True show ?thesis by (simp add: update_where_def key_total_def)
  next
    case False
    with Cons.prems have "x \<in> set rows" "ae_id r \<noteq> ae_id x" by auto
    with Cons show ?thesis by (simp add: update_where_def key_total_def)
  qed
qed simp

lemma distinct_ids: "folded now sv \<Longrightarrow> distinct (map ae_id (sv_events sv))"
proof -
  have "sorted_wrt (\<lambda>r s. ae_id r < ae_id s) xs \<Longrightarrow> distinct (map ae_id xs)" for xs :: "auth_event_row list"
    by (induction xs) auto
  then show "folded now sv \<Longrightarrow> ?thesis" using folded_sorted by blast
qed

lemma write_total:
  assumes "folded now sv"
  shows "key_total k (sv_events (writeAuthEvent a now sv)) =
    key_total k (sv_events sv) + (if attempt_key a = k then 1 else 0)"
proof (cases "find (\<lambda>r. row_key r = attempt_key a \<and> ae_createdAt r > now - FOLD_MS (at_success a)) (rev (sv_events sv))")
  case None
  then show ?thesis by (simp add: writeAuthEvent_def Let_def key_total_def) (simp add: attempt_row_def)
next
  case (Some x)
  then have "x \<in> set (sv_events sv)" "row_key x = attempt_key a" by (auto dest: find_SomeD)
  with Some key_total_bump [OF distinct_ids [OF assms]] show ?thesis by (simp add: writeAuthEvent_def)
qed

lemma folded_write:
  assumes "folded now sv"
  shows "folded now (writeAuthEvent a now sv)"
proof (cases "find (\<lambda>r. row_key r = attempt_key a \<and> ae_createdAt r > now - FOLD_MS (at_success a)) (rev (sv_events sv))")
  case None
  then have "\<forall>r \<in> set (sv_events sv). row_key r = attempt_key a \<longrightarrow> ae_createdAt r \<le> now - FOLD_MS (at_success a)"
    by (auto simp: find_None_iff)
  moreover have "ae_success r = at_success a" if "row_key r = attempt_key a" for r
    using that by (simp add: row_key_def attempt_key_def)
  ultimately show ?thesis
    using assms None by (fastforce simp: writeAuthEvent_def Let_def folded_def sorted_wrt_append attempt_row_def row_key_def attempt_key_def)
next
  case (Some x)
  let ?f = "\<lambda>r. if ae_id r = ae_id x then r\<lparr>ae_count := ae_count r + 1, ae_lastAt := now\<rparr> else r"
  have same: "ae_id (?f r) = ae_id r" "row_key (?f r) = row_key r" "ae_createdAt (?f r) = ae_createdAt r"
    "ae_success (?f r) = ae_success r" for r by simp_all
  have ev: "sv_events (writeAuthEvent a now sv) = map ?f (sv_events sv)" "sv_nextEvent (writeAuthEvent a now sv) = sv_nextEvent sv"
    using Some by (simp_all add: writeAuthEvent_def update_where_def)
  show ?thesis
    using assms unfolding folded_def ev sorted_wrt_map same by auto
qed

definition write_all :: "(time \<times> auth_attempt) list \<Rightarrow> srv \<Rightarrow> srv" where
  "write_all as sv = foldl (\<lambda>s (t, a). writeAuthEvent a t s) sv as"

lemma write_all_folded:
  assumes "folded t0 sv" and "sorted (t0 # map fst as)"
  shows "folded (last (t0 # map fst as)) (write_all as sv) \<and>
    key_total k (sv_events (write_all as sv)) = key_total k (sv_events sv) + length (filter (\<lambda>(t, a). attempt_key a = k) as)"
  using assms
proof (induction as arbitrary: sv t0)
  case Nil
  then show ?case by (simp add: write_all_def)
next
  case (Cons x as)
  obtain t a where x: "x = (t, a)" by (cases x)
  have f: "folded t sv" using Cons.prems x by (auto intro: folded_later)
  have "sorted (t # map fst as)" using Cons.prems x by simp
  from Cons.IH [OF folded_write [OF f] this] write_total [OF f, of k a] x show ?case
    by (simp add: write_all_def)
qed

text \<open>
  C21: the sign-in log neither loses nor repeats. Whatever attempts are recorded, at times that do
  not go back, every attempt is counted in exactly one row of its kind (source, user, address,
  outcome, reason), and two rows of the same kind are at least a fold window apart, so that a bot or
  a phone adds at most one row per window.
\<close>

theorem log_counts_attempts:
  assumes "sorted (map fst as)" and "sv_events sv = []"
  shows "key_total k (sv_events (write_all as sv)) = length (filter (\<lambda>(t, a). attempt_key a = k) as) \<and>
    sorted_wrt (\<lambda>r s. row_key r = row_key s \<longrightarrow> ae_createdAt r + FOLD_MS (ae_success r) \<le> ae_createdAt s)
      (sv_events (write_all as sv))"
proof (cases as)
  case Nil
  then show ?thesis using assms by (simp add: write_all_def key_total_def)
next
  case (Cons x xs)
  have "folded (fst x) sv" using assms(2) by (simp add: folded_def)
  moreover have "sorted (fst x # map fst as)" using assms(1) Cons by simp
  ultimately have "folded (last (fst x # map fst as)) (write_all as sv) \<and>
      key_total k (sv_events (write_all as sv)) =
        key_total k (sv_events sv) + length (filter (\<lambda>(t, a). attempt_key a = k) as)"
    by (rule write_all_folded)
  moreover from this have "sorted_wrt (\<lambda>r s. row_key r = row_key s \<longrightarrow> ae_createdAt r + FOLD_MS (ae_success r) \<le> ae_createdAt s)
      (sv_events (write_all as sv))"
    unfolding folded_def by (elim conjE) (erule sorted_wrt_mono_rel [rotated], simp)
  ultimately show ?thesis using assms(2) by (simp add: key_total_def)
qed

interpretation auth_pages: paged_list ae_id toAuthEventDto listAuthEvents auth_matches
  by unfold_locales (simp add: listAuthEvents_def page_of_rows_def before_cursor_def)

definition ex_attempt :: "string \<Rightarrow> string \<Rightarrow> auth_attempt" where
  "ex_attempt user ip = \<lparr>at_source = SrcImap, at_username = Some user, at_ip = Some ip, at_success = False,
     at_reason = Some UnknownUser, at_detail = None, at_userAgent = None, at_mailboxId = None\<rparr>"

definition empty_srv :: srv where
  "empty_srv = \<lparr>sv_events = [], sv_nextEvent = 1,
     sv_bans = \<lparr>bs_rows = [], bs_nextId = 1, bs_allowSetting = Missing, bs_allowCache = None,
       bs_banCache = None, bs_evaluating = [], bs_online = True\<rparr>,
     sv_web = ex_web\<rparr>"

definition ex_attempts :: "(time \<times> auth_attempt) list" where
  "ex_attempts = [(0, ex_attempt ''ann'' ''9.8.7.6''), (1000, ex_attempt ''ann'' ''9.8.7.6''), (2000, ex_attempt ''bob'' ''9.8.7.6''),
     (900000, ex_attempt ''Ann '' ''9.8.7.6'')]"

theorem log_counts_attempts_witness:
  "key_total (attempt_key (ex_attempt ''ann'' ''9.8.7.6'')) (sv_events (write_all ex_attempts empty_srv)) = 3 \<and>
   map ae_count (sv_events (write_all ex_attempts empty_srv)) = [2, 1, 1]"
proof -
  have "length (filter (\<lambda>(t, a). attempt_key a = attempt_key (ex_attempt ''ann'' ''9.8.7.6'')) ex_attempts) = 3" by code_simp
  moreover have "sorted (map fst ex_attempts)" by (simp add: ex_attempts_def)
  moreover have "map ae_count (sv_events (write_all ex_attempts empty_srv)) = [2, 1, 1]" by code_simp
  ultimately show ?thesis
    using log_counts_attempts [of ex_attempts empty_srv "attempt_key (ex_attempt ''ann'' ''9.8.7.6'')"]
    by (simp add: empty_srv_def)
qed

text \<open>
  C22: paging loses nothing. A client that asks for the first page of the sign-in log and then
  follows \<open>nextCursor\<close> until it is null gets, after at most one request more than there are rows,
  every row that matches the filter exactly once, newest first.
\<close>

theorem auth_log_pages_complete:
  assumes "sorted_wrt (\<lambda>r s. ae_id r < ae_id s) rows" and "0 < limit"
  shows "walk_pages (Suc (length rows)) (\<lambda>b. listAuthEvents f limit b rows) None =
    Some (map toAuthEventDto (filter (auth_matches f) (rev rows)))"
  by (rule auth_pages.walk_all [OF assms])

theorem auth_log_pages_complete_witness:
  "map_option (map aed_id) (walk_pages 4 (\<lambda>b. listAuthEvents \<lparr>af_failed = Some True, af_source = None, af_q = Some ''BO''\<rparr> 1 b
      (sv_events (write_all ex_attempts empty_srv))) None) = Some [''2'']"
proof -
  have 1: "length (sv_events (write_all ex_attempts empty_srv)) = 3" by code_simp
  have 2: "sorted_wrt (\<lambda>r s. ae_id r < ae_id s) (sv_events (write_all ex_attempts empty_srv))" by code_simp
  have 3: "map (aed_id \<circ> toAuthEventDto) (filter (auth_matches \<lparr>af_failed = Some True, af_source = None, af_q = Some ''BO''\<rparr>)
      (rev (sv_events (write_all ex_attempts empty_srv)))) = [''2'']" by code_simp
  from auth_log_pages_complete [OF 2, of 1 "\<lparr>af_failed = Some True, af_source = None, af_q = Some ''BO''\<rparr>"] 3
  show ?thesis by (simp add: 1)
qed

text \<open>
  A search term is taken literally. Whatever characters an admin types, \<open>%\<close>, \<open>_\<close> and the
  backslash included, the pattern built from it matches exactly the values that contain the term,
  without regard to case.
\<close>

lemma search_is_literal:
  "ilike (likePattern q) s \<longleftrightarrow> str_includes (js_lower s) (js_lower q)"
  by (rule ilike_likePattern)

subsection \<open>Attempts reported with a mapped address\<close>






end
