(* ===== verification/Schema.thy ===== *)
theory Schema
  imports Models
begin

text \<open>
  The database schema as the program declares it twice: the models of
  \<open>apps/server/src/db/models.ts\<close> and the migrations of \<open>db/migrations/\<close> that
  \<open>db/migrate.ts\<close> runs at start-up. A migration is the list of its statements; \<open>exec_ddl\<close>
  says what each does to the tables, the indexes and the functions of the database, None where the
  database rejects it. Attribute names become column names under Sequelize's option
  \<open>underscored\<close>, \<open>snake\<close>.
\<close>

subsection \<open>Columns and models\<close>

datatype data_type = UUID | STRING nat | TEXT | BOOLEAN | INTEGER | BIGINT | DATE | JSONB | CIDR | ARRAY data_type

datatype column_default = NoDefault | DefBool bool | DefStr string | DefInt int | DefEmptyArray | DefNow | DefUuid

datatype on_delete = Cascade | SetNull

record column =
  c_name :: string
  c_type :: data_type
  c_allowNull :: bool
  c_default :: column_default
  c_unique :: bool
  c_primaryKey :: bool
  c_autoIncrement :: bool
  c_references :: "(string \<times> string \<times> on_delete) option"

definition column :: "string \<Rightarrow> data_type \<Rightarrow> column" where
  \<comment> \<open>a column with nothing but its type\<close>
  "column n t = \<lparr>c_name = n, c_type = t, c_allowNull = True, c_default = NoDefault, c_unique = False,
     c_primaryKey = False, c_autoIncrement = False, c_references = None\<rparr>"
















subsection \<open>Migrations\<close>

datatype ddl =
    CreateTable string "column list"
  | AddIndex string "string list" string bool
  | AddColumn string column
  | DropTable string
  | RemoveColumn string string
  | CreateIndexUsing string string "string list" string
  | CreateFunction string
  | DropFunction string
  | UpdateDirection "mail_log_row \<Rightarrow> bool" mail_direction

record index =
  ix_name :: string
  ix_table :: string
  ix_columns :: "string list"
  ix_unique :: bool

record database =
  db_tables :: "(string \<times> column list) list"
  db_indexes :: "index list"
  db_functions :: "string list"
  db_mailLog :: "mail_log_row list"





definition m0003_up :: "ddl list" where
  "m0003_up = [
     UpdateDirection (\<lambda>r. ml_status r = Rejected \<and> ml_source r = Some ''smtp'' \<and> ml_direction r = DirOut \<and> ml_recipient r \<noteq> []) DirRelay,
     UpdateDirection (\<lambda>r. ml_status r = Rejected \<and> ml_source r = Some ''smtp'' \<and> ml_direction r = DirOut) DirIn]"








subsection \<open>Running them\<close>

definition table_columns :: "database \<Rightarrow> string \<Rightarrow> column list option" where
  "table_columns d t = map_of (db_tables d) t"

definition reference_ok :: "database \<Rightarrow> string \<Rightarrow> column \<Rightarrow> bool" where
  "reference_ok d own c = (case c_references c of None \<Rightarrow> True
     | Some (t, k, _) \<Rightarrow> t = own \<or>
         (case table_columns d t of None \<Rightarrow> False | Some cs \<Rightarrow> list_ex (\<lambda>x. c_name x = k \<and> (c_primaryKey x \<or> c_unique x)) cs))"

definition refers_to :: "string \<Rightarrow> string \<times> column list \<Rightarrow> bool" where
  "refers_to t table = (fst table \<noteq> t \<and>
     list_ex (\<lambda>c. case c_references c of None \<Rightarrow> False | Some (r, _) \<Rightarrow> r = t) (snd table))"

definition add_index :: "string \<Rightarrow> string list \<Rightarrow> string \<Rightarrow> bool \<Rightarrow> database \<Rightarrow> database option" where
  "add_index t cols n u d = (case table_columns d t of
     None \<Rightarrow> None
   | Some cs \<Rightarrow>
       if list_ex (\<lambda>i. ix_name i = n) (db_indexes d) \<or> \<not> list_all (\<lambda>c. c \<in> set (map c_name cs)) cols then None
       else Some (d\<lparr>db_indexes := db_indexes d @ [\<lparr>ix_name = n, ix_table = t, ix_columns = cols, ix_unique = u\<rparr>]\<rparr>))"

fun exec_ddl :: "ddl \<Rightarrow> database \<Rightarrow> database option" where
  \<comment> \<open>\<open>createTable\<close> is \<open>CREATE TABLE IF NOT EXISTS\<close>, \<open>dropTable\<close> is \<open>DROP TABLE IF EXISTS\<close>, which
      fails while another table refers to the table\<close>
  "exec_ddl (CreateTable t cs) d =
     (if t \<in> set (map fst (db_tables d)) then Some d
      else if list_all (reference_ok d t) cs then Some (d\<lparr>db_tables := db_tables d @ [(t, cs)]\<rparr>)
      else None)"
| "exec_ddl (AddIndex t cols n u) d = add_index t cols n u d"
| "exec_ddl (CreateIndexUsing m t cols n) d = add_index t cols n False d"
| "exec_ddl (AddColumn t c) d =
     (case table_columns d t of
        None \<Rightarrow> None
      | Some cs \<Rightarrow>
          if c_name c \<in> set (map c_name cs) then None
          else Some (d\<lparr>db_tables := map (\<lambda>(n, x). (n, if n = t then x @ [c] else x)) (db_tables d)\<rparr>))"
| "exec_ddl (DropTable t) d =
     (if list_ex (refers_to t) (db_tables d) then None
      else Some (d\<lparr>db_tables := filter (\<lambda>x. fst x \<noteq> t) (db_tables d),
                   db_indexes := filter (\<lambda>i. ix_table i \<noteq> t) (db_indexes d)\<rparr>))"
| "exec_ddl (RemoveColumn t c) d =
     (case table_columns d t of
        None \<Rightarrow> None
      | Some cs \<Rightarrow>
          if c \<notin> set (map c_name cs) then None
          else Some (d\<lparr>db_tables := map (\<lambda>(n, x). (n, if n = t then filter (\<lambda>y. c_name y \<noteq> c) x else x)) (db_tables d),
                       db_indexes := filter (\<lambda>i. \<not> (ix_table i = t \<and> c \<in> set (ix_columns i))) (db_indexes d)\<rparr>))"
| "exec_ddl (CreateFunction f) d =
     Some (if f \<in> set (db_functions d) then d else d\<lparr>db_functions := db_functions d @ [f]\<rparr>)"
| "exec_ddl (DropFunction f) d = Some (d\<lparr>db_functions := filter (\<lambda>g. g \<noteq> f) (db_functions d)\<rparr>)"
| "exec_ddl (UpdateDirection p x) d =
     (if ''mail_log'' \<in> set (map fst (db_tables d))
      then Some (d\<lparr>db_mailLog := update_where p (\<lambda>r. r\<lparr>ml_direction := x\<rparr>) (db_mailLog d)\<rparr>) else None)"

fun exec_all :: "ddl list \<Rightarrow> database \<Rightarrow> database option" where
  "exec_all [] d = Some d"
| "exec_all (s # ss) d = (case exec_ddl s d of None \<Rightarrow> None | Some d' \<Rightarrow> exec_all ss d')"








subsection \<open>What the migrations give\<close>








definition reclassify :: "mail_log_row \<Rightarrow> mail_log_row" where
  "reclassify r = (if ml_status r = Rejected \<and> ml_source r = Some ''smtp'' \<and> ml_direction r = DirOut
     then r\<lparr>ml_direction := (if ml_recipient r = [] then DirIn else DirRelay)\<rparr> else r)"

text \<open>
  Old rejects are filed once, by their recipient. Migration 0003 turns the rejects of port 25
  that were filed as outgoing into relay attempts, or into incoming mail where no recipient was
  named, and leaves every other row alone: its second statement does not undo the first.
\<close>

lemma relay_migration:
  assumes "exec_all m0003_up d = Some d'"
  shows "d' = d\<lparr>db_mailLog := map reclassify (db_mailLog d)\<rparr>"
  using assms by (auto simp: m0003_up_def update_where_def reclassify_def comp_def split: if_splits)

definition ex_log_row :: "string \<Rightarrow> mail_log_status \<Rightarrow> mail_log_row" where
  "ex_log_row rcpt st = \<lparr>ml_id = 1, ml_queueId = None, ml_messageId = None, ml_direction = DirOut, ml_status = st,
    ml_sender = ''a@b.c'', ml_recipient = rcpt, ml_origRecipient = None, ml_subject = None, ml_size = None,
    ml_clientHost = None, ml_clientIp = None, ml_source = Some ''smtp'', ml_saslUser = None, ml_relay = None,
    ml_dsn = None, ml_detail = None, ml_attempts = 1, ml_createdAt = 0, ml_updatedAt = 0\<rparr>"

definition ex_log_db :: database where
  "ex_log_db = \<lparr>db_tables = [(''mail_log'', [])], db_indexes = [], db_functions = [],
    db_mailLog = [ex_log_row ''x@y.z'' Rejected, ex_log_row [] Rejected, ex_log_row ''x@y.z'' Sent]\<rparr>"

theorem relay_migration_witness:
  "\<exists>d'. exec_all m0003_up ex_log_db = Some d' \<and> map ml_direction (db_mailLog d') = [DirRelay, DirIn, DirOut]"
proof -
  have "exec_all m0003_up ex_log_db \<noteq> None" by (simp add: m0003_up_def ex_log_db_def)
  then obtain d' where e: "exec_all m0003_up ex_log_db = Some d'" by blast
  have "map ml_direction (map reclassify (db_mailLog ex_log_db)) = [DirRelay, DirIn, DirOut]" by code_simp
  with relay_migration [OF e] e show ?thesis by simp
qed

end
