(* ===== verification/Zod.thy ===== *)
theory Zod
  imports Json JsRegex
begin

text \<open>
  The schema language of the shared contract. A value of \<open>zod\<close> is the expression that builds a
  schema, constructor by constructor, so that a schema of \<open>packages/shared/src/index.ts\<close> reads as
  it does there. The library that runs the schemas is a parameter: the locale \<open>zod_library\<close> lists
  what its documentation says of each constructor, and \<open>zod_parse\<close> is a function that meets it.
  The formats (\<open>z.email()\<close>, \<open>z.uuid()\<close>) are predicates of the parameter. The lemmas of the
  locale are the two facts the rest of the development uses: what a schema returns has the type of
  the schema, and a value that was returned is accepted again unchanged.
\<close>

subsection \<open>Values and schemas\<close>

datatype string_format = EmailFormat | UuidFormat

datatype string_check = Trim | ToLowerCase | Min nat | Max nat | Regex re | Format string_format

datatype number_check = IsInt | AtLeast rat | AtMost rat | IsPositive

datatype zod =
    ZString "string_check list"
  | ZNumber "number_check list"
  | ZBoolean
  | ZLiteral json
  | ZEnum "string list"
  | ZUnknown
  | ZNullable zod
  | ZOptional zod
  | ZDefault zod json
  | ZArray zod "nat option" "nat option"
  | ZObject "(string \<times> zod) list"
  | ZRecord zod
  | ZUnion "zod list"
  | ZDiscriminated string "zod list"
  | ZPipe zod zod

text \<open>\<open>.extend({...})\<close>, \<open>.partial({key: true})\<close> and \<open>.shape.key\<close> of an object schema.\<close>

definition set_field :: "(string \<times> zod) \<Rightarrow> (string \<times> zod) list \<Rightarrow> (string \<times> zod) list" where
  "set_field f fs = (if fst f \<in> set (map fst fs) then map (\<lambda>g. if fst g = fst f then f else g) fs else fs @ [f])"

fun zod_shape :: "zod \<Rightarrow> (string \<times> zod) list" where
  "zod_shape (ZObject fs) = fs"
| "zod_shape _ = []"

definition zod_extend :: "zod \<Rightarrow> (string \<times> zod) list \<Rightarrow> zod" where
  "zod_extend z fs = ZObject (fold set_field fs (zod_shape z))"

definition zod_partial :: "zod \<Rightarrow> string list \<Rightarrow> zod" where
  "zod_partial z ks = ZObject (map (\<lambda>(k, s). (k, if k \<in> set ks then ZOptional s else s)) (zod_shape z))"

definition shape_field :: "zod \<Rightarrow> string \<Rightarrow> zod" where
  "shape_field z k = (case map_of (zod_shape z) k of None \<Rightarrow> ZUnion [] | Some s \<Rightarrow> s)"

subsection \<open>Checks\<close>

fun run_checks :: "(string_format \<Rightarrow> string \<Rightarrow> bool) \<Rightarrow> string_check list \<Rightarrow> string \<Rightarrow> string option" where
  "run_checks fmt [] s = Some s"
| "run_checks fmt (Trim # cs) s = run_checks fmt cs (js_trim s)"
| "run_checks fmt (ToLowerCase # cs) s = run_checks fmt cs (js_lower s)"
| "run_checks fmt (Min n # cs) s = (if n \<le> length s then run_checks fmt cs s else None)"
| "run_checks fmt (Max n # cs) s = (if length s \<le> n then run_checks fmt cs s else None)"
| "run_checks fmt (Regex r # cs) s = (if re_test r s then run_checks fmt cs s else None)"
| "run_checks fmt (Format f # cs) s = (if fmt f s then run_checks fmt cs s else None)"

fun number_ok :: "number_check \<Rightarrow> rat \<Rightarrow> bool" where
  "number_ok IsInt x = (of_int \<lfloor>x\<rfloor> = x \<and> \<bar>x\<bar> \<le> 9007199254740991)"
| "number_ok (AtLeast m) x = (m \<le> x)"
| "number_ok (AtMost m) x = (x \<le> m)"
| "number_ok IsPositive x = (0 < x)"

definition length_ok :: "nat option \<Rightarrow> nat option \<Rightarrow> nat \<Rightarrow> bool" where
  "length_ok lo hi n \<longleftrightarrow> (case lo of None \<Rightarrow> True | Some m \<Rightarrow> m \<le> n) \<and> (case hi of None \<Rightarrow> True | Some m \<Rightarrow> n \<le> m)"

fun option_all :: "'a option list \<Rightarrow> 'a list option" where
  "option_all [] = Some []"
| "option_all (None # xs) = None"
| "option_all (Some x # xs) = map_option ((#) x) (option_all xs)"

fun first_some :: "'a option list \<Rightarrow> 'a option" where
  "first_some [] = None"
| "first_some (Some x # xs) = Some x"
| "first_some (None # xs) = first_some xs"

definition present :: "(string \<times> json) list \<Rightarrow> (string \<times> json) list" where
  "present kvs = filter (\<lambda>kv. snd kv \<noteq> Undefined) kvs"

definition discriminates :: "string \<Rightarrow> json \<Rightarrow> zod \<Rightarrow> bool" where
  "discriminates k v z = (case map_of (zod_shape z) k of Some (ZLiteral l) \<Rightarrow> v = l | _ \<Rightarrow> False)"

text \<open>
  The library's documented behaviour. An object keeps the fields of its shape, in that order, and
  drops the others; a field that parses to undefined is left out. A union returns what its first
  accepting member returns; a discriminated union uses the one member whose literal is there.
\<close>

locale zod_library =
  fixes fmt :: "string_format \<Rightarrow> string \<Rightarrow> bool"
    and parse :: "zod \<Rightarrow> json \<Rightarrow> json option"
  assumes parse_string: "parse (ZString cs) v = (case v of Str s \<Rightarrow> map_option Str (run_checks fmt cs s) | _ \<Rightarrow> None)"
    and parse_number: "parse (ZNumber ns) v = (case v of Num x \<Rightarrow> if list_all (\<lambda>c. number_ok c x) ns then Some v else None | _ \<Rightarrow> None)"
    and parse_boolean: "parse ZBoolean v = (case v of Bool b \<Rightarrow> Some v | _ \<Rightarrow> None)"
    and parse_literal: "parse (ZLiteral l) v = (if v = l then Some v else None)"
    and parse_enum: "parse (ZEnum ss) v = (case v of Str s \<Rightarrow> if s \<in> set ss then Some v else None | _ \<Rightarrow> None)"
    and parse_unknown: "parse ZUnknown v = Some v"
    and parse_nullable: "parse (ZNullable z) v = (if v = Null then Some Null else parse z v)"
    and parse_optional: "parse (ZOptional z) v = (if v = Undefined then Some Undefined else parse z v)"
    and parse_default: "parse (ZDefault z d) v = (if v = Undefined then Some d else parse z v)"
    and parse_array: "parse (ZArray z lo hi) v = (case v of
        Arr vs \<Rightarrow> if length_ok lo hi (length vs) then map_option Arr (option_all (map (parse z) vs)) else None
      | _ \<Rightarrow> None)"
    and parse_object: "parse (ZObject fs) v = (case v of
        Obj kvs \<Rightarrow> map_option (\<lambda>ws. Obj (present (zip (map fst fs) ws))) (option_all (map (\<lambda>(k, z). parse z (field k kvs)) fs))
      | _ \<Rightarrow> None)"
    and parse_record: "parse (ZRecord z) v = (case v of
        Obj kvs \<Rightarrow> map_option (\<lambda>ws. Obj (zip (map fst kvs) ws)) (option_all (map (\<lambda>kv. parse z (snd kv)) kvs))
      | _ \<Rightarrow> None)"
    and parse_union: "parse (ZUnion zs) v = first_some (map (\<lambda>z. parse z v) zs)"
    and parse_discriminated: "parse (ZDiscriminated k zs) v = (case v of
        Obj kvs \<Rightarrow> first_some (map (\<lambda>z. parse z v) (filter (discriminates k (field k kvs)) zs))
      | _ \<Rightarrow> None)"
    and parse_pipe: "parse (ZPipe y z) v = (case parse y v of None \<Rightarrow> None | Some w \<Rightarrow> parse z w)"

lemma size_field [termination_simp]: "(k, z) \<in> set fs \<Longrightarrow> size z < Suc (size_list (size_prod (\<lambda>_. 0) size) fs)"
  by (induction fs) auto

text \<open>A function that meets the contract.\<close>

function (sequential) zod_parse :: "(string_format \<Rightarrow> string \<Rightarrow> bool) \<Rightarrow> zod \<Rightarrow> json \<Rightarrow> json option" where
  "zod_parse fmt (ZString cs) v = (case v of Str s \<Rightarrow> map_option Str (run_checks fmt cs s) | _ \<Rightarrow> None)"
| "zod_parse fmt (ZNumber ns) v = (case v of Num x \<Rightarrow> if list_all (\<lambda>c. number_ok c x) ns then Some v else None | _ \<Rightarrow> None)"
| "zod_parse fmt ZBoolean v = (case v of Bool b \<Rightarrow> Some v | _ \<Rightarrow> None)"
| "zod_parse fmt (ZLiteral l) v = (if v = l then Some v else None)"
| "zod_parse fmt (ZEnum ss) v = (case v of Str s \<Rightarrow> if s \<in> set ss then Some v else None | _ \<Rightarrow> None)"
| "zod_parse fmt ZUnknown v = Some v"
| "zod_parse fmt (ZNullable z) v = (if v = Null then Some Null else zod_parse fmt z v)"
| "zod_parse fmt (ZOptional z) v = (if v = Undefined then Some Undefined else zod_parse fmt z v)"
| "zod_parse fmt (ZDefault z d) v = (if v = Undefined then Some d else zod_parse fmt z v)"
| "zod_parse fmt (ZArray z lo hi) v = (case v of
     Arr vs \<Rightarrow> if length_ok lo hi (length vs) then map_option Arr (option_all (map (zod_parse fmt z) vs)) else None
   | _ \<Rightarrow> None)"
| "zod_parse fmt (ZObject fs) v = (case v of
     Obj kvs \<Rightarrow> map_option (\<lambda>ws. Obj (present (zip (map fst fs) ws)))
       (option_all (map (\<lambda>(k, z). zod_parse fmt z (field k kvs)) fs))
   | _ \<Rightarrow> None)"
| "zod_parse fmt (ZRecord z) v = (case v of
     Obj kvs \<Rightarrow> map_option (\<lambda>ws. Obj (zip (map fst kvs) ws)) (option_all (map (\<lambda>kv. zod_parse fmt z (snd kv)) kvs))
   | _ \<Rightarrow> None)"
| "zod_parse fmt (ZUnion zs) v = first_some (map (\<lambda>z. zod_parse fmt z v) zs)"
| "zod_parse fmt (ZDiscriminated k zs) v = (case v of
     Obj kvs \<Rightarrow> first_some (map (\<lambda>z. zod_parse fmt z v) (filter (discriminates k (field k kvs)) zs))
   | _ \<Rightarrow> None)"
| "zod_parse fmt (ZPipe y z) v = (case zod_parse fmt y v of None \<Rightarrow> None | Some w \<Rightarrow> zod_parse fmt z w)"
  by pat_completeness auto
termination
  by (relation "measure (\<lambda>(_, z, _). size z)") (auto simp: termination_simp size_list_estimation' less_Suc_eq_le)

interpretation mem_zod: zod_library fmt "zod_parse fmt" for fmt
  by unfold_locales simp_all

subsection \<open>Well-formed schemas\<close>

fun transforms :: "string_check \<Rightarrow> bool" where
  "transforms Trim = True"
| "transforms ToLowerCase = True"
| "transforms _ = False"

fun stable_checks :: "string_check list \<Rightarrow> bool" where
  \<comment> \<open>the string is first brought into its normal form, then tested\<close>
  "stable_checks [] = True"
| "stable_checks (c # cs) = (if transforms c then stable_checks cs else list_all (\<lambda>d. \<not> transforms d) cs)"

fun normalised :: "string_check list \<Rightarrow> string \<Rightarrow> string" where
  "normalised [] s = s"
| "normalised (Trim # cs) s = normalised cs (js_trim s)"
| "normalised (ToLowerCase # cs) s = normalised cs (js_lower s)"
| "normalised (_ # cs) s = normalised cs s"

fun string_chain :: "zod \<Rightarrow> string_check list option" where
  "string_chain (ZString cs) = Some cs"
| "string_chain (ZPipe (ZString cs) (ZString ds)) = Some (cs @ ds)"
| "string_chain _ = None"

definition lower_chain :: "zod \<Rightarrow> bool" where
  "lower_chain z = (case string_chain z of None \<Rightarrow> False
     | Some cs \<Rightarrow> take 2 cs = [Trim, ToLowerCase] \<and> list_all (\<lambda>d. \<not> transforms d) (drop 2 cs))"

fun is_literal :: "zod \<Rightarrow> bool" where
  "is_literal (ZLiteral l) = True"
| "is_literal _ = False"

fun default_ok :: "zod \<Rightarrow> json \<Rightarrow> bool" where
  "default_ok ZBoolean (Bool b) = True"
| "default_ok (ZString cs) (Str s) = (s = [] \<and> list_all (\<lambda>c. case c of Max n \<Rightarrow> True | _ \<Rightarrow> False) cs)"
| "default_ok (ZNumber ns) (Num x) = list_all (\<lambda>c. number_ok c x) ns"
| "default_ok (ZArray z lo hi) (Arr vs) = (vs = [] \<and> length_ok lo hi 0)"
| "default_ok (ZNullable z) Null = True"
| "default_ok _ _ = False"

definition field_literal :: "string \<Rightarrow> zod \<Rightarrow> json option" where
  "field_literal k z = (case map_of (zod_shape z) k of Some (ZLiteral l) \<Rightarrow> if l = Undefined then None else Some l | _ \<Rightarrow> None)"

fun is_object :: "zod \<Rightarrow> bool" where
  "is_object (ZObject fs) = True"
| "is_object _ = False"

fun wf_schema :: "zod \<Rightarrow> bool" where
  "wf_schema (ZString cs) = stable_checks cs"
| "wf_schema (ZNullable z) = wf_schema z"
| "wf_schema (ZOptional z) = wf_schema z"
| "wf_schema (ZDefault z d) = (wf_schema z \<and> default_ok z d)"
| "wf_schema (ZArray z lo hi) = wf_schema z"
| "wf_schema (ZObject fs) = (distinct (map fst fs) \<and> list_all (\<lambda>(k, z). wf_schema z) fs)"
| "wf_schema (ZRecord z) = wf_schema z"
| "wf_schema (ZUnion zs) = (list_all wf_schema zs \<and> list_all (\<lambda>z. lower_chain z \<or> is_literal z) zs \<and>
     list_all is_literal (dropWhile lower_chain zs))"
| "wf_schema (ZDiscriminated k zs) = (list_all wf_schema zs \<and> list_all is_object zs \<and>
     list_all (\<lambda>z. field_literal k z \<noteq> None) zs \<and> distinct (map (field_literal k) zs))"
| "wf_schema (ZPipe y z) = (case string_chain (ZPipe y z) of None \<Rightarrow> False | Some cs \<Rightarrow> stable_checks cs)"
| "wf_schema _ = True"

text \<open>The values of the type of a schema, \<open>z.infer\<close>.\<close>

inductive has_type :: "zod \<Rightarrow> json \<Rightarrow> bool" where
  "has_type (ZString cs) (Str s)"
| "has_type (ZNumber ns) (Num x)"
| "has_type ZBoolean (Bool b)"
| "has_type (ZLiteral l) l"
| "s \<in> set ss \<Longrightarrow> has_type (ZEnum ss) (Str s)"
| "has_type ZUnknown v"
| "has_type (ZNullable z) Null"
| "has_type z v \<Longrightarrow> has_type (ZNullable z) v"
| "has_type (ZOptional z) Undefined"
| "has_type z v \<Longrightarrow> has_type (ZOptional z) v"
| "has_type z v \<Longrightarrow> has_type (ZDefault z d) v"
| "(\<And>v. v \<in> set vs \<Longrightarrow> has_type z v) \<Longrightarrow> has_type (ZArray z lo hi) (Arr vs)"
| "(\<And>k z. (k, z) \<in> set fs \<Longrightarrow> has_type z (field k kvs)) \<Longrightarrow> set (map fst kvs) \<subseteq> set (map fst fs) \<Longrightarrow>
     has_type (ZObject fs) (Obj kvs)"
| "(\<And>kv. kv \<in> set kvs \<Longrightarrow> has_type z (snd kv)) \<Longrightarrow> has_type (ZRecord z) (Obj kvs)"
| "z \<in> set zs \<Longrightarrow> has_type z v \<Longrightarrow> has_type (ZUnion zs) v"
| "z \<in> set zs \<Longrightarrow> has_type z v \<Longrightarrow> has_type (ZDiscriminated k zs) v"
| "has_type z v \<Longrightarrow> has_type (ZPipe y z) v"

inductive_cases has_type_objE: "has_type (ZObject fs) v"
inductive_cases has_type_strE: "has_type (ZString cs) v"
inductive_cases has_type_arrE: "has_type (ZArray z lo hi) v"

subsection \<open>Helper facts\<close>

lemma option_all_Some: "option_all xs = Some ys \<longleftrightarrow> xs = map Some ys"
  by (induction xs arbitrary: ys rule: option_all.induct) (auto simp: Cons_eq_map_conv)

lemma first_some_Some:
  "first_some xs = Some y \<longleftrightarrow> (\<exists>as bs. xs = as @ Some y # bs \<and> (\<forall>a \<in> set as. a = None))"
proof (induction xs rule: first_some.induct)
  case (2 x xs)
  show ?case by (auto simp: Cons_eq_append_conv)
next
  case (3 xs)
  show ?case
  proof
    assume "first_some (None # xs) = Some y"
    then obtain as bs where "xs = as @ Some y # bs" "\<forall>a \<in> set as. a = None" using 3 by auto
    then show "\<exists>as bs. None # xs = as @ Some y # bs \<and> (\<forall>a \<in> set as. a = None)"
      by (intro exI [of _ "None # as"] exI [of _ bs]) simp
  next
    assume "\<exists>as bs. None # xs = as @ Some y # bs \<and> (\<forall>a \<in> set as. a = None)"
    then show "first_some (None # xs) = Some y" using 3 by (auto simp: Cons_eq_append_conv)
  qed
qed simp

lemma first_some_map: "first_some (map f xs) = Some y \<Longrightarrow> \<exists>x \<in> set xs. f x = Some y"
  by (auto simp: first_some_Some map_eq_append_conv Cons_eq_map_conv)

lemma run_checks_append:
  "run_checks fmt (cs @ ds) s = (case run_checks fmt cs s of None \<Rightarrow> None | Some t \<Rightarrow> run_checks fmt ds t)"
  by (induction fmt cs s rule: run_checks.induct) auto

lemma run_checks_tests:
  "list_all (\<lambda>d. \<not> transforms d) cs \<Longrightarrow> run_checks fmt cs s = Some t \<Longrightarrow> t = s"
  by (induction fmt cs s rule: run_checks.induct) (auto split: if_splits)

lemma run_checks_stable:
  "stable_checks cs \<Longrightarrow> run_checks fmt cs s = Some t \<Longrightarrow>
    run_checks fmt cs t = Some t \<and> (js_trim s = s \<longrightarrow> js_trim t = t) \<and> (js_lower s = s \<longrightarrow> js_lower t = t)"
proof (induction cs arbitrary: s)
  case (Cons c cs)
  have test: "run_checks fmt (c # cs) t = Some t \<and> (js_trim s = s \<longrightarrow> js_trim t = t) \<and> (js_lower s = s \<longrightarrow> js_lower t = t)"
    if "\<not> transforms c"
  proof -
    from that Cons.prems(1) have "list_all (\<lambda>d. \<not> transforms d) (c # cs)" by simp
    from run_checks_tests [OF this Cons.prems(2)] Cons.prems(2) show ?thesis by simp
  qed
  show ?case
  proof (cases c)
    case Trim
    with Cons have "run_checks fmt cs t = Some t" "js_trim t = t" "js_lower (js_trim s) = js_trim s \<longrightarrow> js_lower t = t" by auto
    with Trim show ?thesis by (simp flip: js_trim_lower)
  next
    case ToLowerCase
    with Cons have "run_checks fmt cs t = Some t" "js_lower t = t" "js_trim (js_lower s) = js_lower s \<longrightarrow> js_trim t = t" by auto
    with ToLowerCase show ?thesis by (simp add: js_trim_lower)
  qed (use test in auto)
qed simp

lemma run_checks_idem: "stable_checks cs \<Longrightarrow> run_checks fmt cs s = Some t \<Longrightarrow> run_checks fmt cs t = Some t"
  using run_checks_stable by blast

lemma lower_chain_norm:
  assumes "take 2 cs = [Trim, ToLowerCase]" and "list_all (\<lambda>d. \<not> transforms d) (drop 2 cs)"
  shows "run_checks fmt cs s = run_checks fmt cs (js_lower (js_trim s))"
    and "run_checks fmt cs s = Some t \<Longrightarrow> t = js_lower (js_trim s)"
proof -
  obtain ds where cs: "cs = Trim # ToLowerCase # ds" and ds: "list_all (\<lambda>d. \<not> transforms d) ds"
    using assms by (metis append_Cons append_Nil append_take_drop_id)
  show "run_checks fmt cs s = run_checks fmt cs (js_lower (js_trim s))" by (simp add: cs js_trim_lower)
  show "run_checks fmt cs s = Some t \<Longrightarrow> t = js_lower (js_trim s)" using run_checks_tests [OF ds] cs by simp
qed

lemma field_zip_present:
  assumes "distinct ks" and "length ks = length ws" and "i < length ks"
  shows "field (ks ! i) (present (zip ks ws)) = ws ! i"
  using assms
proof (induction ks arbitrary: ws i)
  case (Cons k ks)
  then obtain w ws' where ws: "ws = w # ws'" by (cases ws) auto
  have none: "map_of (present (zip ks ws')) k = None"
    using Cons.prems(1) by (auto simp: map_of_eq_None_iff present_def dest: set_zip_leftD)
  show ?case
  proof (cases i)
    case 0
    with none ws show ?thesis by (simp add: field_def present_def)
  next
    case (Suc j)
    then have "ks ! j \<noteq> k" using Cons.prems by (auto simp: nth_mem)
    with Suc Cons ws show ?thesis by (simp add: field_def present_def)
  qed
qed simp

lemma map_field_zip: "distinct ks \<Longrightarrow> length ks = length ws \<Longrightarrow> map (\<lambda>k. field k (present (zip ks ws))) ks = ws"
  by (rule nth_equalityI) (auto simp: field_zip_present)

subsection \<open>What a schema returns\<close>

context zod_library
begin

lemma parse_chain:
  "string_chain z = Some cs \<Longrightarrow> parse z v = (case v of Str s \<Rightarrow> map_option Str (run_checks fmt cs s) | _ \<Rightarrow> None)"
  by (induction z rule: string_chain.induct)
    (auto simp: parse_string parse_pipe run_checks_append split: json.split option.split)

lemma chain_idem:
  assumes "string_chain z = Some cs" and "stable_checks cs" and "parse z v = Some w"
  shows "parse z w = Some w"
  using assms by (auto simp: parse_chain dest: run_checks_idem split: json.splits)

lemma parse_default_ok: "default_ok z d \<Longrightarrow> parse z d = Some d"
proof (induction z d rule: default_ok.induct)
  case (2 cs s)
  have "list_all (\<lambda>c. case c of Max n \<Rightarrow> True | _ \<Rightarrow> False) cs \<Longrightarrow> run_checks fmt cs [] = Some []"
    by (induction cs) (auto split: string_check.splits)
  with 2 show ?case by (simp add: parse_string)
qed (simp_all add: parse_boolean parse_number parse_array parse_nullable)

lemma object_fields:
  assumes "parse (ZObject fs) v = Some w" and "distinct (map fst fs)"
  shows "\<exists>kvs ws. v = Obj kvs \<and> w = Obj ws \<and> set (map fst ws) \<subseteq> set (map fst fs) \<and>
    (\<forall>f \<in> set fs. parse (snd f) (field (fst f) kvs) = Some (field (fst f) ws)) \<and>
    present (zip (map fst fs) (map (\<lambda>f. field (fst f) ws) fs)) = ws"
proof -
  obtain kvs ws where v: "v = Obj kvs" and w: "w = Obj (present (zip (map fst fs) ws))"
    and ws: "map (\<lambda>f. parse (snd f) (field (fst f) kvs)) fs = map Some ws"
    using assms(1) by (auto simp: parse_object option_all_Some case_prod_unfold split: json.splits)
  let ?w = "present (zip (map fst fs) ws)"
  have "length fs = length ws" using ws by (metis length_map)
  then have "map (\<lambda>k. field k ?w) (map fst fs) = ws" using assms(2) by (intro map_field_zip) auto
  then have f: "map (\<lambda>f. field (fst f) ?w) fs = ws" by (simp add: comp_def)
  have "map (\<lambda>f. parse (snd f) (field (fst f) kvs)) fs = map (\<lambda>f. Some (field (fst f) ?w)) fs"
    using ws arg_cong [OF f, of "map Some"] by (simp add: comp_def)
  then have "\<forall>f \<in> set fs. parse (snd f) (field (fst f) kvs) = Some (field (fst f) ?w)"
    by (simp only: map_eq_conv)
  moreover have "set (map fst ?w) \<subseteq> set (map fst fs)"
    by (auto simp: present_def dest: set_zip_leftD)
  ultimately show ?thesis using v w f by (intro exI [of _ kvs] exI [of _ ?w] conjI) simp_all
qed

lemma object_idem:
  assumes "distinct (map fst fs)" and "parse (ZObject fs) v = Some w"
    and "\<And>f u x. f \<in> set fs \<Longrightarrow> parse (snd f) u = Some x \<Longrightarrow> parse (snd f) x = Some x"
  shows "parse (ZObject fs) w = Some w"
proof -
  obtain kvs ws where w: "w = Obj ws" and f: "\<forall>f \<in> set fs. parse (snd f) (field (fst f) kvs) = Some (field (fst f) ws)"
    and p: "present (zip (map fst fs) (map (\<lambda>f. field (fst f) ws) fs)) = ws"
    using object_fields [OF assms(2,1)] by blast
  from f assms(3) have "\<forall>f \<in> set fs. parse (snd f) (field (fst f) ws) = Some (field (fst f) ws)" by blast
  then have "option_all (map (\<lambda>f. parse (snd f) (field (fst f) ws)) fs) = Some (map (\<lambda>f. field (fst f) ws) fs)"
    unfolding option_all_Some by simp
  then show ?thesis unfolding w parse_object case_prod_unfold by (simp add: p)
qed

lemma literal_field:
  assumes "field_literal k (ZObject fs) = Some l" and "distinct (map fst fs)" and "parse (ZObject fs) v = Some (Obj ws)"
  shows "field k ws = l"
proof -
  obtain kvs where f: "\<forall>f \<in> set fs. parse (snd f) (field (fst f) kvs) = Some (field (fst f) ws)"
    using object_fields [OF assms(3,2)] by blast
  have "(k, ZLiteral l) \<in> set fs"
    using assms(1) by (auto simp: field_literal_def split: option.splits zod.splits if_splits dest: map_of_SomeD)
  with f have "parse (ZLiteral l) (field k kvs) = Some (field k ws)" by force
  then show ?thesis by (simp add: parse_literal split: if_splits)
qed

end

context zod_library
begin

lemma chain_lower:
  assumes "lower_chain z"
  shows "parse z (Str s) = parse z (Str (js_lower (js_trim s)))"
    and "parse z v = Some w \<Longrightarrow> \<exists>s. v = Str s \<and> w = Str (js_lower (js_trim s))"
proof -
  obtain cs where c: "string_chain z = Some cs" "take 2 cs = [Trim, ToLowerCase]" "list_all (\<lambda>d. \<not> transforms d) (drop 2 cs)"
    using assms by (auto simp: lower_chain_def split: option.splits)
  show "parse z (Str s) = parse z (Str (js_lower (js_trim s)))"
    unfolding parse_chain [OF c(1)] json.case by (subst lower_chain_norm(1) [OF c(2,3)]) (rule refl)
  show "parse z v = Some w \<Longrightarrow> \<exists>s. v = Str s \<and> w = Str (js_lower (js_trim s))"
    using lower_chain_norm(2) [OF c(2,3)] by (auto simp: parse_chain [OF c(1)] split: json.splits)
qed

lemma before_literal:
  assumes "list_all Q (dropWhile P (xs @ x # ys))" and "\<not> Q x"
  shows "P x" and "y \<in> set xs \<Longrightarrow> P y"
proof -
  have "(\<forall>y \<in> set xs. P y) \<and> P x"
    using assms by (induction xs) (auto simp del: dropWhile_append1 dropWhile_append2 split: if_split_asm)
  then show "P x" and "y \<in> set xs \<Longrightarrow> P y" by auto
qed

lemma union_idem:
  assumes zs: "list_all (\<lambda>z. lower_chain z \<or> is_literal z) zs" and lits: "list_all is_literal (dropWhile lower_chain zs)"
    and p: "parse (ZUnion zs) v = Some w"
    and IH: "\<And>z u x. z \<in> set zs \<Longrightarrow> parse z u = Some x \<Longrightarrow> parse z x = Some x"
  shows "parse (ZUnion zs) w = Some w"
proof -
  obtain as z bs where split: "zs = as @ z # bs" and fails: "\<forall>y \<in> set as. parse y v = None" and ok: "parse z v = Some w"
    using p by (auto simp: parse_union first_some_Some map_eq_append_conv Cons_eq_map_conv)
  have "parse y w = None" if y: "y \<in> set as" for y
  proof (cases "is_literal z")
    case True
    then have "w = v" using ok by (cases z) (auto simp: parse_literal split: if_splits)
    with fails y show ?thesis by simp
  next
    case False
    note b = before_literal [OF lits [unfolded split] False]
    from b y have "lower_chain y" "lower_chain z" by blast+
    obtain s where s: "v = Str s" "w = Str (js_lower (js_trim s))"
      using chain_lower(2) [OF \<open>lower_chain z\<close> ok] by blast
    have "parse y v = None" using fails y by blast
    then show ?thesis using chain_lower(1) [OF \<open>lower_chain y\<close>, of s] s by simp
  qed
  moreover have "parse z w = Some w" using IH [OF _ ok] by (simp add: split)
  ultimately show ?thesis unfolding parse_union first_some_Some split
    by (intro exI [of _ "map (\<lambda>z. parse z w) as"] exI [of _ "map (\<lambda>z. parse z w) bs"]) simp
qed

lemma distinct_filter_single:
  assumes "distinct (map f xs)" and "x \<in> set xs" and "\<And>y. y \<in> set xs \<Longrightarrow> P y \<longleftrightarrow> f y = f x"
  shows "filter P xs = [x]"
  using assms by (induction xs) (auto simp: filter_empty_conv, metis image_eqI)

lemma discriminated_member:
  assumes "list_all is_object zs" and "list_all (\<lambda>z. field_literal k z \<noteq> None) zs"
    and "distinct (map (field_literal k) zs)" and "z \<in> set zs" and "field_literal k z = Some (field k kvs)"
  shows "parse (ZDiscriminated k zs) (Obj kvs) = parse z (Obj kvs)"
proof -
  have "discriminates k (field k kvs) y \<longleftrightarrow> field_literal k y = field_literal k z" if "y \<in> set zs" for y
    using that assms(2,5) unfolding list_all_iff field_literal_def discriminates_def
    by (auto split: option.splits zod.splits if_splits)
  then have "filter (discriminates k (field k kvs)) zs = [z]"
    using assms(3,4) by (intro distinct_filter_single) auto
  then show ?thesis by (cases "parse z (Obj kvs)") (simp_all add: parse_discriminated)
qed

lemma discriminated_idem:
  assumes wf: "list_all wf_schema zs" "list_all is_object zs" "list_all (\<lambda>z. field_literal k z \<noteq> None) zs"
      "distinct (map (field_literal k) zs)"
    and p: "parse (ZDiscriminated k zs) v = Some w"
    and IH: "\<And>z u x. z \<in> set zs \<Longrightarrow> parse z u = Some x \<Longrightarrow> parse z x = Some x"
  shows "parse (ZDiscriminated k zs) w = Some w \<and> (\<exists>z \<in> set zs. parse z v = Some w)"
proof -
  obtain kvs where v: "v = Obj kvs" using p by (auto simp: parse_discriminated split: json.splits)
  have "first_some (map (\<lambda>z. parse z v) (filter (discriminates k (field k kvs)) zs)) = Some w"
    using p v by (simp add: parse_discriminated)
  from first_some_map [OF this] obtain z where z: "z \<in> set zs" and ok: "parse z v = Some w" by auto
  obtain fs where fs: "z = ZObject fs" using wf(2) z by (cases z) (auto simp: list_all_iff)
  have d: "distinct (map fst fs)" using wf(1) z fs by (auto simp: list_all_iff)
  obtain ws where w: "w = Obj ws" using object_fields [OF ok [unfolded fs] d] by blast
  obtain l where l: "field_literal k z = Some l" using wf(3) z by (auto simp: list_all_iff)
  have "field k ws = l" using literal_field [OF l [unfolded fs] d] ok fs w by simp
  then have "parse (ZDiscriminated k zs) w = parse z w"
    unfolding w using l by (intro discriminated_member [OF wf(2-4) z]) simp
  with IH [OF z ok] ok z show ?thesis by auto
qed

lemma parse_defined: "v \<noteq> Undefined \<Longrightarrow> parse z v \<noteq> Some Undefined"
proof (induction z arbitrary: v)
  case (ZUnion zs)
  then show ?case by (auto simp: parse_union dest!: first_some_map)
next
  case (ZDiscriminated k zs)
  then show ?case by (auto simp: parse_discriminated dest!: first_some_map split: json.splits)
next
  case (ZPipe y z)
  show ?case
  proof (cases "parse y v")
    case (Some w)
    with ZPipe.IH(1) [OF ZPipe.prems] have "w \<noteq> Undefined" by auto
    with Some ZPipe.IH(2) show ?thesis by (simp add: parse_pipe)
  qed (simp add: parse_pipe)
qed (auto simp: parse_string parse_number parse_boolean parse_literal parse_enum parse_unknown parse_nullable
    parse_optional parse_default parse_array parse_object parse_record split: json.splits)

lemma parse_idem: "wf_schema z \<Longrightarrow> parse z v = Some w \<Longrightarrow> parse z w = Some w"
proof (induction z arbitrary: v w)
  case (ZString cs)
  then show ?case by (intro chain_idem [of _ cs]) auto
next
  case (ZDefault z d)
  have d: "parse z d = Some d" using ZDefault.prems(1) by (intro parse_default_ok) simp
  show ?case
  proof (cases "v = Undefined")
    case True
    with ZDefault.prems d show ?thesis by (auto simp: parse_default)
  next
    case False
    with ZDefault have "parse z v = Some w" "parse z w = Some w" by (auto simp: parse_default)
    with parse_defined [of v z] ZDefault.prems(1) False show ?thesis by (auto simp: parse_default)
  qed
next
  case (ZArray z lo hi)
  then obtain vs ws where w: "w = Arr ws" "length_ok lo hi (length vs)" "map (parse z) vs = map Some ws"
    by (auto simp: parse_array option_all_Some split: json.splits if_splits)
  then have "\<forall>x \<in> set ws. \<exists>u. parse z u = Some x"
    by (metis (no_types, lifting) image_iff list.set_map)
  then have "map (parse z) ws = map Some ws" using ZArray by auto
  moreover have "length ws = length vs" using w(3) by (metis length_map)
  ultimately show ?case using w by (simp add: parse_array option_all_Some)
next
  case (ZObject fs)
  then show ?case by (intro object_idem [of fs v]) (auto simp: list_all_iff)
next
  case (ZRecord z)
  then obtain kvs ws where w: "w = Obj (zip (map fst kvs) ws)" and ws: "map (\<lambda>kv. parse z (snd kv)) kvs = map Some ws"
    by (auto simp: parse_record option_all_Some split: json.splits)
  then have "\<forall>x \<in> set ws. \<exists>u. parse z u = Some x"
    by (metis (no_types, lifting) image_iff list.set_map)
  then have 1: "map (parse z) ws = map Some ws" using ZRecord by auto
  have 2: "length ws = length kvs" using ws by (metis length_map)
  have "map (\<lambda>kv. parse z (snd kv)) (zip (map fst kvs) ws) = map (parse z) (map snd (zip (map fst kvs) ws))"
    by (simp add: comp_def)
  also have "\<dots> = map Some ws" using 1 2 by simp
  finally have "option_all (map (\<lambda>kv. parse z (snd kv)) (zip (map fst kvs) ws)) = Some ws"
    unfolding option_all_Some .
  then show ?case using 2 unfolding w parse_record by simp
next
  case (ZUnion zs)
  then show ?case by (intro union_idem) (auto simp: list_all_iff)
next
  case (ZDiscriminated k zs)
  have "parse (ZDiscriminated k zs) w = Some w \<and> (\<exists>z \<in> set zs. parse z v = Some w)"
    using ZDiscriminated by (intro discriminated_idem) (auto simp: list_all_iff)
  then show ?case ..
next
  case (ZPipe y z)
  then obtain cs where "string_chain (ZPipe y z) = Some cs" "stable_checks cs" by (auto split: option.splits)
  from chain_idem [OF this ZPipe.prems(2)] show ?case .
qed (auto simp: parse_number parse_boolean parse_literal parse_enum parse_unknown parse_nullable parse_optional split: json.splits if_splits)

end

text \<open>An object schema of optional fields only adds no field to what it is given.\<close>

fun is_optional :: "zod \<Rightarrow> bool" where
  "is_optional (ZOptional z) = True"
| "is_optional _ = False"

context zod_library
begin

lemma parse_typed: "wf_schema z \<Longrightarrow> parse z v = Some w \<Longrightarrow> has_type z w"
proof (induction z arbitrary: v w)
  case (ZDefault z d)
  have d: "parse z d = Some d" using ZDefault.prems(1) by (intro parse_default_ok) simp
  from ZDefault.prems have "parse z v = Some w \<or> w = d" by (auto simp: parse_default split: if_splits)
  with d ZDefault.IH ZDefault.prems(1) show ?case by (auto intro: has_type.intros)
next
  case (ZArray z lo hi)
  then obtain vs ws where w: "w = Arr ws" "map (parse z) vs = map Some ws"
    by (auto simp: parse_array option_all_Some split: json.splits if_splits)
  then have "\<forall>x \<in> set ws. \<exists>u. parse z u = Some x"
    by (metis (no_types, lifting) image_iff list.set_map)
  with ZArray w show ?case by (auto intro!: has_type.intros(12))
next
  case (ZObject fs)
  have "distinct (map fst fs)" using ZObject.prems(1) by simp
  from object_fields [OF ZObject.prems(2) this] obtain kvs ws where w: "w = Obj ws"
    and k: "set (map fst ws) \<subseteq> set (map fst fs)"
    and f: "\<forall>f \<in> set fs. parse (snd f) (field (fst f) kvs) = Some (field (fst f) ws)" by blast
  have "has_type z (field k ws)" if "(k, z) \<in> set fs" for k z
  proof -
    from f that have "parse z (field k kvs) = Some (field k ws)" by fastforce
    moreover from ZObject.prems(1) that have "wf_schema z" by (auto simp: list_all_iff)
    ultimately show ?thesis using ZObject.IH [OF that, of z] by simp
  qed
  then have "has_type (ZObject fs) (Obj ws)" by (intro has_type.intros(13) k)
  with w show ?case by simp
next
  case (ZRecord z)
  then obtain kvs ws where w: "w = Obj (zip (map fst kvs) ws)" and ws: "map (\<lambda>kv. parse z (snd kv)) kvs = map Some ws"
    by (auto simp: parse_record option_all_Some split: json.splits)
  then have "\<forall>x \<in> set ws. \<exists>u. parse z u = Some x"
    by (metis (no_types, lifting) image_iff list.set_map)
  with ZRecord have "\<forall>x \<in> set ws. has_type z x" by auto
  then have "has_type (ZRecord z) (Obj (zip (map fst kvs) ws))"
    by (intro has_type.intros(14)) (metis prod.collapse set_zip_rightD)
  with w show ?case by simp
next
  case (ZUnion zs)
  have "first_some (map (\<lambda>z. parse z v) zs) = Some w" using ZUnion.prems(2) by (simp add: parse_union)
  from first_some_map [OF this] obtain z where "z \<in> set zs" "parse z v = Some w" by blast
  with ZUnion show ?case by (auto simp: list_all_iff intro: has_type.intros)
next
  case (ZDiscriminated k zs)
  obtain kvs where v: "v = Obj kvs" using ZDiscriminated.prems(2) by (auto simp: parse_discriminated split: json.splits)
  have "first_some (map (\<lambda>z. parse z v) (filter (discriminates k (field k kvs)) zs)) = Some w"
    using ZDiscriminated.prems(2) v by (simp add: parse_discriminated)
  from first_some_map [OF this] obtain z where "z \<in> set zs" "parse z v = Some w" by auto
  with ZDiscriminated show ?case by (auto simp: list_all_iff intro: has_type.intros)
next
  case (ZPipe y z)
  then obtain cs ds where "y = ZString cs" "z = ZString ds"
    by (cases "(ZPipe y z)" rule: string_chain.cases) auto
  with ZPipe.prems(2) show ?case
    by (auto simp: parse_pipe parse_string split: json.splits option.splits intro!: has_type.intros)
qed (auto simp: parse_string parse_number parse_boolean parse_literal parse_enum parse_unknown parse_nullable parse_optional
    split: json.splits if_splits intro: has_type.intros)

lemma optional_keys:
  assumes "distinct (map fst fs)" and "list_all (\<lambda>f. is_optional (snd f)) fs"
    and "parse (ZObject fs) (Obj kvs) = Some (Obj ws)"
  shows "set (map fst ws) \<subseteq> set (map fst kvs)"
proof
  fix k assume k: "k \<in> set (map fst ws)"
  from object_fields [OF assms(3,1)] have ks: "set (map fst ws) \<subseteq> set (map fst fs)"
    and f: "\<forall>f \<in> set fs. parse (snd f) (field (fst f) kvs) = Some (field (fst f) ws)"
    and p: "present (zip (map fst fs) (map (\<lambda>f. field (fst f) ws) fs)) = ws" by auto
  have "k \<in> set (map fst (present (zip (map fst fs) (map (\<lambda>f. field (fst f) ws) fs))))"
    using k unfolding p .
  then obtain i where "i < length fs" "k = fst (fs ! i)" "field k ws \<noteq> Undefined"
    by (auto simp: present_def set_zip)
  then obtain g where g: "g \<in> set fs" "k = fst g" "field k ws \<noteq> Undefined" using nth_mem by blast
  then obtain z where z: "snd g = ZOptional z" using assms(2) by (cases "snd g") (auto simp: list_all_iff)
  have "field k kvs \<noteq> Undefined"
  proof
    assume "field k kvs = Undefined"
    with f g z show False by (auto simp: parse_optional)
  qed
  then show "k \<in> set (map fst kvs)"
    by (auto simp: field_def map_of_eq_None_iff split: option.splits dest: map_of_SomeD intro: rev_image_eqI)
qed

end

context zod_library
begin

text \<open>A schema whose fields accept at least as much, with the same result, accepts the object too.\<close>

lemma object_weaken:
  assumes "parse (ZObject fs) v = Some w" and "map fst gs = map fst fs"
    and "\<And>i u x. i < length fs \<Longrightarrow> parse (snd (fs ! i)) u = Some x \<Longrightarrow> parse (snd (gs ! i)) u = Some x"
  shows "parse (ZObject gs) v = Some w"
proof -
  obtain kvs ws where v: "v = Obj kvs" and w: "w = Obj (present (zip (map fst fs) ws))"
    and ws: "map (\<lambda>f. parse (snd f) (field (fst f) kvs)) fs = map Some ws"
    using assms(1) by (auto simp: parse_object option_all_Some case_prod_unfold split: json.splits)
  have len: "length gs = length fs" "length ws = length fs" using assms(2) ws by (metis length_map)+
  have "map (\<lambda>f. parse (snd f) (field (fst f) kvs)) gs = map Some ws"
  proof (rule nth_equalityI)
    fix i assume "i < length (map (\<lambda>f. parse (snd f) (field (fst f) kvs)) gs)"
    then have i: "i < length fs" using len by simp
    have "parse (snd (fs ! i)) (field (fst (fs ! i)) kvs) = Some (ws ! i)"
      using arg_cong [OF ws, of "\<lambda>xs. xs ! i"] i len by simp
    moreover have "fst (gs ! i) = fst (fs ! i)"
      using arg_cong [OF assms(2), of "\<lambda>xs. xs ! i"] i len by simp
    ultimately show "map (\<lambda>f. parse (snd f) (field (fst f) kvs)) gs ! i = map Some ws ! i"
      using assms(3) [OF i] i len by simp
  qed (simp add: len)
  then have "option_all (map (\<lambda>f. parse (snd f) (field (fst f) kvs)) gs) = Some ws"
    unfolding option_all_Some .
  then show ?thesis unfolding v w parse_object case_prod_unfold assms(2) by simp
qed

end

context zod_library
begin

lemma array_weaken:
  "parse (ZArray z (Some m) None) u = Some x \<Longrightarrow> parse (ZDefault (ZArray z None None) d) u = Some x"
  by (auto simp: parse_default parse_array length_ok_def split: json.splits if_splits)

end

end
