(* ===== verification/Contract.thy ===== *)
theory Contract
  imports Zod
begin

text \<open>
  The contract between the server and the web client, \<open>packages/shared/src/index.ts\<close>: every
  request and response schema, written with the constructors of \<open>Zod\<close>, the constants, and the
  helper functions both sides call. The properties hold for every function that meets the
  documentation of the schema library, \<open>zod_library\<close>.
\<close>

definition APP_NAME :: string where "APP_NAME = ''Ionnet Mailer''"

definition MAX_ACCOUNTS :: nat where "MAX_ACCOUNTS = 5"

definition ACCOUNT_HEADER :: string where "ACCOUNT_HEADER = ''X-Account-Id''"

subsection \<open>Patterns\<close>

abbreviation az09 :: "char \<Rightarrow> bool" where
  "az09 c \<equiv> re_range (CHR ''a'') (CHR ''z'') c \<or> js_digit c"

definition domain_name_re :: re where
  "domain_name_re = Seqs [AtStart, Ahead (Seqs [Between 1 253 (Chr re_dot), AtEnd]),
     Plus (Seqs [Chr az09, Opt (Seq (Between 0 61 (Chr (\<lambda>c. az09 c \<or> c = CHR ''-''))) (Chr az09)), Lit ''.'']),
     Between 2 63 (Chr (re_range (CHR ''a'') (CHR ''z''))), AtEnd]"

definition local_part_re :: re where
  "local_part_re = Seqs [AtStart, Chr az09,
     Opt (Seq (Between 0 62 (Chr (\<lambda>c. az09 c \<or> c \<in> set ''._+-''))) (Chr az09)), AtEnd]"

abbreviation hexdig_i :: "char \<Rightarrow> bool" where
  "hexdig_i c \<equiv> js_digit c \<or> re_range (CHR ''a'') (CHR ''f'') (lower_char c)"

definition IP_OR_CIDR :: re where
  "IP_OR_CIDR = Seqs [AtStart,
     Alt (Seq (Between 1 3 Digit) (Times 3 (Seq (Lit ''.'') (Between 1 3 Digit))))
       (Seqs [Star (Chr (\<lambda>c. hexdig_i c \<or> c = CHR '':'')), Lit '':'', Star (Chr (\<lambda>c. hexdig_i c \<or> c \<in> set '':.''))]),
     Opt (Seq (Lit ''/'') (Between 1 3 Digit)), AtEnd]"

subsection \<open>Schemas\<close>

definition pageSchema :: "zod \<Rightarrow> zod" where
  "pageSchema item = ZObject [(''items'', ZArray item None None), (''nextCursor'', ZNullable (ZString []))]"

definition ApiErrorSchema :: zod where
  "ApiErrorSchema = ZObject [(''error'', ZString []), (''message'', ZString []), (''details'', ZOptional ZUnknown)]"

definition OkSchema :: zod where
  "OkSchema = ZObject [(''ok'', ZLiteral (Bool True))]"

definition EmailSchema :: zod where
  "EmailSchema = ZPipe (ZString [Trim, ToLowerCase]) (ZString [Format EmailFormat, Max 254])"

definition DomainNameSchema :: zod where
  "DomainNameSchema = ZString [Trim, ToLowerCase, Regex domain_name_re]"

definition LocalPartSchema :: zod where
  "LocalPartSchema = ZString [Trim, ToLowerCase, Regex local_part_re]"

definition PasswordSchema :: zod where
  "PasswordSchema = ZString [Min 10, Max 72]"

definition LoginRequestSchema :: zod where
  "LoginRequestSchema = ZObject [(''email'', EmailSchema), (''password'', ZString [Min 1, Max 72])]"

definition MeSchema :: zod where
  "MeSchema = ZObject [
     (''id'', ZString []),
     (''email'', ZString []),
     (''displayName'', ZString []),
     (''domain'', ZString []),
     (''isAdmin'', ZBoolean),
     (''signature'', ZNullable (ZString [])),
     (''quotaBytes'', ZNumber []),
     (''sendAs'', ZDefault (ZArray (ZString []) None None) (Arr [])),
     (''remoteContentAllow'', ZDefault (ZArray (ZString []) None None) (Arr []))]"

definition AccountSchema :: zod where
  "AccountSchema = ZObject [
     (''id'', ZString []),
     (''email'', ZString []),
     (''displayName'', ZString []),
     (''active'', ZBoolean),
     (''unread'', ZNullable (ZNumber []))]"

definition SwitchAccountRequestSchema :: zod where
  "SwitchAccountRequestSchema = ZObject [(''mailboxId'', ZString [Format UuidFormat])]"

definition LogoutRequestSchema :: zod where
  "LogoutRequestSchema = ZObject [(''all'', ZOptional ZBoolean), (''mailboxId'', ZOptional (ZString [Format UuidFormat]))]"

definition LogoutResultSchema :: zod where
  "LogoutResultSchema = ZObject [(''ok'', ZLiteral (Bool True)), (''active'', ZNullable MeSchema)]"

definition ProfileUpdateSchema :: zod where
  "ProfileUpdateSchema = ZObject [
     (''displayName'', ZOptional (ZString [Trim, Min 1, Max 120])),
     (''signature'', ZOptional (ZNullable (ZString [Max 5000])))]"

definition RemoteContentSenderSchema :: zod where
  "RemoteContentSenderSchema = ZUnion [EmailSchema, DomainNameSchema]"

definition PasswordChangeSchema :: zod where
  "PasswordChangeSchema = ZObject [(''currentPassword'', ZString [Min 1, Max 72]), (''newPassword'', PasswordSchema)]"

definition SetupStatusSchema :: zod where
  "SetupStatusSchema = ZObject [
     (''completed'', ZBoolean),
     (''hostname'', ZString []),
     (''publicIp'', ZNullable (ZString [])),
     (''version'', ZString []),
     (''createdDomainId'', ZNullable (ZString []))]"

definition SetupHostnameCheckRequestSchema :: zod where
  "SetupHostnameCheckRequestSchema = ZObject [(''hostname'', DomainNameSchema)]"

definition SetupHostnameCheckResultSchema :: zod where
  "SetupHostnameCheckResultSchema = ZObject [
     (''hostname'', ZString []),
     (''publicIp'', ZNullable (ZString [])),
     (''aRecords'', ZArray (ZString []) None None),
     (''aMatches'', ZBoolean),
     (''ptr'', ZArray (ZString []) None None),
     (''ptrMatches'', ZBoolean),
     (''warnings'', ZArray (ZString []) None None)]"

definition SetupCreateRequestSchema :: zod where
  "SetupCreateRequestSchema = ZObject [
     (''hostname'', DomainNameSchema),
     (''domain'', DomainNameSchema),
     (''adminLocalPart'', LocalPartSchema),
     (''adminDisplayName'', ZString [Trim, Min 1, Max 120]),
     (''adminPassword'', PasswordSchema)]"

definition DomainSchema :: zod where
  "DomainSchema = ZObject [
     (''id'', ZString []),
     (''name'', ZString []),
     (''active'', ZBoolean),
     (''dkimSelector'', ZString []),
     (''dkimPublicKey'', ZString []),
     (''catchAll'', ZNullable (ZString [])),
     (''mailboxCount'', ZNumber []),
     (''aliasCount'', ZNumber []),
     (''createdAt'', ZString [])]"

definition DomainCreateSchema :: zod where
  "DomainCreateSchema = ZObject [(''name'', DomainNameSchema)]"

definition DomainUpdateSchema :: zod where
  "DomainUpdateSchema = ZObject [(''active'', ZOptional ZBoolean), (''catchAll'', ZOptional (ZNullable EmailSchema))]"

definition MailboxSchema :: zod where
  "MailboxSchema = ZObject [
     (''id'', ZString []),
     (''domainId'', ZString []),
     (''localPart'', ZString []),
     (''email'', ZString []),
     (''displayName'', ZString []),
     (''quotaBytes'', ZNumber []),
     (''usedBytes'', ZNullable (ZNumber [])),
     (''isAdmin'', ZBoolean),
     (''active'', ZBoolean),
     (''receiveMail'', ZBoolean),
     (''createdAt'', ZString [])]"

definition MailboxCreateSchema :: zod where
  "MailboxCreateSchema = ZObject [
     (''localPart'', LocalPartSchema),
     (''displayName'', ZString [Trim, Min 1, Max 120]),
     (''password'', PasswordSchema),
     (''quotaBytes'', ZDefault (ZNumber [IsInt, AtLeast 0]) (Num 0)),
     (''isAdmin'', ZDefault ZBoolean (Bool False)),
     (''receiveMail'', ZDefault ZBoolean (Bool True))]"

definition MailboxUpdateSchema :: zod where
  "MailboxUpdateSchema = ZObject [
     (''displayName'', ZOptional (ZString [Trim, Min 1, Max 120])),
     (''password'', ZOptional PasswordSchema),
     (''quotaBytes'', ZOptional (ZNumber [IsInt, AtLeast 0])),
     (''isAdmin'', ZOptional ZBoolean),
     (''active'', ZOptional ZBoolean),
     (''receiveMail'', ZOptional ZBoolean)]"

definition AliasSchema :: zod where
  "AliasSchema = ZObject [
     (''id'', ZString []),
     (''domainId'', ZString []),
     (''source'', ZString []),
     (''destination'', ZString []),
     (''active'', ZBoolean),
     (''createdAt'', ZString [])]"

definition AliasCreateSchema :: zod where
  "AliasCreateSchema = ZObject [
     (''localPart'', ZUnion [LocalPartSchema, ZLiteral (Str [])]),
     (''destination'', EmailSchema)]"

definition AliasUpdateSchema :: zod where
  "AliasUpdateSchema = ZObject [(''destination'', ZOptional EmailSchema), (''active'', ZOptional ZBoolean)]"

definition DomainDetailSchema :: zod where
  "DomainDetailSchema = zod_extend DomainSchema [
     (''mailboxes'', ZArray MailboxSchema None None),
     (''aliases'', ZArray AliasSchema None None)]"

definition SetupStepKeySchema :: zod where
  "SetupStepKeySchema = ZEnum [''report-addresses'']"

definition SetupStepStateSchema :: zod where
  "SetupStepStateSchema = ZEnum [''done'', ''todo'', ''skipped'']"

definition SetupStepSchema :: zod where
  "SetupStepSchema = ZObject [
     (''key'', SetupStepKeySchema),
     (''title'', ZString []),
     (''description'', ZString []),
     (''state'', SetupStepStateSchema),
     (''items'', ZArray (ZObject [(''label'', ZString []), (''done'', ZBoolean), (''detail'', ZString [])]) None None)]"

definition ReportAddressesApplySchema :: zod where
  "ReportAddressesApplySchema = ZDiscriminated ''mode'' [
     ZObject [(''mode'', ZLiteral (Str ''forward'')), (''destination'', EmailSchema)],
     ZObject [
     (''mode'', ZLiteral (Str ''mailbox'')),
     (''domainId'', ZString []),
     (''localPart'', LocalPartSchema),
     (''displayName'', ZString [Trim, Min 1, Max 120]),
     (''password'', PasswordSchema)]]"

definition SetupStepSkipSchema :: zod where
  "SetupStepSkipSchema = ZObject [(''skipped'', ZBoolean)]"

definition DnsRecordTypeSchema :: zod where
  "DnsRecordTypeSchema = ZEnum [''MX'', ''A'', ''AAAA'', ''TXT'', ''SRV'', ''CNAME'', ''PTR'']"

definition DnsRecordStatusSchema :: zod where
  "DnsRecordStatusSchema = ZEnum [''ok'', ''missing'', ''mismatch'', ''unknown'']"

definition DnsRecordSchema :: zod where
  "DnsRecordSchema = ZObject [
     (''key'', ZString []),
     (''group'', ZEnum [''required'', ''recommended'', ''optional'']),
     (''title'', ZString []),
     (''description'', ZString []),
     (''type'', DnsRecordTypeSchema),
     (''name'', ZString []),
     (''value'', ZString []),
     (''priority'', ZOptional (ZNumber [])),
     (''ttl'', ZOptional (ZNumber [])),
     (''status'', DnsRecordStatusSchema),
     (''found'', ZArray (ZString []) None None),
     (''hint'', ZOptional (ZString []))]"

definition DnsCheckResultSchema :: zod where
  "DnsCheckResultSchema = ZObject [
     (''domain'', ZString []),
     (''hostname'', ZString []),
     (''checkedAt'', ZString []),
     (''allRequiredOk'', ZBoolean),
     (''records'', ZArray DnsRecordSchema None None)]"

definition ServiceCheckSchema :: zod where
  "ServiceCheckSchema = ZObject [(''name'', ZString []), (''ok'', ZBoolean), (''detail'', ZString [])]"

definition ServerStatusSchema :: zod where
  "ServerStatusSchema = ZObject [
     (''hostname'', ZString []),
     (''publicIp'', ZNullable (ZString [])),
     (''ptr'', ZArray (ZString []) None None),
     (''version'', ZString []),
     (''certificate'', ZNullable (ZObject [
     (''subject'', ZString []),
     (''issuer'', ZString []),
     (''validFrom'', ZString []),
     (''validTo'', ZString []),
     (''daysLeft'', ZNumber []),
     (''selfSigned'', ZBoolean)])),
     (''services'', ZArray ServiceCheckSchema None None),
     (''rspamd'', ZNullable (ZObject [
     (''scanned'', ZNumber []),
     (''spam'', ZNumber []),
     (''ham'', ZNumber []),
     (''learned'', ZNumber [])])),
     (''counts'', ZObject [(''domains'', ZNumber []), (''mailboxes'', ZNumber []), (''aliases'', ZNumber [])]),
     (''clamavEnabled'', ZBoolean)]"

definition LockoutSchema :: zod where
  "LockoutSchema = ZObject [
     (''key'', ZString []),
     (''attempts'', ZNumber []),
     (''lockedUntil'', ZNullable (ZString []))]"

definition IpBanSchema :: zod where
  "IpBanSchema = ZObject [
     (''id'', ZString []),
     (''network'', ZString []),
     (''reason'', ZNullable (ZString [])),
     (''source'', ZEnum [''auto'', ''manual'']),
     (''createdBy'', ZNullable (ZString [])),
     (''createdAt'', ZString []),
     (''expiresAt'', ZNullable (ZString [])),
     (''liftedAt'', ZNullable (ZString [])),
     (''liftedBy'', ZNullable (ZString [])),
     (''hits'', ZNumber []),
     (''lastHitAt'', ZNullable (ZString [])),
     (''active'', ZBoolean)]"

definition AutoBanPolicySchema :: zod where
  "AutoBanPolicySchema = ZObject [
     (''enabled'', ZBoolean),
     (''windowMinutes'', ZNumber []),
     (''distinctAccounts'', ZNumber []),
     (''failures'', ZNumber []),
     (''durationHours'', ZNumber []),
     (''slowWindowHours'', ZNumber []),
     (''unknownFailures'', ZNumber []),
     (''networkAddresses'', ZNumber [])]"

definition IpBanListSchema :: zod where
  "IpBanListSchema = ZObject [
     (''bans'', ZArray IpBanSchema None None),
     (''allowlist'', ZArray (ZString []) None None),
     (''policy'', AutoBanPolicySchema)]"

definition IpNetworkSchema :: zod where
  "IpNetworkSchema = ZString [Trim, ToLowerCase, Regex IP_OR_CIDR]"

definition IpBanCreateSchema :: zod where
  "IpBanCreateSchema = ZObject [
     (''network'', IpNetworkSchema),
     (''hours'', ZNullable (ZNumber [IsInt, IsPositive, AtMost (24 * 3650)])),
     (''reason'', ZOptional (ZString [Trim, Max 255]))]"

definition IpAllowlistUpdateSchema :: zod where
  "IpAllowlistUpdateSchema = ZObject [(''allowlist'', ZArray IpNetworkSchema None (Some 200))]"

definition AuthSourceSchema :: zod where
  "AuthSourceSchema = ZEnum [''web'', ''imap'', ''pop3'', ''smtp'', ''sieve'', ''other'']"

definition AuthFailureReasonSchema :: zod where
  "AuthFailureReasonSchema = ZEnum [''wrong_password'', ''unknown_user'', ''disabled'', ''locked'', ''banned'']"

definition AuthEventSchema :: zod where
  "AuthEventSchema = ZObject [
     (''id'', ZString []),
     (''source'', AuthSourceSchema),
     (''username'', ZNullable (ZString [])),
     (''mailboxId'', ZNullable (ZString [])),
     (''ip'', ZNullable (ZString [])),
     (''success'', ZBoolean),
     (''reason'', ZNullable AuthFailureReasonSchema),
     (''detail'', ZNullable (ZString [])),
     (''userAgent'', ZNullable (ZString [])),
     (''count'', ZNumber []),
     (''firstAt'', ZString []),
     (''lastAt'', ZString [])]"

definition FailedIpSchema :: zod where
  "FailedIpSchema = ZObject [
     (''ip'', ZString []),
     (''failures'', ZNumber []),
     (''usernames'', ZArray (ZString []) None None),
     (''sources'', ZArray AuthSourceSchema None None),
     (''lastAt'', ZString []),
     (''banned'', ZBoolean)]"

definition MailDirectionSchema :: zod where
  "MailDirectionSchema = ZEnum [''in'', ''out'', ''relay'']"

definition MailDirectionFilterSchema :: zod where
  "MailDirectionFilterSchema = ZEnum [''in'', ''out'', ''relay'', ''all'']"

definition MailLogStatusSchema :: zod where
  "MailLogStatusSchema = ZEnum [''delivered'', ''sent'', ''deferred'', ''bounced'', ''expired'', ''rejected'', ''deleted'']"

definition MailLogEntrySchema :: zod where
  "MailLogEntrySchema = ZObject [
     (''id'', ZString []),
     (''queueId'', ZNullable (ZString [])),
     (''messageId'', ZNullable (ZString [])),
     (''direction'', MailDirectionSchema),
     (''status'', MailLogStatusSchema),
     (''sender'', ZString []),
     (''recipient'', ZString []),
     (''origRecipient'', ZNullable (ZString [])),
     (''subject'', ZNullable (ZString [])),
     (''size'', ZNullable (ZNumber [])),
     (''clientHost'', ZNullable (ZString [])),
     (''clientIp'', ZNullable (ZString [])),
     (''source'', ZNullable (ZString [])),
     (''saslUser'', ZNullable (ZString [])),
     (''relay'', ZNullable (ZString [])),
     (''dsn'', ZNullable (ZString [])),
     (''detail'', ZNullable (ZString [])),
     (''attempts'', ZNumber []),
     (''firstAt'', ZString []),
     (''lastAt'', ZString [])]"

definition QueueMessageSchema :: zod where
  "QueueMessageSchema = ZObject [
     (''queueId'', ZString []),
     (''queue'', ZString []),
     (''arrivalTime'', ZString []),
     (''size'', ZNumber []),
     (''sender'', ZString []),
     (''recipients'', ZArray (ZObject [(''address'', ZString []), (''reason'', ZNullable (ZString []))]) None None)]"

definition QueueSnapshotSchema :: zod where
  "QueueSnapshotSchema = ZObject [
     (''available'', ZBoolean),
     (''error'', ZNullable (ZString [])),
     (''messages'', ZArray QueueMessageSchema None None)]"

definition QueueActionSchema :: zod where
  "QueueActionSchema = ZEnum [''retry'', ''hold'', ''release'', ''delete'']"

definition SpamScanSchema :: zod where
  "SpamScanSchema = ZObject [
     (''id'', ZString []),
     (''time'', ZString []),
     (''ip'', ZNullable (ZString [])),
     (''from'', ZString []),
     (''to'', ZArray (ZString []) None None),
     (''subject'', ZString []),
     (''action'', ZString []),
     (''score'', ZNumber []),
     (''requiredScore'', ZNumber []),
     (''size'', ZNumber []),
     (''user'', ZNullable (ZString [])),
     (''symbols'', ZArray (ZObject [
     (''name'', ZString []),
     (''score'', ZNumber []),
     (''description'', ZNullable (ZString [])),
     (''options'', ZArray (ZString []) None None)]) None None)]"

definition SpamHistorySchema :: zod where
  "SpamHistorySchema = ZObject [(''available'', ZBoolean), (''scans'', ZArray SpamScanSchema None None)]"

definition LogSourceSchema :: zod where
  "LogSourceSchema = ZEnum [''postfix'', ''dovecot'', ''app'']"

definition LogLevelSchema :: zod where
  "LogLevelSchema = ZEnum [''info'', ''warn'', ''error'']"

definition LogViewSchema :: zod where
  "LogViewSchema = ZObject [
     (''source'', LogSourceSchema),
     (''available'', ZBoolean),
     (''note'', ZNullable (ZString [])),
     (''lines'', ZArray (ZObject [(''time'', ZNullable (ZString [])), (''level'', LogLevelSchema), (''text'', ZString [])]) None None)]"

definition WebSessionSchema :: zod where
  "WebSessionSchema = ZObject [
     (''id'', ZString []),
     (''mailboxId'', ZString []),
     (''email'', ZString []),
     (''ip'', ZNullable (ZString [])),
     (''userAgent'', ZNullable (ZString [])),
     (''createdAt'', ZString []),
     (''expiresAt'', ZString []),
     (''current'', ZBoolean)]"

definition AuditEntrySchema :: zod where
  "AuditEntrySchema = ZObject [
     (''id'', ZString []),
     (''createdAt'', ZString []),
     (''actorEmail'', ZNullable (ZString [])),
     (''ip'', ZNullable (ZString [])),
     (''action'', ZString []),
     (''target'', ZNullable (ZString [])),
     (''detail'', ZNullable (ZRecord ZUnknown))]"

definition OverviewRangeSchema :: zod where
  "OverviewRangeSchema = ZEnum [''24h'', ''7d'', ''30d'']"

definition OverviewAlertSchema :: zod where
  "OverviewAlertSchema = ZObject [
     (''level'', ZEnum [''danger'', ''warning'', ''info'']),
     (''title'', ZString []),
     (''detail'', ZString []),
     (''href'', ZNullable (ZString []))]"

definition OverviewSchema :: zod where
  "OverviewSchema = ZObject [
     (''generatedAt'', ZString []),
     (''range'', OverviewRangeSchema),
     (''bucket'', ZEnum [''hour'', ''day'']),
     (''health'', ZObject [
     (''servicesOk'', ZNumber []),
     (''servicesTotal'', ZNumber []),
     (''down'', ZArray (ZString []) None None),
     (''certDaysLeft'', ZNullable (ZNumber [])),
     (''certSelfSigned'', ZBoolean)]),
     (''host'', ZObject [
     (''diskTotalBytes'', ZNullable (ZNumber [])),
     (''diskFreeBytes'', ZNullable (ZNumber [])),
     (''memTotalBytes'', ZNumber []),
     (''memAvailableBytes'', ZNumber []),
     (''load'', ZArray (ZNumber []) None None),
     (''cpus'', ZNumber []),
     (''uptimeSeconds'', ZNumber [])]),
     (''mail'', ZObject [
     (''received'', ZNumber []),
     (''sent'', ZNumber []),
     (''rejected'', ZNumber []),
     (''bounced'', ZNumber []),
     (''deferred'', ZNumber []),
     (''series'', ZArray (ZObject [
     (''t'', ZString []),
     (''received'', ZNumber []),
     (''sent'', ZNumber []),
     (''rejected'', ZNumber []),
     (''bounced'', ZNumber [])]) None None)]),
     (''logins'', ZObject [
     (''failed'', ZNumber []),
     (''succeeded'', ZNumber []),
     (''series'', ZArray (ZObject [(''t'', ZString []), (''failed'', ZNumber []), (''succeeded'', ZNumber [])]) None None),
     (''topFailedIps'', ZArray FailedIpSchema None None)]),
     (''queue'', ZNullable (ZObject [
     (''total'', ZNumber []),
     (''deferred'', ZNumber []),
     (''hold'', ZNumber []),
     (''oldest'', ZNullable (ZString []))])),
     (''storage'', ZArray (ZObject [(''email'', ZString []), (''usedBytes'', ZNumber []), (''quotaBytes'', ZNumber [])]) None None),
     (''counts'', ZObject [
     (''domains'', ZNumber []),
     (''mailboxes'', ZNumber []),
     (''aliases'', ZNumber []),
     (''sessions'', ZNumber []),
     (''lockouts'', ZNumber [])]),
     (''alerts'', ZArray OverviewAlertSchema None None),
     (''recentAudit'', ZArray AuditEntrySchema None None)]"

definition SpecialUseSchema :: zod where
  "SpecialUseSchema = ZEnum [''inbox'', ''drafts'', ''sent'', ''junk'', ''trash'', ''archive'']"

definition FolderSchema :: zod where
  "FolderSchema = ZObject [
     (''path'', ZString []),
     (''name'', ZString []),
     (''delimiter'', ZString []),
     (''specialUse'', ZNullable SpecialUseSchema),
     (''unread'', ZNumber []),
     (''total'', ZNumber []),
     (''subscribed'', ZBoolean)]"

definition FolderCreateSchema :: zod where
  "FolderCreateSchema = ZObject [(''path'', ZString [Trim, Min 1, Max 200])]"

definition AddressSchema :: zod where
  "AddressSchema = ZObject [(''name'', ZString []), (''address'', ZString [])]"

definition MessageRefSchema :: zod where
  "MessageRefSchema = ZObject [(''folder'', ZString []), (''uid'', ZNumber [IsInt])]"

definition ThreadSummarySchema :: zod where
  "ThreadSummarySchema = ZObject [
     (''id'', ZString []),
     (''folder'', ZString []),
     (''subject'', ZString []),
     (''participants'', ZArray AddressSchema None None),
     (''snippet'', ZString []),
     (''date'', ZString []),
     (''unread'', ZBoolean),
     (''flagged'', ZBoolean),
     (''answered'', ZBoolean),
     (''hasAttachments'', ZBoolean),
     (''messageCount'', ZNumber []),
     (''uids'', ZArray (ZNumber []) None None)]"

definition ThreadListSchema :: zod where
  "ThreadListSchema = ZObject [
     (''folder'', ZString []),
     (''threads'', ZArray ThreadSummarySchema None None),
     (''nextCursor'', ZNullable (ZString [])),
     (''total'', ZNumber [])]"

definition AttachmentSchema :: zod where
  "AttachmentSchema = ZObject [
     (''partId'', ZString []),
     (''filename'', ZString []),
     (''contentType'', ZString []),
     (''size'', ZNumber []),
     (''contentId'', ZNullable (ZString [])),
     (''inline'', ZBoolean),
     (''url'', ZString [])]"

definition MessageHeaderSchema :: zod where
  "MessageHeaderSchema = ZObject [
     (''uid'', ZNumber []),
     (''folder'', ZString []),
     (''messageId'', ZNullable (ZString [])),
     (''inReplyTo'', ZNullable (ZString [])),
     (''references'', ZArray (ZString []) None None),
     (''from'', ZNullable AddressSchema),
     (''to'', ZArray AddressSchema None None),
     (''cc'', ZArray AddressSchema None None),
     (''bcc'', ZArray AddressSchema None None),
     (''replyTo'', ZArray AddressSchema None None),
     (''subject'', ZString []),
     (''date'', ZString []),
     (''flags'', ZArray (ZString []) None None),
     (''unread'', ZBoolean),
     (''flagged'', ZBoolean),
     (''answered'', ZBoolean),
     (''draft'', ZBoolean),
     (''size'', ZNumber []),
     (''hasAttachments'', ZBoolean),
     (''snippet'', ZString [])]"

definition MessageSchema :: zod where
  "MessageSchema = zod_extend MessageHeaderSchema [
     (''html'', ZNullable (ZString [])),
     (''text'', ZNullable (ZString [])),
     (''attachments'', ZArray AttachmentSchema None None),
     (''hasRemoteContent'', ZBoolean),
     (''listUnsubscribe'', ZNullable (ZString [])),
     (''authentication'', ZObject [
     (''spf'', ZNullable (ZString [])),
     (''dkim'', ZNullable (ZString [])),
     (''dmarc'', ZNullable (ZString [])),
     (''spamScore'', ZNullable (ZNumber []))])]"

definition ThreadSchema :: zod where
  "ThreadSchema = ZObject [
     (''id'', ZString []),
     (''subject'', ZString []),
     (''messages'', ZArray MessageSchema None None)]"

definition FlagRequestSchema :: zod where
  "FlagRequestSchema = ZObject [
     (''messages'', ZArray MessageRefSchema (Some 1) None),
     (''add'', ZDefault (ZArray (ZString []) None None) (Arr [])),
     (''remove'', ZDefault (ZArray (ZString []) None None) (Arr []))]"

definition MoveRequestSchema :: zod where
  "MoveRequestSchema = ZObject [(''messages'', ZArray MessageRefSchema (Some 1) None), (''destination'', ZString [])]"

definition DeleteRequestSchema :: zod where
  "DeleteRequestSchema = ZObject [
     (''messages'', ZArray MessageRefSchema (Some 1) None),
     (''permanent'', ZDefault ZBoolean (Bool False))]"

definition MoveResultSchema :: zod where
  "MoveResultSchema = ZObject [
     (''ok'', ZLiteral (Bool True)),
     (''moved'', ZArray (ZObject [(''from'', MessageRefSchema), (''to'', MessageRefSchema)]) None None)]"

definition RecipientSchema :: zod where
  "RecipientSchema = ZObject [(''name'', ZDefault (ZString [Max 200]) (Str [])), (''address'', EmailSchema)]"

definition SendRequestSchema :: zod where
  "SendRequestSchema = ZObject [
     (''to'', ZArray RecipientSchema (Some 1) None),
     (''cc'', ZDefault (ZArray RecipientSchema None None) (Arr [])),
     (''bcc'', ZDefault (ZArray RecipientSchema None None) (Arr [])),
     (''subject'', ZDefault (ZString [Max 998]) (Str [])),
     (''html'', ZDefault (ZString [Max 5000000]) (Str [])),
     (''text'', ZOptional (ZString [Max 5000000])),
     (''fromName'', ZOptional (ZString [Max 200])),
     (''fromAddress'', ZOptional EmailSchema),
     (''inReplyTo'', ZDefault (ZNullable MessageRefSchema) (Null)),
     (''replyMode'', ZDefault (ZNullable (ZEnum [''reply'', ''forward''])) (Null)),
     (''draftUid'', ZDefault (ZNullable (ZNumber [IsInt])) (Null)),
     (''forwardAttachments'', ZDefault (ZArray (ZObject [(''ref'', MessageRefSchema), (''partId'', ZString [])]) None None) (Arr [])),
     (''requestReadReceipt'', ZDefault ZBoolean (Bool False)),
     (''threadHeaders'', ZDefault (ZNullable (ZObject [
     (''inReplyTo'', ZString [Max 998]),
     (''references'', ZArray (ZString [Max 998]) None (Some 100))])) (Null))]"

definition DraftRequestSchema :: zod where
  "DraftRequestSchema = zod_extend (zod_partial SendRequestSchema [''to'']) [
     (''to'', ZDefault (ZArray RecipientSchema None None) (Arr [])),
     (''draftUid'', ZDefault (ZNullable (ZNumber [IsInt])) (Null))]"

definition DraftResultSchema :: zod where
  "DraftResultSchema = ZObject [
     (''uid'', ZNumber []),
     (''attachments'', ZArray (ZObject [
     (''ref'', MessageRefSchema),
     (''partId'', ZString []),
     (''filename'', ZString []),
     (''size'', ZNumber [])]) None None)]"

definition QuotaSchema :: zod where
  "QuotaSchema = ZObject [(''usedBytes'', ZNumber []), (''limitBytes'', ZNumber [])]"

definition MailEventSchema :: zod where
  "MailEventSchema = ZDiscriminated ''type'' [
     ZObject [
     (''type'', ZLiteral (Str ''new'')),
     (''folder'', ZString []),
     (''uid'', ZNumber []),
     (''from'', ZNullable AddressSchema),
     (''subject'', ZString [])],
     ZObject [(''type'', ZLiteral (Str ''expunge'')), (''folder'', ZString []), (''uid'', ZNumber [])],
     ZObject [
     (''type'', ZLiteral (Str ''flags'')),
     (''folder'', ZString []),
     (''uid'', ZNumber []),
     (''flags'', ZArray (ZString []) None None)],
     ZObject [(''type'', ZLiteral (Str ''folders''))],
     ZObject [(''type'', ZLiteral (Str ''folder'')), (''folder'', ZString [])],
     ZObject [(''type'', ZLiteral (Str ''ready''))],
     ZObject [(''type'', ZLiteral (Str ''ping''))]]"

definition ContactSchema :: zod where
  "ContactSchema = ZObject [
     (''id'', ZString []),
     (''name'', ZString []),
     (''emails'', ZArray (ZString []) None None),
     (''notes'', ZString []),
     (''source'', ZEnum [''manual'', ''auto'']),
     (''createdAt'', ZString []),
     (''updatedAt'', ZString [])]"

definition ContactCreateSchema :: zod where
  "ContactCreateSchema = ZObject [
     (''name'', ZString [Trim, Min 1, Max 200]),
     (''emails'', ZArray EmailSchema (Some 1) (Some 10)),
     (''notes'', ZDefault (ZString [Max 5000]) (Str []))]"

definition ContactUpdateSchema :: zod where
  "ContactUpdateSchema = ZObject [
     (''name'', ZOptional (shape_field ContactCreateSchema ''name'')),
     (''emails'', ZOptional (shape_field ContactCreateSchema ''emails'')),
     (''notes'', ZOptional (ZString [Max 5000]))]"

definition AddressSuggestionSchema :: zod where
  "AddressSuggestionSchema = ZObject [
     (''name'', ZString []),
     (''address'', ZString []),
     (''source'', ZEnum [''contact'', ''recent'', ''mailbox''])]"

definition contract :: "zod list" where
  "contract = [
     ApiErrorSchema, OkSchema, EmailSchema, DomainNameSchema,
     LocalPartSchema, PasswordSchema, LoginRequestSchema, MeSchema,
     AccountSchema, SwitchAccountRequestSchema, LogoutRequestSchema, LogoutResultSchema,
     ProfileUpdateSchema, RemoteContentSenderSchema, PasswordChangeSchema, SetupStatusSchema,
     SetupHostnameCheckRequestSchema, SetupHostnameCheckResultSchema, SetupCreateRequestSchema, DomainSchema,
     DomainCreateSchema, DomainUpdateSchema, MailboxSchema, MailboxCreateSchema,
     MailboxUpdateSchema, AliasSchema, AliasCreateSchema, AliasUpdateSchema,
     DomainDetailSchema, SetupStepKeySchema, SetupStepStateSchema, SetupStepSchema,
     ReportAddressesApplySchema, SetupStepSkipSchema, DnsRecordTypeSchema, DnsRecordStatusSchema,
     DnsRecordSchema, DnsCheckResultSchema, ServiceCheckSchema, ServerStatusSchema,
     LockoutSchema, IpBanSchema, AutoBanPolicySchema, IpBanListSchema,
     IpNetworkSchema, IpBanCreateSchema, IpAllowlistUpdateSchema, AuthSourceSchema,
     AuthFailureReasonSchema, AuthEventSchema, FailedIpSchema, MailDirectionSchema,
     MailDirectionFilterSchema, MailLogStatusSchema, MailLogEntrySchema, QueueMessageSchema,
     QueueSnapshotSchema, QueueActionSchema, SpamScanSchema, SpamHistorySchema,
     LogSourceSchema, LogLevelSchema, LogViewSchema, WebSessionSchema,
     AuditEntrySchema, OverviewRangeSchema, OverviewAlertSchema, OverviewSchema,
     SpecialUseSchema, FolderSchema, FolderCreateSchema, AddressSchema,
     MessageRefSchema, ThreadSummarySchema, ThreadListSchema, AttachmentSchema,
     MessageHeaderSchema, MessageSchema, ThreadSchema, FlagRequestSchema,
     MoveRequestSchema, DeleteRequestSchema, MoveResultSchema, RecipientSchema,
     SendRequestSchema, DraftRequestSchema, DraftResultSchema, QuotaSchema,
     MailEventSchema, ContactSchema, ContactCreateSchema, ContactUpdateSchema,
     AddressSuggestionSchema]"

lemmas contract_defs = contract_def
  ApiErrorSchema_def OkSchema_def EmailSchema_def DomainNameSchema_def
  LocalPartSchema_def PasswordSchema_def LoginRequestSchema_def MeSchema_def
  AccountSchema_def SwitchAccountRequestSchema_def LogoutRequestSchema_def LogoutResultSchema_def
  ProfileUpdateSchema_def RemoteContentSenderSchema_def PasswordChangeSchema_def SetupStatusSchema_def
  SetupHostnameCheckRequestSchema_def SetupHostnameCheckResultSchema_def SetupCreateRequestSchema_def DomainSchema_def
  DomainCreateSchema_def DomainUpdateSchema_def MailboxSchema_def MailboxCreateSchema_def
  MailboxUpdateSchema_def AliasSchema_def AliasCreateSchema_def AliasUpdateSchema_def
  DomainDetailSchema_def SetupStepKeySchema_def SetupStepStateSchema_def SetupStepSchema_def
  ReportAddressesApplySchema_def SetupStepSkipSchema_def DnsRecordTypeSchema_def DnsRecordStatusSchema_def
  DnsRecordSchema_def DnsCheckResultSchema_def ServiceCheckSchema_def ServerStatusSchema_def
  LockoutSchema_def IpBanSchema_def AutoBanPolicySchema_def IpBanListSchema_def
  IpNetworkSchema_def IpBanCreateSchema_def IpAllowlistUpdateSchema_def AuthSourceSchema_def
  AuthFailureReasonSchema_def AuthEventSchema_def FailedIpSchema_def MailDirectionSchema_def
  MailDirectionFilterSchema_def MailLogStatusSchema_def MailLogEntrySchema_def QueueMessageSchema_def
  QueueSnapshotSchema_def QueueActionSchema_def SpamScanSchema_def SpamHistorySchema_def
  LogSourceSchema_def LogLevelSchema_def LogViewSchema_def WebSessionSchema_def
  AuditEntrySchema_def OverviewRangeSchema_def OverviewAlertSchema_def OverviewSchema_def
  SpecialUseSchema_def FolderSchema_def FolderCreateSchema_def AddressSchema_def
  MessageRefSchema_def ThreadSummarySchema_def ThreadListSchema_def AttachmentSchema_def
  MessageHeaderSchema_def MessageSchema_def ThreadSchema_def FlagRequestSchema_def
  MoveRequestSchema_def DeleteRequestSchema_def MoveResultSchema_def RecipientSchema_def
  SendRequestSchema_def DraftRequestSchema_def DraftResultSchema_def QuotaSchema_def
  MailEventSchema_def ContactSchema_def ContactCreateSchema_def ContactUpdateSchema_def
  AddressSuggestionSchema_def

lemma contract_wf: "list_all wf_schema contract"
  by code_simp

subsection \<open>Helpers\<close>

definition MAIL_EVENT_TYPES :: "string list" where
  "MAIL_EVENT_TYPES = [''new'', ''expunge'', ''flags'', ''folders'', ''folder'', ''ready'', ''ping'']"

definition remoteContentAllowed :: "string list \<Rightarrow> string option \<Rightarrow> bool" where
  "remoteContentAllowed allow address = (case address of
     None \<Rightarrow> False
   | Some a \<Rightarrow>
       if a = [] then False
       else (let addr = js_lower (js_trim a); domain = after_last (CHR ''@'') addr
             in list_ex (\<lambda>e. e = addr \<or> (CHR ''@'' \<notin> set e \<and> (domain = e \<or> ends_with domain (CHR ''.'' # e)))) allow))"

function scale_bytes :: "rat \<Rightarrow> nat \<Rightarrow> rat \<times> nat" where
  "scale_bytes v i = (if v \<ge> 1024 \<and> i < 4 then scale_bytes (v / 1024) (Suc i) else (v, i))"
  by pat_completeness auto
termination by (relation "measure (\<lambda>(v, i). 4 - i)") auto

declare scale_bytes.simps [simp del]

definition byte_units :: "string list" where
  "byte_units = [''B'', ''KB'', ''MB'', ''GB'', ''TB'']"

definition toFixed1 :: "rat \<Rightarrow> string" where
  "toFixed1 v = (let n = nat \<lfloor>v * 10 + 1 / 2\<rfloor> in show_nat (n div 10) @ ''.'' @ show_nat (n mod 10))"

definition formatBytes :: "rat option \<Rightarrow> string" where
  \<comment> \<open>None for a number that is not finite\<close>
  "formatBytes n = (case n of
     None \<Rightarrow> ''0 B''
   | Some x \<Rightarrow>
       if x \<le> 0 then ''0 B''
       else (let (v, i) = scale_bytes x 0
             in (if v < 10 \<and> 0 < i then toFixed1 v else show_nat (nat \<lfloor>v + 1 / 2\<rfloor>)) @ '' '' @ byte_units ! i))"

datatype special_use = UseInbox | UseDrafts | UseSent | UseJunk | UseTrash | UseArchive

definition specialUseFromFlag :: "string option \<Rightarrow> special_use option" where
  "specialUseFromFlag flag =
     (let f = js_lower (case flag of None \<Rightarrow> [] | Some f \<Rightarrow> f); bs = CHR 0x5C
      in if f = bs # ''inbox'' then Some UseInbox
         else if f = bs # ''drafts'' then Some UseDrafts
         else if f = bs # ''sent'' then Some UseSent
         else if f = bs # ''junk'' then Some UseJunk
         else if f = bs # ''trash'' then Some UseTrash
         else if f = bs # ''archive'' then Some UseArchive
         else None)"

subsection \<open>What the schemas promise\<close>


text \<open>
  C35: validation is stable. What a schema of the contract returned, with trimmed and lower-cased
  strings, defaults filled in and unknown fields dropped, is accepted again by the same schema
  without a change, so that the server's and the client's check of one value agree.
\<close>

theorem contract_stable:
  assumes "zod_library fmt parse" and "z \<in> set contract" and "parse z v = Some w"
  shows "parse z w = Some w"
  using zod_library.parse_idem [OF assms(1) _ assms(3)] contract_wf assms(2) by (simp add: list_all_iff)

definition any_format :: "string_format \<Rightarrow> string \<Rightarrow> bool" where
  "any_format f s = (f = EmailFormat \<longrightarrow> CHR ''@'' \<in> set s)"

definition ex_login :: json where
  "ex_login = Obj [(''password'', Str ''secret''), (''email'', Str '' Ann@Example.ORG''), (''x'', Null)]"

definition ex_login_parsed :: json where
  "ex_login_parsed = Obj [(''email'', Str ''ann@example.org''), (''password'', Str ''secret'')]"

lemma ex_login_parse: "zod_parse any_format LoginRequestSchema ex_login = Some ex_login_parsed"
  by code_simp

lemma ex_login_contract: "LoginRequestSchema \<in> set contract"
  by (simp add: contract_def)


theorem contract_stable_witness:
  "zod_parse any_format LoginRequestSchema ex_login_parsed = Some ex_login_parsed"
  by (rule contract_stable [OF mem_zod.zod_library_axioms ex_login_contract ex_login_parse])

lemma send_draft_fields:
  "SendRequestSchema = ZObject ((''to'', ZArray RecipientSchema (Some 1) None) # tl (zod_shape SendRequestSchema))"
  "DraftRequestSchema = ZObject ((''to'', ZDefault (ZArray RecipientSchema None None) (Arr [])) # tl (zod_shape SendRequestSchema))"
  by (simp_all add: SendRequestSchema_def DraftRequestSchema_def zod_extend_def zod_partial_def set_field_def)

text \<open>
  C36: what can be sent can be saved. Every message the send endpoint accepts is accepted by the
  draft endpoint with the same fields, so a failed send can always be kept as a draft.
\<close>

theorem draft_accepts_send:
  assumes "zod_library fmt parse" and "parse SendRequestSchema v = Some w"
  shows "parse DraftRequestSchema v = Some w"
proof -
  have s: "parse (ZObject ((''to'', ZArray RecipientSchema (Some 1) None) # tl (zod_shape SendRequestSchema))) v = Some w"
    using assms(2) by (subst send_draft_fields(1) [symmetric])
  show ?thesis
    unfolding send_draft_fields(2)
    by (rule zod_library.object_weaken [OF assms(1) s])
      (auto simp: less_Suc_eq_0_disj intro: zod_library.array_weaken [OF assms(1)])
qed

definition ex_send :: json where
  "ex_send = Obj [(''to'', Arr [Obj [(''address'', Str ''Bob@b.org'')]]), (''subject'', Str ''Hi'')]"

theorem draft_accepts_send_witness:
  "\<exists>w. zod_parse any_format SendRequestSchema ex_send = Some w \<and> zod_parse any_format DraftRequestSchema ex_send = Some w"
proof -
  have "zod_parse any_format SendRequestSchema ex_send \<noteq> None" by code_simp
  then obtain w where "zod_parse any_format SendRequestSchema ex_send = Some w" by blast
  with draft_accepts_send [OF mem_zod.zod_library_axioms this] show ?thesis by blast
qed

definition update_schemas :: "zod list" where
  "update_schemas = [ProfileUpdateSchema, DomainUpdateSchema, MailboxUpdateSchema, AliasUpdateSchema, ContactUpdateSchema]"

lemma update_schemas_optional:
  "z \<in> set update_schemas \<Longrightarrow> \<exists>fs. z = ZObject fs \<and> distinct (map fst fs) \<and> list_all (\<lambda>f. is_optional (snd f)) fs"
  by (auto simp: update_schemas_def ProfileUpdateSchema_def DomainUpdateSchema_def MailboxUpdateSchema_def
      AliasUpdateSchema_def ContactUpdateSchema_def)

text \<open>
  An update changes only what it names. A parsed update of a profile, a domain, a mailbox, an
  alias or a contact has no field the request did not have; no default slips in and overwrites a
  stored value.
\<close>

theorem updates_invent_nothing:
  assumes "zod_library fmt parse" and "z \<in> set update_schemas" and "parse z (Obj kvs) = Some (Obj ws)"
  shows "set (map fst ws) \<subseteq> set (map fst kvs)"
proof -
  obtain fs where "z = ZObject fs" "distinct (map fst fs)" "list_all (\<lambda>f. is_optional (snd f)) fs"
    using update_schemas_optional [OF assms(2)] by blast
  with zod_library.optional_keys [OF assms(1) this(2,3)] assms(3) show ?thesis by blast
qed

theorem updates_invent_nothing_witness:
  "zod_parse any_format ContactUpdateSchema (Obj [(''name'', Str '' Bob '')]) = Some (Obj [(''name'', Str ''Bob'')]) \<and>
   set (map fst [(''name'', Str ''Bob'')]) \<subseteq> {''name''}"
proof -
  have p: "zod_parse any_format ContactUpdateSchema (Obj [(''name'', Str '' Bob '')]) = Some (Obj [(''name'', Str ''Bob'')])"
    by code_simp
  have "ContactUpdateSchema \<in> set update_schemas" by (simp add: update_schemas_def)
  from updates_invent_nothing [OF mem_zod.zod_library_axioms this p] p show ?thesis by simp
qed

text \<open>The names of the event stream are the types of its events.\<close>

lemma mail_event_types:
  "case MailEventSchema of ZDiscriminated k zs \<Rightarrow> map (field_literal k) zs = map (\<lambda>t. Some (Str t)) MAIL_EVENT_TYPES | _ \<Rightarrow> False"
  by code_simp

subsection \<open>The helpers\<close>

lemma split_on_append: "split_on d (s @ d # t) = split_on d s @ split_on d t"
  by (induction s) (auto split: list.split)

lemma join_with_append:
  "ps \<noteq> [] \<Longrightarrow> qs \<noteq> [] \<Longrightarrow> join_with d (ps @ qs) = join_with d ps @ d @ join_with d qs"
proof (induction d ps rule: join_with.induct)
  case (2 d w)
  then show ?case by (cases qs) auto
qed auto

lemma label_suffix:
  "domain = e \<or> ends_with domain (d # e) \<longleftrightarrow> suffix (split_on d e) (split_on d domain)"
proof
  assume "domain = e \<or> ends_with domain (d # e)"
  then show "suffix (split_on d e) (split_on d domain)"
    by (auto simp: ends_with_def suffix_def split_on_append)
next
  assume "suffix (split_on d e) (split_on d domain)"
  then obtain ps where ps: "split_on d domain = ps @ split_on d e" by (auto simp: suffix_def)
  show "domain = e \<or> ends_with domain (d # e)"
  proof (cases "ps = []")
    case True
    with ps have "split_on d domain = split_on d e" by simp
    then have "domain = e" using join_split by metis
    then show ?thesis ..
  next
    case False
    have "domain = join_with [d] (ps @ split_on d e)" using ps join_split by metis
    with False have "domain = join_with [d] ps @ [d] @ e" by (simp add: join_with_append)
    then show ?thesis by (simp add: ends_with_def suffix_def)
  qed
qed

text \<open>
  Remote images load for a listed sender, and for the listed domains and their subdomains,
  label by label: an entry \<open>example.com\<close> covers \<open>news.example.com\<close> and never
  \<open>notexample.com\<close>.
\<close>

theorem remote_content_by_label:
  assumes "a \<noteq> []"
  shows "remoteContentAllowed allow (Some a) =
    list_ex (\<lambda>e. e = js_lower (js_trim a) \<or> (CHR ''@'' \<notin> set e \<and>
      suffix (split_on (CHR ''.'') e) (split_on (CHR ''.'') (after_last (CHR ''@'') (js_lower (js_trim a)))))) allow"
  using assms by (simp add: remoteContentAllowed_def Let_def label_suffix)

theorem remote_content_by_label_witness:
  "remoteContentAllowed [''example.com''] (Some ''A@News.Example.com '') \<and>
   \<not> remoteContentAllowed [''example.com''] (Some ''a@notexample.com'')"
proof -
  have 1: "remoteContentAllowed [''example.com''] (Some ''A@News.Example.com '')"
    by (subst remote_content_by_label) code_simp+
  have 2: "\<not> remoteContentAllowed [''example.com''] (Some ''a@notexample.com'')"
    by (subst remote_content_by_label) code_simp+
  from 1 2 show ?thesis ..
qed

lemma scale_bytes_unit:
  "scale_bytes v i = (u, j) \<Longrightarrow> i \<le> 4 \<Longrightarrow> i \<le> j \<and> j \<le> 4 \<and> v = u * 1024 ^ (j - i) \<and> (j < 4 \<longrightarrow> u < 1024) \<and> (i < j \<longrightarrow> 1 \<le> u)"
proof (induction v i arbitrary: u j rule: scale_bytes.induct)
  case (1 v i)
  show ?case
  proof (cases "v \<ge> 1024 \<and> i < 4")
    case True
    then have s: "scale_bytes (v / 1024) (Suc i) = (u, j)" using 1(2) by (subst (asm) scale_bytes.simps) simp
    from 1(1) [OF True s] True have h: "Suc i \<le> j" "j \<le> 4" "v / 1024 = u * 1024 ^ (j - Suc i)" "j < 4 \<longrightarrow> u < 1024"
      "Suc i < j \<longrightarrow> 1 \<le> u" by auto
    then have "v = u * 1024 ^ (j - i)" by (simp add: Suc_diff_Suc [symmetric] field_simps del: Suc_diff_Suc)
    moreover have "1 \<le> u" using h True by (cases "Suc i < j") auto
    ultimately show ?thesis using h by auto
  next
    case False
    then have "u = v" "j = i" using 1(2) by (subst (asm) scale_bytes.simps, simp split: if_splits)+
    with False 1(3) show ?thesis by auto
  qed
qed

text \<open>
  Sizes are shown in the right unit. The loop of \<open>formatBytes\<close> ends with a value below 1024 (in
  the largest unit, any) and not below 1 unless it never divided, and value times unit is the size.
\<close>

lemma formatBytes_unit:
  assumes "scale_bytes n 0 = (v, i)"
  shows "i < length byte_units \<and> n = v * 1024 ^ i \<and> (i < 4 \<longrightarrow> v < 1024) \<and> (0 < i \<longrightarrow> 1 \<le> v)"
  using scale_bytes_unit [OF assms] by (simp add: byte_units_def)

theorem formatBytes_unit_witness:
  "formatBytes (Some 1536) = ''1.5 KB'' \<and> (1536 :: rat) = 3 / 2 * 1024 ^ 1"
proof -
  have s: "scale_bytes 1536 0 = (3 / 2, 1)" by (simp add: scale_bytes.simps)
  have "formatBytes (Some 1536) = ''1.5 KB''" by code_simp
  with formatBytes_unit [OF s] show ?thesis by simp
qed

end
