(* ===== verification/Directory.thy ===== *)
theory Directory
  imports Session Paging
begin

text \<open>
  Domains, mailboxes and aliases: \<open>apps/server/src/admin/service.ts\<close>, the DKIM key files
  (\<open>admin/dkim.ts\<close>), the audit log (\<open>activity/audit.ts\<close>) and the handlers of
  \<open>admin/routes.ts\<close> that change them. An operation returns an error or a value, with the state
  as the code leaves it in either case. New ids, DKIM key pairs and password hashes are arguments;
  \<open>le\<close> is the order the database sorts text by. The handlers run for an administrator,
  \<open>actor\<close>; a body that does not parse is refused before they start (\<open>Contract\<close>).
\<close>

subsection \<open>State\<close>

record office =
  of_web :: web
  of_aliases :: "alias_row list"
  of_contacts :: "contact_row list"
  of_recent :: "recent_address list"
  of_keys :: "string \<rightharpoonup> string"
  of_selectors :: "string option"
  of_audit :: "audit_row list"
  of_nextAudit :: nat

abbreviation domains :: "office \<Rightarrow> domain_row list" where "domains st \<equiv> w_domains (of_web st)"
abbreviation mailboxes :: "office \<Rightarrow> mailbox_row list" where "mailboxes st \<equiv> w_mailboxes (of_web st)"

record actor =
  ac_user :: "mailbox_row option"
  ac_clientIp :: "string option"

fun insert_by :: "('k \<Rightarrow> 'k \<Rightarrow> bool) \<Rightarrow> ('r \<Rightarrow> 'k) \<Rightarrow> 'r \<Rightarrow> 'r list \<Rightarrow> 'r list" where
  "insert_by le k x [] = [x]"
| "insert_by le k x (y # ys) = (if le (k x) (k y) then x # y # ys else y # insert_by le k x ys)"

definition order_by :: "('k \<Rightarrow> 'k \<Rightarrow> bool) \<Rightarrow> ('r \<Rightarrow> 'k) \<Rightarrow> 'r list \<Rightarrow> 'r list" where
  \<comment> \<open>\<open>order: [[k, "ASC"]]\<close>\<close>
  "order_by le k rows = foldr (insert_by le k) rows []"

subsection \<open>DKIM files\<close>

definition keyPath :: "domain_row \<Rightarrow> string" where
  "keyPath d = dom_name d @ ''.'' @ dom_dkimSelector d @ ''.key''"

definition selector_map :: "domain_row list \<Rightarrow> string" where
  "selector_map ds = join_with [CHR 0x0A] (map (\<lambda>d. dom_name d @ '' '' @ dom_dkimSelector d) ds) @
     (if ds \<noteq> [] then [CHR 0x0A] else [])"

definition syncSelectorMap :: "office \<Rightarrow> office" where
  "syncSelectorMap st = st\<lparr>of_selectors := Some (selector_map (filter dom_active (domains st)))\<rparr>"

definition materializeDomainKey :: "domain_row \<Rightarrow> office \<Rightarrow> office" where
  "materializeDomainKey d st =
     (if of_keys st (keyPath d) \<noteq> Some (dom_dkimPrivateKeyPem d)
      then st\<lparr>of_keys := (of_keys st)(keyPath d \<mapsto> dom_dkimPrivateKeyPem d)\<rparr> else st)"

definition removeDomainKey :: "domain_row \<Rightarrow> office \<Rightarrow> office" where
  "removeDomainKey d st = syncSelectorMap (st\<lparr>of_keys := (of_keys st)(keyPath d := None)\<rparr>)"

definition materializeAllKeys :: "office \<Rightarrow> office" where
  "materializeAllKeys st = syncSelectorMap (fold materializeDomainKey (domains st) st)"

subsection \<open>The audit log\<close>

definition audit :: "actor \<Rightarrow> string \<Rightarrow> string option \<Rightarrow> (string \<times> json) list \<Rightarrow> time \<Rightarrow> office \<Rightarrow> office" where
  "audit c action target detail now st = st\<lparr>of_audit := of_audit st @
     [\<lparr>au_id = of_nextAudit st, au_createdAt = now, au_actorId = map_option mb_id (ac_user c),
       au_actorEmail = map_option mb_email (ac_user c), au_ip = ac_clientIp c, au_action = action,
       au_target = map_option (take 254) target, au_detail = (if detail \<noteq> [] then Some detail else None)\<rparr>],
     of_nextAudit := Suc (of_nextAudit st)\<rparr>"

record audit_entry =
  aen_id :: string
  aen_createdAt :: time
  aen_actorEmail :: "string option"
  aen_ip :: "string option"
  aen_action :: string
  aen_target :: "string option"
  aen_detail :: "(string \<times> json) list option"

definition toAuditDto :: "audit_row \<Rightarrow> audit_entry" where
  "toAuditDto r = \<lparr>aen_id = show_nat (au_id r), aen_createdAt = au_createdAt r, aen_actorEmail = au_actorEmail r,
     aen_ip = au_ip r, aen_action = au_action r, aen_target = au_target r, aen_detail = au_detail r\<rparr>"

definition ilike_opt :: "string \<Rightarrow> string option \<Rightarrow> bool" where
  "ilike_opt p v = (case v of None \<Rightarrow> False | Some s \<Rightarrow> ilike p s)"

definition audit_matches :: "string option \<Rightarrow> audit_row \<Rightarrow> bool" where
  "audit_matches q r = (case q of
     None \<Rightarrow> True
   | Some x \<Rightarrow> x = [] \<or> (let p = likePattern (js_trim x)
       in ilike p (au_action r) \<or> ilike_opt p (au_target r) \<or> ilike_opt p (au_actorEmail r)))"

definition listAudit :: "string option \<Rightarrow> nat \<Rightarrow> string option \<Rightarrow> audit_row list \<Rightarrow> audit_entry page" where
  "listAudit q limit before rows =
     pageOf au_id (take (limit + 1)
       (filter (\<lambda>r. audit_matches q r \<and> (case before of None \<Rightarrow> True | Some b \<Rightarrow> au_id r < nat_of_digits b)) (rev rows)))
       limit toAuditDto"

interpretation audit_pages: paged_list au_id toAuditDto listAudit audit_matches
  by unfold_locales (simp add: listAudit_def page_of_rows_def before_cursor_def)

subsection \<open>What the API returns\<close>

record domain_dto =
  dd_id :: string
  dd_name :: string
  dd_active :: bool
  dd_dkimSelector :: string
  dd_dkimPublicKey :: string
  dd_catchAll :: "string option"
  dd_mailboxCount :: nat
  dd_aliasCount :: nat
  dd_createdAt :: time

definition toDomainDto :: "domain_row \<Rightarrow> office \<Rightarrow> domain_dto" where
  "toDomainDto d st = \<lparr>
     dd_id = dom_id d, dd_name = dom_name d, dd_active = dom_active d, dd_dkimSelector = dom_dkimSelector d,
     dd_dkimPublicKey = dom_dkimPublicKeyB64 d,
     dd_catchAll = map_option al_destination
       (find (\<lambda>a. al_domainId a = dom_id d \<and> al_source a = CHR ''@'' # dom_name d) (of_aliases st)),
     dd_mailboxCount = count_where (\<lambda>m. mb_domainId m = dom_id d) (mailboxes st),
     dd_aliasCount = count_where (\<lambda>a. al_domainId a = dom_id d \<and> \<not> starts_with (al_source a) ''@'') (of_aliases st),
     dd_createdAt = dom_createdAt d\<rparr>"

record mailbox_dto =
  md_id :: string
  md_domainId :: string
  md_localPart :: string
  md_email :: string
  md_displayName :: string
  md_quotaBytes :: int
  md_usedBytes :: "nat option"
  md_isAdmin :: bool
  md_active :: bool
  md_receiveMail :: bool
  md_createdAt :: time

definition mailboxDto :: "mailbox_row \<Rightarrow> nat option \<Rightarrow> mailbox_dto" where
  "mailboxDto m usedBytes = \<lparr>
     md_id = mb_id m, md_domainId = mb_domainId m, md_localPart = mb_localPart m, md_email = mb_email m,
     md_displayName = mb_displayName m, md_quotaBytes = mb_quotaBytes m, md_usedBytes = usedBytes,
     md_isAdmin = mb_isAdmin m, md_active = mb_active m, md_receiveMail = mb_receiveMail m,
     md_createdAt = mb_createdAt m\<rparr>"

definition toMailboxDto :: "(mailbox_row \<Rightarrow> nat option) \<Rightarrow> mailbox_row \<Rightarrow> bool \<Rightarrow> mailbox_dto" where
  \<comment> \<open>\<open>usage\<close>: what the mail store answers, None when it cannot be asked\<close>
  "toMailboxDto usage m withUsage = mailboxDto m (if withUsage then usage m else None)"

definition toMailboxDtos :: "(mailbox_row \<Rightarrow> nat option) \<Rightarrow> mailbox_row list \<Rightarrow> mailbox_dto list" where
  "toMailboxDtos usage rows = map (\<lambda>m. mailboxDto m (usage m)) rows"

record alias_dto =
  ad_id :: string
  ad_domainId :: string
  ad_source :: string
  ad_destination :: string
  ad_active :: bool
  ad_createdAt :: time

definition toAliasDto :: "alias_row \<Rightarrow> alias_dto" where
  "toAliasDto a = \<lparr>ad_id = al_id a, ad_domainId = al_domainId a, ad_source = al_source a,
     ad_destination = al_destination a, ad_active = al_active a, ad_createdAt = al_createdAt a\<rparr>"

record domain_detail = domain_dto +
  dd_mailboxes :: "mailbox_dto list"
  dd_aliases :: "alias_dto list"

definition toDomainDetail ::
    "(string \<Rightarrow> string \<Rightarrow> bool) \<Rightarrow> (mailbox_row \<Rightarrow> nat option) \<Rightarrow> domain_row \<Rightarrow> office \<Rightarrow> domain_detail" where
  "toDomainDetail le usage d st =
     domain_dto.extend (toDomainDto d st) (domain_detail.fields
       (toMailboxDtos usage (order_by le mb_email (filter (\<lambda>m. mb_domainId m = dom_id d) (mailboxes st))))
       (map toAliasDto (order_by le al_source (filter (\<lambda>a. al_domainId a = dom_id d) (of_aliases st)))))"

subsection \<open>Deleting rows that others refer to\<close>

text \<open>The foreign keys of the schema: what goes with a mailbox, and what goes with a domain.\<close>

definition with_domains :: "domain_row list \<Rightarrow> office \<Rightarrow> office" where
  "with_domains ds st = st\<lparr>of_web := (of_web st)\<lparr>w_domains := ds\<rparr>\<rparr>"

definition with_mailboxes :: "mailbox_row list \<Rightarrow> office \<Rightarrow> office" where
  "with_mailboxes ms st = st\<lparr>of_web := (of_web st)\<lparr>w_mailboxes := ms\<rparr>\<rparr>"

definition destroy_mailboxes :: "(mailbox_row \<Rightarrow> bool) \<Rightarrow> office \<Rightarrow> office" where
  "destroy_mailboxes p st =
     (let gone = map mb_id (filter p (mailboxes st))
      in st\<lparr>of_web := (of_web st)\<lparr>w_mailboxes := destroy_where p (mailboxes st),
              w_sessions := destroy_where (\<lambda>s. se_mailboxId s \<in> set gone) (w_sessions (of_web st))\<rparr>,
            of_contacts := destroy_where (\<lambda>c. ct_mailboxId c \<in> set gone) (of_contacts st),
            of_recent := destroy_where (\<lambda>r. ra_mailboxId r \<in> set gone) (of_recent st)\<rparr>)"

definition destroy_domain :: "domain_row \<Rightarrow> office \<Rightarrow> office" where
  "destroy_domain d st =
     (let st1 = destroy_mailboxes (\<lambda>m. mb_domainId m = dom_id d) st
      in with_domains (destroy_where (\<lambda>x. dom_id x = dom_id d) (domains st1))
           (st1\<lparr>of_aliases := destroy_where (\<lambda>a. al_domainId a = dom_id d) (of_aliases st1)\<rparr>))"

subsection \<open>Domains\<close>

record key_pair =
  kp_privateKeyPem :: string
  kp_publicKeyB64 :: string

definition find_domain :: "string \<Rightarrow> office \<Rightarrow> domain_row option" where
  "find_domain name st = find (\<lambda>d. dom_name d = name) (domains st)"

definition requireDomain :: "string \<Rightarrow> office \<Rightarrow> http_error + domain_row" where
  "requireDomain i st = (case find (\<lambda>d. dom_id d = i) (domains st) of
     None \<Rightarrow> Inl (notFound ''Domain not found'') | Some d \<Rightarrow> Inr d)"

definition createDomain ::
    "string \<Rightarrow> key_pair \<Rightarrow> string \<Rightarrow> time \<Rightarrow> office \<Rightarrow> (http_error + domain_row) \<times> office" where
  "createDomain i keys name now st =
     (if find_domain name st \<noteq> None then (Inl (conflict (''Domain '' @ name @ '' already exists'')), st)
      else (let d = \<lparr>dom_id = i, dom_name = name, dom_active = True, dom_dkimSelector = ''mail'',
                     dom_dkimPrivateKeyPem = kp_privateKeyPem keys, dom_dkimPublicKeyB64 = kp_publicKeyB64 keys,
                     dom_createdAt = now\<rparr>
            in (Inr d, with_domains (domains st @ [d]) st)))"

definition afterDomainCommit :: "domain_row \<Rightarrow> office \<Rightarrow> office" where
  "afterDomainCommit d st = syncSelectorMap (materializeDomainKey d st)"

definition live_admin :: "mailbox_row \<Rightarrow> bool" where
  "live_admin m \<longleftrightarrow> mb_isAdmin m \<and> mb_active m"

definition deleteDomain :: "domain_row \<Rightarrow> office \<Rightarrow> (http_error + unit) \<times> office" where
  "deleteDomain d st =
     (let admins = count_where live_admin (mailboxes st);
          adminsHere = count_where (\<lambda>m. live_admin m \<and> mb_domainId m = dom_id d) (mailboxes st)
      in if adminsHere > 0 \<and> admins \<le> adminsHere
         then (Inl (badRequest ''This domain holds the only administrator account; create another admin first.''), st)
         else (Inr (), removeDomainKey d (destroy_domain d st)))"

definition send_only_at :: "string \<Rightarrow> office \<Rightarrow> bool" where
  "send_only_at a st \<longleftrightarrow> list_ex (\<lambda>m. mb_email m = a \<and> \<not> mb_receiveMail m) (mailboxes st)"

definition assertReceivingDestination :: "string \<Rightarrow> office \<Rightarrow> http_error option" where
  "assertReceivingDestination destination st =
     (if send_only_at destination st
      then Some (badRequest (destination @ '' is a send-only mailbox and does not receive mail'')) else None)"

definition new_alias :: "string \<Rightarrow> string \<Rightarrow> string \<Rightarrow> string \<Rightarrow> time \<Rightarrow> alias_row" where
  "new_alias i domainId source destination now = \<lparr>al_id = i, al_domainId = domainId, al_source = source,
     al_destination = destination, al_active = True, al_createdAt = now\<rparr>"

definition setCatchAll ::
    "string \<Rightarrow> domain_row \<Rightarrow> string option \<Rightarrow> time \<Rightarrow> office \<Rightarrow> (http_error + unit) \<times> office" where
  "setCatchAll i d destination now st =
     (let source = CHR ''@'' # dom_name d;
          refused = (case destination of None \<Rightarrow> None | Some x \<Rightarrow> assertReceivingDestination x st)
      in case refused of
           Some e \<Rightarrow> (Inl e, st)
         | None \<Rightarrow>
             (let st1 = st\<lparr>of_aliases := destroy_where (\<lambda>a. al_domainId a = dom_id d \<and> al_source a = source) (of_aliases st)\<rparr>
              in (Inr (), case destination of
                    None \<Rightarrow> st1
                  | Some x \<Rightarrow> st1\<lparr>of_aliases := of_aliases st1 @ [new_alias i (dom_id d) source x now]\<rparr>)))"

subsection \<open>Mailboxes\<close>

record mailbox_create =
  mc_localPart :: string
  mc_displayName :: string
  mc_password :: string
  mc_quotaBytes :: int
  mc_isAdmin :: bool
  mc_receiveMail :: "bool option"

record mailbox_update =
  mu_displayName :: "string option"
  mu_password :: "string option"
  mu_quotaBytes :: "int option"
  mu_isAdmin :: "bool option"
  mu_active :: "bool option"
  mu_receiveMail :: "bool option"

definition or_else :: "'a option \<Rightarrow> 'a \<Rightarrow> 'a" where
  "or_else x d = (case x of None \<Rightarrow> d | Some v \<Rightarrow> v)"

definition createMailbox ::
    "(string \<Rightarrow> string) \<Rightarrow> string \<Rightarrow> domain_row \<Rightarrow> mailbox_create \<Rightarrow> time \<Rightarrow> office \<Rightarrow> (http_error + mailbox_row) \<times> office" where
  "createMailbox hash i d input now st =
     (let email = mc_localPart input @ ''@'' @ dom_name d
      in if list_ex (\<lambda>m. mb_email m = email) (mailboxes st) then (Inl (conflict (email @ '' already exists'')), st)
         else if list_ex (\<lambda>a. al_source a = email) (of_aliases st)
         then (Inl (conflict (email @ '' is already used by an alias'')), st)
         else if length email > 254 then (Inl internal_error, st) \<comment> \<open>the width of the column\<close>
         else (let m = \<lparr>mb_id = i, mb_domainId = dom_id d, mb_localPart = mc_localPart input, mb_email = email,
                        mb_passwordHash = hash (mc_password input), mb_displayName = mc_displayName input,
                        mb_signature = None, mb_quotaBytes = mc_quotaBytes input, mb_isAdmin = mc_isAdmin input,
                        mb_active = True, mb_receiveMail = or_else (mc_receiveMail input) True,
                        mb_remoteContentAllow = [], mb_createdAt = now\<rparr>
               in (Inr m, with_mailboxes (mailboxes st @ [m]) st)))"

definition assertNotLastAdmin :: "mailbox_row \<Rightarrow> string \<Rightarrow> office \<Rightarrow> http_error option" where
  "assertNotLastAdmin m message st =
     (if \<not> live_admin m then None
      else if count_where (\<lambda>x. live_admin x \<and> mb_id x \<noteq> mb_id m) (mailboxes st) = 0 then Some (badRequest message)
      else None)"

definition alias_text :: "alias_row \<Rightarrow> string" where
  "alias_text a = (if starts_with (al_source a) ''@'' then ''the catch-all for '' @ drop 1 (al_source a) else al_source a)"

definition aliases_refusal :: "(string \<Rightarrow> string \<Rightarrow> bool) \<Rightarrow> alias_row list \<Rightarrow> string" where
  "aliases_refusal le rows = join_with '', '' (map alias_text (order_by le al_source rows)) @ '' '' @
     (if length rows = 1 then ''delivers'' else ''deliver'') @ '' to this mailbox. Point '' @
     (if length rows = 1 then ''it'' else ''them'') @ '' at another mailbox before making it send-only.''"

definition changed_mailbox :: "(string \<Rightarrow> string) \<Rightarrow> mailbox_update \<Rightarrow> mailbox_row \<Rightarrow> mailbox_row" where
  "changed_mailbox hash input m = m\<lparr>
     mb_displayName := or_else (mu_displayName input) (mb_displayName m),
     mb_passwordHash := (case mu_password input of None \<Rightarrow> mb_passwordHash m | Some p \<Rightarrow> hash p),
     mb_quotaBytes := or_else (mu_quotaBytes input) (mb_quotaBytes m),
     mb_isAdmin := or_else (mu_isAdmin input) (mb_isAdmin m),
     mb_active := or_else (mu_active input) (mb_active m),
     mb_receiveMail := or_else (mu_receiveMail input) (mb_receiveMail m)\<rparr>"

definition updateMailbox ::
    "(string \<Rightarrow> string \<Rightarrow> bool) \<Rightarrow> (string \<Rightarrow> string) \<Rightarrow> mailbox_row \<Rightarrow> mailbox_update \<Rightarrow> office
      \<Rightarrow> (http_error + mailbox_row) \<times> office" where
  "updateMailbox le hash m input st =
     (case (if mu_isAdmin input = Some False \<or> mu_active input = Some False
            then assertNotLastAdmin m ''Cannot remove the last administrator.'' st else None) of
        Some e \<Rightarrow> (Inl e, st)
      | None \<Rightarrow>
          (let here = filter (\<lambda>a. al_destination a = mb_email m \<and> al_active a) (of_aliases st)
           in if mu_receiveMail input = Some False \<and> mb_receiveMail m \<and> here \<noteq> []
              then (Inl (badRequest (aliases_refusal le here)), st)
              else (let m' = changed_mailbox hash input m
                    in (Inr m', with_mailboxes (update_where (\<lambda>x. mb_id x = mb_id m) (\<lambda>_. m') (mailboxes st)) st))))"

definition deleteMailbox :: "mailbox_row \<Rightarrow> office \<Rightarrow> (http_error + unit) \<times> office" where
  "deleteMailbox m st = (case assertNotLastAdmin m ''Cannot delete the last administrator.'' st of
     Some e \<Rightarrow> (Inl e, st)
   | None \<Rightarrow> (Inr (), destroy_mailboxes (\<lambda>x. mb_id x = mb_id m) st))"

subsection \<open>Aliases\<close>

definition createAlias ::
    "string \<Rightarrow> domain_row \<Rightarrow> string \<Rightarrow> string \<Rightarrow> time \<Rightarrow> office \<Rightarrow> (http_error + alias_row) \<times> office" where
  "createAlias i d localPart destination now st =
     (let source = localPart @ CHR ''@'' # dom_name d
      in if localPart \<noteq> [] \<and> list_ex (\<lambda>m. mb_email m = source) (mailboxes st)
         then (Inl (conflict (source @ '' is a mailbox'')), st)
         else if source = destination then (Inl (badRequest ''An alias cannot point at itself''), st)
         else if list_ex (\<lambda>a. al_source a = source \<and> al_destination a = destination) (of_aliases st)
         then (Inl (conflict ''This alias already exists''), st)
         else (case assertReceivingDestination destination st of
                 Some e \<Rightarrow> (Inl e, st)
               | None \<Rightarrow>
                   if length source > 254 then (Inl internal_error, st)
                   else (let a = new_alias i (dom_id d) source destination now
                         in (Inr a, st\<lparr>of_aliases := of_aliases st @ [a]\<rparr>))))"

subsection \<open>The admin's handlers\<close>

text \<open>A handler answers an error or a status with a body.\<close>

type_synonym 'a response = "http_error + nat \<times> 'a"

definition getDomains :: "(string \<Rightarrow> string \<Rightarrow> bool) \<Rightarrow> office \<Rightarrow> domain_dto list" where
  "getDomains le st = map (\<lambda>d. toDomainDto d st) (order_by le dom_name (domains st))"

definition postDomain ::
    "actor \<Rightarrow> string \<Rightarrow> key_pair \<Rightarrow> string \<Rightarrow> time \<Rightarrow> office \<Rightarrow> domain_dto response \<times> office" where
  "postDomain c i keys name now st =
     (case createDomain i keys name now st of
        (Inl e, st1) \<Rightarrow> (Inl e, st1)
      | (Inr d, st1) \<Rightarrow>
          (let st2 = audit c ''domain.create'' (Some (dom_name d)) [] now (afterDomainCommit d st1)
           in (Inr (201, toDomainDto d st2), st2)))"

record domain_update =
  du_active :: "bool option"
  du_catchAll :: "string option option"

definition domain_update_json :: "domain_update \<Rightarrow> (string \<times> json) list" where
  "domain_update_json b =
     (case du_active b of None \<Rightarrow> [] | Some x \<Rightarrow> [(''active'', Bool x)]) @
     (case du_catchAll b of None \<Rightarrow> [] | Some None \<Rightarrow> [(''catchAll'', Null)] | Some (Some a) \<Rightarrow> [(''catchAll'', Str a)])"

definition patchDomain ::
    "actor \<Rightarrow> string \<Rightarrow> string \<Rightarrow> domain_update \<Rightarrow> time \<Rightarrow> office \<Rightarrow> domain_dto response \<times> office" where
  "patchDomain c aid i body now st =
     (case requireDomain i st of
        Inl e \<Rightarrow> (Inl e, st)
      | Inr d0 \<Rightarrow>
          (let (d, st1) = (case du_active body of
                 None \<Rightarrow> (d0, st)
               | Some b \<Rightarrow> (d0\<lparr>dom_active := b\<rparr>,
                   syncSelectorMap (st\<lparr>of_web := setDomainActive (dom_id d0) b (of_web st)\<rparr>)))
           in case (case du_catchAll body of None \<Rightarrow> (Inr (), st1) | Some x \<Rightarrow> setCatchAll aid d x now st1) of
                (Inl e, st2) \<Rightarrow> (Inl e, st2)
              | (Inr u, st2) \<Rightarrow>
                  (let st3 = audit c ''domain.update'' (Some (dom_name d)) (domain_update_json body) now st2
                   in (Inr (200, toDomainDto d st3), st3))))"

definition removeDomain :: "actor \<Rightarrow> string \<Rightarrow> time \<Rightarrow> office \<Rightarrow> unit response \<times> office" where
  "removeDomain c i now st =
     (case requireDomain i st of
        Inl e \<Rightarrow> (Inl e, st)
      | Inr d \<Rightarrow>
          (case deleteDomain d st of
             (Inl e, st1) \<Rightarrow> (Inl e, st1)
           | (Inr u, st1) \<Rightarrow> (Inr (200, ()), audit c ''domain.delete'' (Some (dom_name d)) [] now st1)))"

definition getMailboxes ::
    "(string \<Rightarrow> string \<Rightarrow> bool) \<Rightarrow> (mailbox_row \<Rightarrow> nat option) \<Rightarrow> string \<Rightarrow> office \<Rightarrow> mailbox_dto list response" where
  "getMailboxes le usage i st = (case requireDomain i st of
     Inl e \<Rightarrow> Inl e
   | Inr d \<Rightarrow> Inr (200, toMailboxDtos usage (order_by le mb_email (filter (\<lambda>m. mb_domainId m = dom_id d) (mailboxes st)))))"

definition postMailbox ::
    "actor \<Rightarrow> (string \<Rightarrow> string) \<Rightarrow> (mailbox_row \<Rightarrow> nat option) \<Rightarrow> string \<Rightarrow> string \<Rightarrow> mailbox_create \<Rightarrow> time \<Rightarrow> office
      \<Rightarrow> mailbox_dto response \<times> office" where
  "postMailbox c hash usage mid i body now st =
     (case requireDomain i st of
        Inl e \<Rightarrow> (Inl e, st)
      | Inr d \<Rightarrow>
          (case createMailbox hash mid d body now st of
             (Inl e, st1) \<Rightarrow> (Inl e, st1)
           | (Inr m, st1) \<Rightarrow> (Inr (201, toMailboxDto usage m False),
               audit c ''mailbox.create'' (Some (mb_email m))
                 [(''quotaBytes'', Num (of_int (mc_quotaBytes body))), (''isAdmin'', Bool (mc_isAdmin body))] now st1)))"

definition requireMailbox :: "string \<Rightarrow> office \<Rightarrow> http_error + mailbox_row" where
  "requireMailbox i st = (case find (\<lambda>m. mb_id m = i) (mailboxes st) of
     None \<Rightarrow> Inl (notFound ''Mailbox not found'') | Some m \<Rightarrow> Inr m)"

definition opt_entry :: "string \<Rightarrow> ('a \<Rightarrow> json) \<Rightarrow> 'a option \<Rightarrow> (string \<times> json) list" where
  "opt_entry k f x = (case x of None \<Rightarrow> [] | Some v \<Rightarrow> [(k, f v)])"

definition mailbox_update_json :: "mailbox_update \<Rightarrow> (string \<times> json) list" where
  \<comment> \<open>the changes, with the word \<open>changed\<close> in place of a password\<close>
  "mailbox_update_json b =
     opt_entry ''displayName'' Str (mu_displayName b) @ opt_entry ''quotaBytes'' (\<lambda>q. Num (of_int q)) (mu_quotaBytes b) @
     opt_entry ''isAdmin'' Bool (mu_isAdmin b) @ opt_entry ''active'' Bool (mu_active b) @
     opt_entry ''receiveMail'' Bool (mu_receiveMail b) @ opt_entry ''password'' (\<lambda>_. Str ''changed'') (mu_password b)"

definition patchMailbox ::
    "actor \<Rightarrow> (string \<Rightarrow> string \<Rightarrow> bool) \<Rightarrow> (string \<Rightarrow> string) \<Rightarrow> (mailbox_row \<Rightarrow> nat option) \<Rightarrow> string \<Rightarrow> mailbox_update \<Rightarrow> time
      \<Rightarrow> office \<Rightarrow> mailbox_dto response \<times> office" where
  "patchMailbox c le hash usage i body now st =
     (case requireMailbox i st of
        Inl e \<Rightarrow> (Inl e, st)
      | Inr m \<Rightarrow>
          (case updateMailbox le hash m body st of
             (Inl e, st1) \<Rightarrow> (Inl e, st1)
           | (Inr m', st1) \<Rightarrow> (Inr (200, toMailboxDto usage m' True),
               audit c ''mailbox.update'' (Some (mb_email m')) (mailbox_update_json body) now st1)))"

definition removeMailbox :: "actor \<Rightarrow> string \<Rightarrow> time \<Rightarrow> office \<Rightarrow> unit response \<times> office" where
  "removeMailbox c i now st =
     (case requireMailbox i st of
        Inl e \<Rightarrow> (Inl e, st)
      | Inr m \<Rightarrow>
          (case deleteMailbox m st of
             (Inl e, st1) \<Rightarrow> (Inl e, st1)
           | (Inr u, st1) \<Rightarrow> (Inr (200, ()), audit c ''mailbox.delete'' (Some (mb_email m)) [] now st1)))"

definition getAliases :: "(string \<Rightarrow> string \<Rightarrow> bool) \<Rightarrow> string \<Rightarrow> office \<Rightarrow> alias_dto list response" where
  "getAliases le i st = (case requireDomain i st of
     Inl e \<Rightarrow> Inl e
   | Inr d \<Rightarrow> Inr (200, map toAliasDto (order_by le al_source (filter (\<lambda>a. al_domainId a = dom_id d) (of_aliases st)))))"

definition postAlias ::
    "actor \<Rightarrow> string \<Rightarrow> string \<Rightarrow> string \<Rightarrow> string \<Rightarrow> time \<Rightarrow> office \<Rightarrow> alias_dto response \<times> office" where
  "postAlias c aid i localPart destination now st =
     (case requireDomain i st of
        Inl e \<Rightarrow> (Inl e, st)
      | Inr d \<Rightarrow>
          (case createAlias aid d localPart destination now st of
             (Inl e, st1) \<Rightarrow> (Inl e, st1)
           | (Inr a, st1) \<Rightarrow> (Inr (201, toAliasDto a),
               audit c ''alias.create'' (Some (al_source a)) [(''destination'', Str (al_destination a))] now st1)))"

definition find_alias :: "string \<Rightarrow> office \<Rightarrow> http_error + alias_row" where
  "find_alias i st = (case find (\<lambda>a. al_id a = i) (of_aliases st) of
     None \<Rightarrow> Inl (notFound ''Alias not found'') | Some a \<Rightarrow> Inr a)"

record alias_update =
  alu_destination :: "string option"
  alu_active :: "bool option"

definition patchAlias ::
    "actor \<Rightarrow> string \<Rightarrow> alias_update \<Rightarrow> time \<Rightarrow> office \<Rightarrow> alias_dto response \<times> office" where
  "patchAlias c i body now st =
     (case find_alias i st of
        Inl e \<Rightarrow> (Inl e, st)
      | Inr a \<Rightarrow>
          (case (case alu_destination body of
                   Some x \<Rightarrow> if x \<noteq> al_destination a then assertReceivingDestination x st else None
                 | None \<Rightarrow> None) of
             Some e \<Rightarrow> (Inl e, st)
           | None \<Rightarrow>
               (let a' = a\<lparr>al_destination := or_else (alu_destination body) (al_destination a),
                           al_active := or_else (alu_active body) (al_active a)\<rparr>
                in if list_ex (\<lambda>b. al_id b \<noteq> al_id a \<and> al_source b = al_source a' \<and> al_destination b = al_destination a')
                        (of_aliases st)
                   then (Inl uniqueConflict, st) \<comment> \<open>the unique index of the table\<close>
                   else (Inr (200, toAliasDto a'),
                     audit c ''alias.update'' (Some (al_source a'))
                       (opt_entry ''destination'' Str (alu_destination body) @ opt_entry ''active'' Bool (alu_active body)) now
                       (st\<lparr>of_aliases := update_where (\<lambda>b. al_id b = al_id a) (\<lambda>_. a') (of_aliases st)\<rparr>)))))"

definition removeAlias :: "actor \<Rightarrow> string \<Rightarrow> time \<Rightarrow> office \<Rightarrow> unit response \<times> office" where
  "removeAlias c i now st =
     (case find_alias i st of
        Inl e \<Rightarrow> (Inl e, st)
      | Inr a \<Rightarrow> (Inr (200, ()),
          audit c ''alias.delete'' (Some (al_source a)) [(''destination'', Str (al_destination a))] now
            (st\<lparr>of_aliases := destroy_where (\<lambda>b. al_id b = al_id a) (of_aliases st)\<rparr>)))"

definition requireAdmin :: "actor \<Rightarrow> http_error option" where
  "requireAdmin c = (case ac_user c of
     Some u \<Rightarrow> if mb_isAdmin u then None else Some (forbidden ''Administrator access required'')
   | None \<Rightarrow> Some (forbidden ''Administrator access required''))"

subsection \<open>Consistency\<close>

text \<open>The part of the tables that the consistency of the directory is about.\<close>

definition dom_key :: "domain_row \<Rightarrow> string \<times> string" where
  "dom_key d = (dom_id d, dom_name d)"

definition mb_key :: "mailbox_row \<Rightarrow> string \<times> string \<times> string \<times> string" where
  "mb_key m = (mb_id m, mb_domainId m, mb_localPart m, mb_email m)"

definition al_key :: "alias_row \<Rightarrow> string \<times> string \<times> string \<times> string" where
  "al_key a = (al_id a, al_domainId a, al_source a, al_destination a)"

definition keys_ok ::
    "(string \<times> string) list \<Rightarrow> (string \<times> string \<times> string \<times> string) list \<Rightarrow> (string \<times> string \<times> string \<times> string) list
      \<Rightarrow> string list \<Rightarrow> bool" where
  "keys_ok ds ms as ss \<longleftrightarrow>
     distinct (map fst ds) \<and> distinct (map snd ds) \<and>
     distinct (map fst ms) \<and> distinct (map (\<lambda>(i, d, l, e). e) ms) \<and>
     (\<forall>(i, d, l, e) \<in> set ms. l \<noteq> [] \<and> CHR ''@'' \<notin> set l \<and> (\<exists>n. (d, n) \<in> set ds \<and> e = l @ CHR ''@'' # n)) \<and>
     distinct (map fst as) \<and> distinct (map (\<lambda>(i, d, s, t). (s, t)) as) \<and>
     (\<forall>(i, d, s, t) \<in> set as. (\<exists>l n. (d, n) \<in> set ds \<and> CHR ''@'' \<notin> set l \<and> s = l @ CHR ''@'' # n) \<and>
       (\<forall>(i, d, l, e) \<in> set ms. s \<noteq> e)) \<and>
     set ss \<subseteq> fst ` set ms"

definition dir_ok :: "office \<Rightarrow> bool" where
  "dir_ok st \<longleftrightarrow> keys_ok (map dom_key (domains st)) (map mb_key (mailboxes st)) (map al_key (of_aliases st))
     (map se_mailboxId (w_sessions (of_web st)))"

lemma keys_ok_domain:
  "keys_ok ds ms as ss \<Longrightarrow> i \<notin> fst ` set ds \<Longrightarrow> n \<notin> snd ` set ds \<Longrightarrow> keys_ok (ds @ [(i, n)]) ms as ss"
  unfolding keys_ok_def by (auto 0 4)

lemma keys_ok_mailbox:
  assumes "keys_ok ds ms as ss" and "i \<notin> fst ` set ms" and "(d, n) \<in> set ds" and "l \<noteq> []" and "CHR ''@'' \<notin> set l"
    and "\<forall>(i, d, l', e) \<in> set ms. e \<noteq> l @ CHR ''@'' # n" and "\<forall>(i, d, s, t) \<in> set as. s \<noteq> l @ CHR ''@'' # n"
  shows "keys_ok ds (ms @ [(i, d, l, l @ CHR ''@'' # n)]) as ss"
  using assms unfolding keys_ok_def by (auto 0 4)

lemma keys_ok_alias:
  assumes "keys_ok ds ms as ss" and "i \<notin> fst ` set as" and "(d, n) \<in> set ds"
    and "CHR ''@'' \<notin> set l" and "s = l @ CHR ''@'' # n" and "\<forall>(i, d, l, e) \<in> set ms. s \<noteq> e" and "\<forall>(i, d, s', t') \<in> set as. (s', t') \<noteq> (s, t)"
  shows "keys_ok ds ms (as @ [(i, d, s, t)]) ss"
  using assms unfolding keys_ok_def by (auto 0 4)

lemma keys_ok_mbD:
  assumes "keys_ok ds ms as ss" and "(i, d, l, e) \<in> set ms"
  shows "l \<noteq> [] \<and> CHR ''@'' \<notin> set l \<and> (\<exists>n. (d, n) \<in> set ds \<and> e = l @ CHR ''@'' # n)"
proof -
  have "\<forall>(i, d, l, e) \<in> set ms. l \<noteq> [] \<and> CHR ''@'' \<notin> set l \<and> (\<exists>n. (d, n) \<in> set ds \<and> e = l @ CHR ''@'' # n)"
    using assms(1) unfolding keys_ok_def by (elim conjE)
  from bspec [OF this assms(2)] show ?thesis by simp
qed

lemma keys_ok_alD:
  assumes "keys_ok ds ms as ss" and "(i, d, s, t) \<in> set as"
  shows "\<exists>l n. (d, n) \<in> set ds \<and> CHR ''@'' \<notin> set l \<and> s = l @ CHR ''@'' # n" and "(i', d', l, e) \<in> set ms \<Longrightarrow> s \<noteq> e"
proof -
  have "\<forall>(i, d, s, t) \<in> set as. (\<exists>l n. (d, n) \<in> set ds \<and> CHR ''@'' \<notin> set l \<and> s = l @ CHR ''@'' # n) \<and> (\<forall>(i, d, l, e) \<in> set ms. s \<noteq> e)"
    using assms(1) unfolding keys_ok_def by (elim conjE)
  from bspec [OF this assms(2)] have *: "\<exists>l n. (d, n) \<in> set ds \<and> CHR ''@'' \<notin> set l \<and> s = l @ CHR ''@'' # n"
    "\<forall>(i, d, l, e) \<in> set ms. s \<noteq> e" by simp_all
  from *(1) show "\<exists>l n. (d, n) \<in> set ds \<and> CHR ''@'' \<notin> set l \<and> s = l @ CHR ''@'' # n" .
  from bspec [OF *(2)] show "(i', d', l, e) \<in> set ms \<Longrightarrow> s \<noteq> e" by fastforce
qed

lemma keys_ok_sessions: "keys_ok ds ms as ss \<Longrightarrow> set ss \<subseteq> fst ` set ms"
  unfolding keys_ok_def by (elim conjE)

lemma keys_ok_distinct:
  assumes "keys_ok ds ms as ss"
  shows "distinct (map fst ds)" "distinct (map snd ds)" "distinct (map fst ms)" "distinct (map (\<lambda>(i, d, l, e). e) ms)"
    "distinct (map fst as)" "distinct (map (\<lambda>(i, d, s, t). (s, t)) as)"
  using assms unfolding keys_ok_def by blast+

lemma keys_okI:
  assumes "distinct (map fst ds)" "distinct (map snd ds)" "distinct (map fst ms)" "distinct (map (\<lambda>(i, d, l, e). e) ms)"
    "distinct (map fst as)" "distinct (map (\<lambda>(i, d, s, t). (s, t)) as)"
    "\<And>i d l e. (i, d, l, e) \<in> set ms \<Longrightarrow> l \<noteq> [] \<and> CHR ''@'' \<notin> set l \<and> (\<exists>n. (d, n) \<in> set ds \<and> e = l @ CHR ''@'' # n)"
    "\<And>i d s t. (i, d, s, t) \<in> set as \<Longrightarrow> \<exists>l n. (d, n) \<in> set ds \<and> CHR ''@'' \<notin> set l \<and> s = l @ CHR ''@'' # n"
    "\<And>i d s t i' d' l e. (i, d, s, t) \<in> set as \<Longrightarrow> (i', d', l, e) \<in> set ms \<Longrightarrow> s \<noteq> e"
    "set ss \<subseteq> fst ` set ms"
  shows "keys_ok ds ms as ss"
proof -
  have 1: "\<forall>(i, d, l, e) \<in> set ms. l \<noteq> [] \<and> CHR ''@'' \<notin> set l \<and> (\<exists>n. (d, n) \<in> set ds \<and> e = l @ CHR ''@'' # n)"
  proof (rule ballI, clarify)
    fix i d l e assume "(i, d, l, e) \<in> set ms"
    from assms(7) [OF this] show "l \<noteq> [] \<and> CHR ''@'' \<notin> set l \<and> (\<exists>n. (d, n) \<in> set ds \<and> e = l @ CHR ''@'' # n)" .
  qed
  have 2: "\<forall>(i, d, s, t) \<in> set as. (\<exists>l n. (d, n) \<in> set ds \<and> CHR ''@'' \<notin> set l \<and> s = l @ CHR ''@'' # n) \<and>
      (\<forall>(i, d, l, e) \<in> set ms. s \<noteq> e)"
  proof (rule ballI, clarify)
    fix i d s t assume a: "(i, d, s, t) \<in> set as"
    show "(\<exists>l n. (d, n) \<in> set ds \<and> CHR ''@'' \<notin> set l \<and> s = l @ CHR ''@'' # n) \<and> (\<forall>(i, d, l, e) \<in> set ms. s \<noteq> e)"
      using assms(8) [OF a] assms(9) [OF a] by fastforce
  qed
  show ?thesis unfolding keys_ok_def by (intro conjI assms(1-6,10) 1 2)
qed

lemma keys_ok_filter:
  assumes k: "keys_ok ds ms as ss" and "set ss' \<subseteq> fst ` set (filter P ms)"
    and "\<And>m x. m \<in> set ms \<Longrightarrow> P m \<Longrightarrow> x \<in> set ds \<Longrightarrow> fst x = fst (snd m) \<Longrightarrow> R x"
    and "\<And>a x. a \<in> set as \<Longrightarrow> Q a \<Longrightarrow> x \<in> set ds \<Longrightarrow> fst x = fst (snd a) \<Longrightarrow> R x"
  shows "keys_ok (filter R ds) (filter P ms) (filter Q as) ss'"
proof (rule keys_okI)
  fix i d l e assume m: "(i, d, l, e) \<in> set (filter P ms)"
  then have "(i, d, l, e) \<in> set ms" by simp
  from keys_ok_mbD [OF k this] obtain n where "l \<noteq> []" "CHR ''@'' \<notin> set l" "(d, n) \<in> set ds" "e = l @ CHR ''@'' # n" by blast
  with m assms(3) [of "(i, d, l, e)" "(d, n)"]
  show "l \<noteq> [] \<and> CHR ''@'' \<notin> set l \<and> (\<exists>n. (d, n) \<in> set (filter R ds) \<and> e = l @ CHR ''@'' # n)" by simp
next
  fix i d s t assume a: "(i, d, s, t) \<in> set (filter Q as)"
  then have "(i, d, s, t) \<in> set as" by simp
  from keys_ok_alD(1) [OF k this] obtain l n where "(d, n) \<in> set ds" "CHR ''@'' \<notin> set l" "s = l @ CHR ''@'' # n" by blast
  with a assms(4) [of "(i, d, s, t)" "(d, n)"]
  show "\<exists>l n. (d, n) \<in> set (filter R ds) \<and> CHR ''@'' \<notin> set l \<and> s = l @ CHR ''@'' # n" by auto
next
  fix i d s t i' d' l e assume "(i, d, s, t) \<in> set (filter Q as)" "(i', d', l, e) \<in> set (filter P ms)"
  then show "s \<noteq> e" using keys_ok_alD(2) [OF k, of i d s t i' d' l e] by simp
qed (use keys_ok_distinct [OF k] assms(2) in \<open>simp_all add: distinct_map_filter\<close>)

subsection \<open>The operations keep it\<close>

lemma dir_ok_cong:
  assumes "dir_ok st" and "map dom_key (domains st') = map dom_key (domains st)"
    and "map mb_key (mailboxes st') = map mb_key (mailboxes st)" and "of_aliases st' = of_aliases st"
    and "w_sessions (of_web st') = w_sessions (of_web st)"
  shows "dir_ok st'"
  using assms by (simp add: dir_ok_def)

lemma dir_ok_distinct:
  assumes "dir_ok st"
  shows "distinct (map dom_id (domains st))" and "distinct (map mb_id (mailboxes st))" and "distinct (map al_id (of_aliases st))"
  using keys_ok_distinct(1,3,5) [OF assms [unfolded dir_ok_def]]
  by (simp_all add: comp_def dom_key_def mb_key_def al_key_def)

lemma office_frame [simp]:
  "of_web (audit c a t d now st) = of_web st" "of_aliases (audit c a t d now st) = of_aliases st"
  "of_web (syncSelectorMap st) = of_web st" "of_aliases (syncSelectorMap st) = of_aliases st"
  "of_web (materializeDomainKey d' st) = of_web st" "of_aliases (materializeDomainKey d' st) = of_aliases st"
  "of_web (removeDomainKey d' st) = of_web st" "of_aliases (removeDomainKey d' st) = of_aliases st"
  "of_web (afterDomainCommit d' st) = of_web st" "of_aliases (afterDomainCommit d' st) = of_aliases st"
  by (simp_all add: audit_def syncSelectorMap_def materializeDomainKey_def removeDomainKey_def afterDomainCommit_def)

lemma dir_ok_frame [simp]:
  "dir_ok (audit c a t d now st) = dir_ok st" "dir_ok (syncSelectorMap st) = dir_ok st"
  "dir_ok (removeDomainKey d' st) = dir_ok st" "dir_ok (afterDomainCommit d' st) = dir_ok st"
  by (simp_all add: dir_ok_def)

lemma with_simps [simp]:
  "domains (with_domains ds st) = ds" "mailboxes (with_domains ds st) = mailboxes st"
  "of_aliases (with_domains ds st) = of_aliases st" "w_sessions (of_web (with_domains ds st)) = w_sessions (of_web st)"
  "domains (with_mailboxes ms st) = domains st" "mailboxes (with_mailboxes ms st) = ms"
  "of_aliases (with_mailboxes ms st) = of_aliases st" "w_sessions (of_web (with_mailboxes ms st)) = w_sessions (of_web st)"
  by (simp_all add: with_domains_def with_mailboxes_def)

lemma dir_ok_createDomain:
  assumes "dir_ok st" and "i \<notin> set (map dom_id (domains st))"
  shows "dir_ok (snd (createDomain i keys n now st))"
proof -
  have "n \<notin> set (map dom_name (domains st))" if "find_domain n st = None"
    using that by (auto simp: find_domain_def find_None_iff)
  with assms show ?thesis
    by (auto simp: createDomain_def Let_def dir_ok_def dom_key_def intro!: keys_ok_domain)
qed

lemma dir_ok_createMailbox:
  assumes "dir_ok st" and "i \<notin> set (map mb_id (mailboxes st))" and "d \<in> set (domains st)"
    and "mc_localPart input \<noteq> []" and "CHR ''@'' \<notin> set (mc_localPart input)"
  shows "dir_ok (snd (createMailbox hash i d input now st))"
  using assms
  by (auto simp: createMailbox_def Let_def dir_ok_def mb_key_def dom_key_def al_key_def list_ex_iff intro!: keys_ok_mailbox)
    blast+

lemma catch_all_no_mailbox:
  assumes "dir_ok st" and "m \<in> set (mailboxes st)"
  shows "mb_email m \<noteq> CHR ''@'' # s"
proof -
  have "(mb_id m, mb_domainId m, mb_localPart m, mb_email m) \<in> set (map mb_key (mailboxes st))"
    using assms(2) by (simp add: mb_key_def [symmetric])
  from keys_ok_mbD [OF assms(1) [unfolded dir_ok_def] this] obtain n where "mb_localPart m \<noteq> []"
    "CHR ''@'' \<notin> set (mb_localPart m)" "mb_email m = mb_localPart m @ CHR ''@'' # n" by blast
  then show ?thesis by (cases "mb_localPart m") auto
qed

lemma dir_ok_add_alias:
  assumes "dir_ok st" and "i \<notin> set (map al_id (of_aliases st))" and "(di, n) \<in> set (map dom_key (domains st))"
    and "CHR ''@'' \<notin> set l" and "source = l @ CHR ''@'' # n" and "\<forall>m \<in> set (mailboxes st). mb_email m \<noteq> source"
    and "\<forall>a \<in> set (of_aliases st). al_source a = source \<longrightarrow> al_destination a \<noteq> x"
  shows "dir_ok (st\<lparr>of_aliases := of_aliases st @ [new_alias i di source x now]\<rparr>)"
proof -
  have "keys_ok (map dom_key (domains st)) (map mb_key (mailboxes st)) (map al_key (of_aliases st) @ [(i, di, source, x)])
      (map se_mailboxId (w_sessions (of_web st)))"
    using assms by (intro keys_ok_alias [where l = l and n = n]) (auto simp: dir_ok_def mb_key_def al_key_def)
  then show ?thesis by (simp add: dir_ok_def new_alias_def al_key_def)
qed

lemma dir_ok_createAlias:
  assumes "dir_ok st" and "i \<notin> set (map al_id (of_aliases st))" and "d \<in> set (domains st)" and "CHR ''@'' \<notin> set l"
  shows "dir_ok (snd (createAlias i d l x now st))"
proof -
  have "\<forall>m \<in> set (mailboxes st). mb_email m \<noteq> l @ CHR ''@'' # dom_name d"
    if "l = [] \<or> \<not> list_ex (\<lambda>m. mb_email m = l @ CHR ''@'' # dom_name d) (mailboxes st)"
    using that catch_all_no_mailbox [OF assms(1)] by (auto simp: list_ex_iff)
  moreover have "(dom_id d, dom_name d) \<in> set (map dom_key (domains st))" using assms(3) by (auto simp: dom_key_def)
  ultimately show ?thesis
    using assms by (auto simp: createAlias_def Let_def list_ex_iff split: option.split intro!: dir_ok_add_alias [where l = l])
qed

lemma dir_ok_filter_aliases:
  assumes "dir_ok st"
  shows "dir_ok (st\<lparr>of_aliases := filter (\<lambda>a. Q (al_key a)) (of_aliases st)\<rparr>)"
proof -
  note k = assms [unfolded dir_ok_def]
  have "keys_ok (filter (\<lambda>_. True) (map dom_key (domains st))) (filter (\<lambda>_. True) (map mb_key (mailboxes st)))
      (filter Q (map al_key (of_aliases st))) (map se_mailboxId (w_sessions (of_web st)))"
    using keys_ok_sessions [OF k] by (intro keys_ok_filter [OF k]) simp_all
  then show ?thesis by (simp add: dir_ok_def filter_map comp_def)
qed

lemma dir_ok_setCatchAll:
  assumes "dir_ok st" and "i \<notin> set (map al_id (of_aliases st))" and "dom_key d \<in> set (map dom_key (domains st))"
  shows "dir_ok (snd (setCatchAll i d x now st))"
proof -
  let ?st = "st\<lparr>of_aliases := filter (\<lambda>a. \<not> (al_domainId a = dom_id d \<and> al_source a = CHR ''@'' # dom_name d)) (of_aliases st)\<rparr>"
  have 1: "dir_ok ?st"
    using dir_ok_filter_aliases [OF assms(1), of "\<lambda>(i, c, s, t). \<not> (c = dom_id d \<and> s = CHR ''@'' # dom_name d)"]
    by (simp add: al_key_def)
  have 2: "al_source a \<noteq> CHR ''@'' # dom_name d" if a: "a \<in> set (of_aliases ?st)" for a
  proof
    assume s: "al_source a = CHR ''@'' # dom_name d"
    have "(al_id a, al_domainId a, al_source a, al_destination a) \<in> set (map al_key (of_aliases st))"
      using a by (auto simp: al_key_def)
    from keys_ok_alD(1) [OF assms(1) [unfolded dir_ok_def] this] obtain l n
      where n: "(al_domainId a, n) \<in> set (map dom_key (domains st))" "CHR ''@'' \<notin> set l" "al_source a = l @ CHR ''@'' # n" by blast
    with s have "n = dom_name d" by (cases l) auto
    moreover have "inj_on snd (set (map dom_key (domains st)))"
      using keys_ok_distinct(2) [OF assms(1) [unfolded dir_ok_def]] unfolding distinct_map by blast
    ultimately have "(al_domainId a, n) = dom_key d"
      using n(1) assms(3) by (intro inj_onD [of snd "set (map dom_key (domains st))"]) (simp_all add: dom_key_def)
    then have "al_domainId a = dom_id d" by (simp add: dom_key_def)
    with a s show False by simp
  qed
  have 3: "dir_ok (?st\<lparr>of_aliases := of_aliases ?st @ [new_alias i (dom_id d) (CHR ''@'' # dom_name d) y now]\<rparr>)" for y
  proof (rule dir_ok_add_alias [OF 1, where l = "[]" and n = "dom_name d"])
    show "i \<notin> set (map al_id (of_aliases ?st))" using assms(2) by auto
    show "(dom_id d, dom_name d) \<in> set (map dom_key (domains ?st))" using assms(3) by (simp add: dom_key_def)
    show "\<forall>m \<in> set (mailboxes ?st). mb_email m \<noteq> CHR ''@'' # dom_name d" using catch_all_no_mailbox [OF assms(1)] by simp
    show "\<forall>a \<in> set (of_aliases ?st). al_source a = CHR ''@'' # dom_name d \<longrightarrow> al_destination a \<noteq> y" using 2 by blast
  qed simp_all
  show ?thesis
  proof (cases x)
    case None
    with 1 show ?thesis by (simp add: setCatchAll_def Let_def destroy_where_def)
  next
    case (Some y)
    show ?thesis
    proof (cases "assertReceivingDestination y st")
      case None
      with Some 3 [of y] show ?thesis by (simp add: setCatchAll_def Let_def destroy_where_def)
    next
      case (Some e)
      with \<open>x = Some y\<close> assms(1) show ?thesis by (simp add: setCatchAll_def Let_def)
    qed
  qed
qed

lemma kept_sessions:
  assumes "dir_ok st" and "s \<in> set (w_sessions (of_web st))"
    and "se_mailboxId s \<notin> mb_id ` {m \<in> set (mailboxes st). p m}"
  shows "\<exists>m \<in> set (mailboxes st). \<not> p m \<and> mb_id m = se_mailboxId s"
proof -
  have "se_mailboxId s \<in> fst ` set (map mb_key (mailboxes st))"
    using keys_ok_sessions [OF assms(1) [unfolded dir_ok_def]] assms(2) by auto
  then obtain m where "m \<in> set (mailboxes st)" "se_mailboxId s = mb_id m" by (auto simp: mb_key_def)
  moreover from this assms(3) have "\<not> p m" by blast
  ultimately show ?thesis by force
qed

lemma dir_ok_destroy:
  assumes "dir_ok st" and "\<And>m d. m \<in> set (mailboxes st) \<Longrightarrow> \<not> P (mb_key m) \<Longrightarrow> d \<in> set (domains st) \<Longrightarrow>
      dom_id d = mb_domainId m \<Longrightarrow> \<not> R (dom_key d)"
    and "\<And>a d. a \<in> set (of_aliases st) \<Longrightarrow> \<not> Q (al_key a) \<Longrightarrow> d \<in> set (domains st) \<Longrightarrow>
      dom_id d = al_domainId a \<Longrightarrow> \<not> R (dom_key d)"
    and "domains st' = filter (\<lambda>d. \<not> R (dom_key d)) (domains st)"
    and "mailboxes st' = filter (\<lambda>m. \<not> P (mb_key m)) (mailboxes st)"
    and "of_aliases st' = filter (\<lambda>a. \<not> Q (al_key a)) (of_aliases st)"
    and "set (map se_mailboxId (w_sessions (of_web st'))) \<subseteq> mb_id ` set (mailboxes st')"
  shows "dir_ok st'"
proof -
  note k = assms(1) [unfolded dir_ok_def]
  have "keys_ok (filter (\<lambda>x. \<not> R x) (map dom_key (domains st))) (filter (\<lambda>x. \<not> P x) (map mb_key (mailboxes st)))
      (filter (\<lambda>x. \<not> Q x) (map al_key (of_aliases st))) (map se_mailboxId (w_sessions (of_web st')))"
  proof (rule keys_ok_filter [OF k])
    show "set (map se_mailboxId (w_sessions (of_web st'))) \<subseteq> fst ` set (filter (\<lambda>x. \<not> P x) (map mb_key (mailboxes st)))"
    proof -
      have "mb_id ` set (mailboxes st') = fst ` set (filter (\<lambda>x. \<not> P x) (map mb_key (mailboxes st)))"
        by (simp add: assms(5) filter_map comp_def image_image) (simp add: mb_key_def)
      with assms(7) show ?thesis by simp
    qed
  next
    fix m x assume "m \<in> set (map mb_key (mailboxes st))" "\<not> P m" "x \<in> set (map dom_key (domains st))" "fst x = fst (snd m)"
    then show "\<not> R x" using assms(2) by (auto simp: mb_key_def dom_key_def)
  next
    fix a x assume "a \<in> set (map al_key (of_aliases st))" "\<not> Q a" "x \<in> set (map dom_key (domains st))" "fst x = fst (snd a)"
    then show "\<not> R x" using assms(3) by (auto simp: al_key_def dom_key_def)
  qed
  then show ?thesis using assms(4-6) by (simp add: dir_ok_def filter_map comp_def)
qed

lemma destroy_mailboxes_simps [simp]:
  "domains (destroy_mailboxes p st) = domains st"
  "mailboxes (destroy_mailboxes p st) = filter (\<lambda>m. \<not> p m) (mailboxes st)"
  "of_aliases (destroy_mailboxes p st) = of_aliases st"
  "w_sessions (of_web (destroy_mailboxes p st)) =
     filter (\<lambda>s. se_mailboxId s \<notin> set (map mb_id (filter p (mailboxes st)))) (w_sessions (of_web st))"
  by (simp_all add: destroy_mailboxes_def Let_def destroy_where_def)

lemma destroy_sessions:
  "dir_ok st \<Longrightarrow> set (map se_mailboxId (w_sessions (of_web (destroy_mailboxes p st)))) \<subseteq> mb_id ` set (mailboxes (destroy_mailboxes p st))"
proof (rule subsetI)
  fix i assume st: "dir_ok st" and "i \<in> set (map se_mailboxId (w_sessions (of_web (destroy_mailboxes p st))))"
  then obtain s where s: "s \<in> set (w_sessions (of_web st))" "i = se_mailboxId s"
    "se_mailboxId s \<notin> mb_id ` {m \<in> set (mailboxes st). p m}" by auto
  from kept_sessions [OF st s(1,3)] s(2) show "i \<in> mb_id ` set (mailboxes (destroy_mailboxes p st))" by force
qed

lemma destroy_domain_simps [simp]:
  "domains (destroy_domain d st) = filter (\<lambda>x. dom_id x \<noteq> dom_id d) (domains st)"
  "mailboxes (destroy_domain d st) = filter (\<lambda>m. mb_domainId m \<noteq> dom_id d) (mailboxes st)"
  "of_aliases (destroy_domain d st) = filter (\<lambda>a. al_domainId a \<noteq> dom_id d) (of_aliases st)"
  "w_sessions (of_web (destroy_domain d st)) = w_sessions (of_web (destroy_mailboxes (\<lambda>m. mb_domainId m = dom_id d) st))"
  by (simp_all add: destroy_domain_def Let_def destroy_where_def with_domains_def)

lemma dir_ok_destroy_domain:
  assumes "dir_ok st" shows "dir_ok (destroy_domain d st)"
proof (rule dir_ok_destroy [OF assms, where R = "\<lambda>x. fst x = dom_id d" and P = "\<lambda>m. fst (snd m) = dom_id d"
      and Q = "\<lambda>a. fst (snd a) = dom_id d"])
  show "set (map se_mailboxId (w_sessions (of_web (destroy_domain d st)))) \<subseteq> mb_id ` set (mailboxes (destroy_domain d st))"
    using destroy_sessions [OF assms, of "\<lambda>m. mb_domainId m = dom_id d"] by (simp only: destroy_domain_simps destroy_mailboxes_simps)
qed (simp_all add: dom_key_def mb_key_def al_key_def)

lemma dir_ok_destroy_mailbox:
  assumes "dir_ok st" shows "dir_ok (destroy_mailboxes (\<lambda>x. mb_id x = i) st)"
proof (rule dir_ok_destroy [OF assms, where R = "\<lambda>x. False" and P = "\<lambda>m. fst m = i" and Q = "\<lambda>a. False"])
  show "set (map se_mailboxId (w_sessions (of_web (destroy_mailboxes (\<lambda>x. mb_id x = i) st)))) \<subseteq>
      mb_id ` set (mailboxes (destroy_mailboxes (\<lambda>x. mb_id x = i) st))"
    by (rule destroy_sessions [OF assms])
qed (simp_all add: mb_key_def)

lemma map_update_same:
  assumes "distinct (map k xs)" and "x \<in> set xs" and "f x' = f x"
  shows "map f (update_where (\<lambda>y. k y = k x) (\<lambda>_. x') xs) = map f xs"
  using assms by (auto simp: update_where_def dest: distinct_keyD)

lemma mb_key_changed [simp]: "mb_key (changed_mailbox hash input m) = mb_key m"
  by (simp add: mb_key_def changed_mailbox_def)

lemma dir_ok_updateMailbox:
  assumes "dir_ok st" and "m \<in> set (mailboxes st)"
  shows "dir_ok (snd (updateMailbox le hash m input st))"
proof -
  have "map mb_key (update_where (\<lambda>x. mb_id x = mb_id m) (\<lambda>_. changed_mailbox hash input m) (mailboxes st)) =
      map mb_key (mailboxes st)"
    by (rule map_update_same [OF dir_ok_distinct(2) [OF assms(1)] assms(2)]) simp
  then have "dir_ok (with_mailboxes (update_where (\<lambda>x. mb_id x = mb_id m) (\<lambda>_. changed_mailbox hash input m) (mailboxes st)) st)"
    by (intro dir_ok_cong [OF assms(1)]) simp_all
  with assms(1) show ?thesis by (simp add: updateMailbox_def Let_def split: option.split)
qed

lemma set_domain_active_frame [simp]:
  "w_mailboxes (setDomainActive d b w) = w_mailboxes w" "w_sessions (setDomainActive d b w) = w_sessions w"
  "map dom_key (w_domains (setDomainActive d b w)) = map dom_key (w_domains w)"
  by (simp_all add: setDomainActive_def forgetDisabledDomains_def update_where_def dom_key_def)

lemma dir_ok_active: "dir_ok st \<Longrightarrow> dir_ok (st\<lparr>of_web := setDomainActive d b (of_web st)\<rparr>)"
  by (erule dir_ok_cong) simp_all

lemma distinct_update_one:
  assumes "distinct (map k xs)" and "distinct (map g xs)" and "\<And>y. y \<in> set xs \<Longrightarrow> k y \<noteq> i \<Longrightarrow> g y \<noteq> g x'"
  shows "distinct (map g (update_where (\<lambda>y. k y = i) (\<lambda>_. x') xs))"
  using assms
proof (induction xs)
  case (Cons y ys)
  have IH: "distinct (map g (update_where (\<lambda>y. k y = i) (\<lambda>_. x') ys))" using Cons by simp
  have ys: "g ` set (update_where (\<lambda>y. k y = i) (\<lambda>_. x') ys) \<subseteq> g ` {z \<in> set ys. k z \<noteq> i} \<union> (if i \<in> k ` set ys then {g x'} else {})"
    by (auto simp: set_update_where)
  show ?case
  proof (cases "k y = i")
    case True
    then have "i \<notin> k ` set ys" using Cons.prems(1) by auto
    with ys have "g ` set (update_where (\<lambda>y. k y = i) (\<lambda>_. x') ys) \<subseteq> g ` {z \<in> set ys. k z \<noteq> i}" by simp
    moreover have "g x' \<notin> g ` {z \<in> set ys. k z \<noteq> i}" using Cons.prems(3) by force
    ultimately have "g x' \<notin> set (map g (update_where (\<lambda>y. k y = i) (\<lambda>_. x') ys))" by auto
    moreover have "update_where (\<lambda>y. k y = i) (\<lambda>_. x') (y # ys) = x' # update_where (\<lambda>y. k y = i) (\<lambda>_. x') ys"
      using True by (simp add: update_where_def)
    ultimately show ?thesis using IH by simp
  next
    case False
    with Cons.prems have "g y \<noteq> g x'" "g y \<notin> g ` set ys" by auto
    with ys have "g y \<notin> g ` set (update_where (\<lambda>y. k y = i) (\<lambda>_. x') ys)" by (auto split: if_splits)
    then have "g y \<notin> set (map g (update_where (\<lambda>y. k y = i) (\<lambda>_. x') ys))" by simp
    moreover have "update_where (\<lambda>y. k y = i) (\<lambda>_. x') (y # ys) = y # update_where (\<lambda>y. k y = i) (\<lambda>_. x') ys"
      using False by (simp add: update_where_def)
    ultimately show ?thesis using IH by simp
  qed
qed (simp add: update_where_def)

lemma find_idD: "find (\<lambda>a. k a = i) xs = Some a \<Longrightarrow> a \<in> set xs \<and> k a = i"
  by (drule find_SomeD) simp

lemma dir_ok_patch:
  assumes "dir_ok st" and a: "a \<in> set (of_aliases st)" and same: "al_id a' = al_id a" "al_domainId a' = al_domainId a" "al_source a' = al_source a"
    and new: "\<not> list_ex (\<lambda>b. al_id b \<noteq> al_id a \<and> al_source b = al_source a' \<and> al_destination b = al_destination a') (of_aliases st)"
  shows "dir_ok (st\<lparr>of_aliases := update_where (\<lambda>b. al_id b = al_id a) (\<lambda>_. a') (of_aliases st)\<rparr>)"
proof -
  note k = assms(1) [unfolded dir_ok_def]
  let ?as = "update_where (\<lambda>b. al_id b = al_id a) (\<lambda>_. a') (of_aliases st)"
  have ids: "distinct (map al_id (of_aliases st))" by (rule dir_ok_distinct(3) [OF assms(1)])
  have "distinct (map (\<lambda>x. (al_source x, al_destination x)) (of_aliases st))"
    using keys_ok_distinct(6) [OF k] by (simp add: comp_def al_key_def)
  then have "distinct (map (\<lambda>x. (al_source x, al_destination x)) ?as)"
    using new by (intro distinct_update_one [OF ids]) (auto simp: list_ex_iff)
  then have d6: "distinct (map (\<lambda>(i, d, s, t). (s, t)) (map al_key ?as))" by (simp add: comp_def al_key_def)
  have "map al_id ?as = map al_id (of_aliases st)"
    by (rule map_update_same [OF ids a]) (simp add: same)
  with ids have d5: "distinct (map fst (map al_key ?as))" by (simp add: comp_def al_key_def)
  have old: "\<exists>j t'. (j, d, s, t') \<in> set (map al_key (of_aliases st))" if "(i, d, s, t) \<in> set (map al_key ?as)" for i d s t
    using that a same by (fastforce simp: al_key_def set_update_where split: if_splits)
  have "keys_ok (map dom_key (domains st)) (map mb_key (mailboxes st)) (map al_key ?as) (map se_mailboxId (w_sessions (of_web st)))"
  proof (rule keys_okI [OF keys_ok_distinct(1-4) [OF k] d5 d6])
    fix i d l e assume "(i, d, l, e) \<in> set (map mb_key (mailboxes st))"
    from keys_ok_mbD [OF k this]
    show "l \<noteq> [] \<and> CHR ''@'' \<notin> set l \<and> (\<exists>n. (d, n) \<in> set (map dom_key (domains st)) \<and> e = l @ CHR ''@'' # n)" .
  next
    fix i d s t assume "(i, d, s, t) \<in> set (map al_key ?as)"
    from old [OF this] keys_ok_alD(1) [OF k]
    show "\<exists>l n. (d, n) \<in> set (map dom_key (domains st)) \<and> CHR ''@'' \<notin> set l \<and> s = l @ CHR ''@'' # n" by blast
  next
    fix i d s t i' d' l e assume a: "(i, d, s, t) \<in> set (map al_key ?as)" and m: "(i', d', l, e) \<in> set (map mb_key (mailboxes st))"
    from old [OF a] keys_ok_alD(2) [OF k _ m] show "s \<noteq> e" by blast
  qed (rule keys_ok_sessions [OF k])
  then show ?thesis by (simp add: dir_ok_def)
qed

lemma dir_ok_patchAlias:
  assumes "dir_ok st" shows "dir_ok (snd (patchAlias c i body now st))"
proof (cases "find_alias i st")
  case (Inr a)
  then have a: "a \<in> set (of_aliases st)" by (auto simp: find_alias_def dest: find_SomeD split: option.splits)
  show ?thesis
    unfolding patchAlias_def Inr sum.case
    using assms by (auto simp: Let_def split: option.split intro!: dir_ok_patch [OF assms a])
qed (use assms in \<open>simp add: patchAlias_def\<close>)

subsection \<open>Runs of the handlers\<close>

text \<open>
  Any sequence of the admin's changes. New ids are fresh; a local part passed the schema, which
  requires a first letter or digit and has no \<open>@\<close> (the catch-all has the empty one).
\<close>

inductive office_step :: "office \<Rightarrow> office \<Rightarrow> bool" where
  step_postDomain: "i \<notin> set (map dom_id (domains st)) \<Longrightarrow> office_step st (snd (postDomain c i keys n now st))"
| step_patchDomain: "aid \<notin> set (map al_id (of_aliases st)) \<Longrightarrow> office_step st (snd (patchDomain c aid i body1 now st))"
| step_removeDomain: "office_step st (snd (removeDomain c i now st))"
| step_postMailbox: "mid \<notin> set (map mb_id (mailboxes st)) \<Longrightarrow> mc_localPart body2 \<noteq> [] \<Longrightarrow> CHR ''@'' \<notin> set (mc_localPart body2) \<Longrightarrow>
    office_step st (snd (postMailbox c hash usage mid i body2 now st))"
| step_patchMailbox: "office_step st (snd (patchMailbox c le hash usage i body3 now st))"
| step_removeMailbox: "office_step st (snd (removeMailbox c i now st))"
| step_postAlias: "aid \<notin> set (map al_id (of_aliases st)) \<Longrightarrow> CHR ''@'' \<notin> set l \<Longrightarrow>
    office_step st (snd (postAlias c aid i l x now st))"
| step_patchAlias: "office_step st (snd (patchAlias c i body4 now st))"
| step_removeAlias: "office_step st (snd (removeAlias c i now st))"

abbreviation office_run :: "office \<Rightarrow> office \<Rightarrow> bool" where
  "office_run \<equiv> office_step\<^sup>*\<^sup>*"

lemma requireDomain_Inr: "requireDomain i st = Inr d \<Longrightarrow> d \<in> set (domains st) \<and> dom_id d = i"
  by (auto simp: requireDomain_def dest: find_SomeD split: option.splits)

lemma requireMailbox_Inr: "requireMailbox i st = Inr m \<Longrightarrow> m \<in> set (mailboxes st) \<and> mb_id m = i"
  by (auto simp: requireMailbox_def dest: find_SomeD split: option.splits)

lemma find_alias_Inr: "find_alias i st = Inr a \<Longrightarrow> a \<in> set (of_aliases st) \<and> al_id a = i"
  by (auto simp: find_alias_def dest: find_SomeD split: option.splits)

text \<open>Each handler changes the tables as the operation it calls does.\<close>

lemma snd_postDomain:
  "of_web (snd (postDomain c i keys n now st)) = of_web (snd (createDomain i keys n now st))"
  "of_aliases (snd (postDomain c i keys n now st)) = of_aliases (snd (createDomain i keys n now st))"
  by (auto simp: postDomain_def Let_def split: prod.split sum.split)

lemma snd_removeDomain:
  "of_web (snd (removeDomain c i now st)) = of_web (case requireDomain i st of Inl e \<Rightarrow> st | Inr d \<Rightarrow> snd (deleteDomain d st))"
  "of_aliases (snd (removeDomain c i now st)) = of_aliases (case requireDomain i st of Inl e \<Rightarrow> st | Inr d \<Rightarrow> snd (deleteDomain d st))"
  by (auto simp: removeDomain_def split: prod.split sum.split)

lemma snd_postMailbox:
  "of_web (snd (postMailbox c hash usage mid i b now st)) =
     of_web (case requireDomain i st of Inl e \<Rightarrow> st | Inr d \<Rightarrow> snd (createMailbox hash mid d b now st))"
  "of_aliases (snd (postMailbox c hash usage mid i b now st)) =
     of_aliases (case requireDomain i st of Inl e \<Rightarrow> st | Inr d \<Rightarrow> snd (createMailbox hash mid d b now st))"
  by (auto simp: postMailbox_def split: prod.split sum.split)

lemma snd_patchMailbox:
  "of_web (snd (patchMailbox c le hash usage i b now st)) =
     of_web (case requireMailbox i st of Inl e \<Rightarrow> st | Inr m \<Rightarrow> snd (updateMailbox le hash m b st))"
  "of_aliases (snd (patchMailbox c le hash usage i b now st)) =
     of_aliases (case requireMailbox i st of Inl e \<Rightarrow> st | Inr m \<Rightarrow> snd (updateMailbox le hash m b st))"
  by (auto simp: patchMailbox_def split: prod.split sum.split)

lemma snd_removeMailbox:
  "of_web (snd (removeMailbox c i now st)) = of_web (case requireMailbox i st of Inl e \<Rightarrow> st | Inr m \<Rightarrow> snd (deleteMailbox m st))"
  "of_aliases (snd (removeMailbox c i now st)) = of_aliases (case requireMailbox i st of Inl e \<Rightarrow> st | Inr m \<Rightarrow> snd (deleteMailbox m st))"
  by (auto simp: removeMailbox_def split: prod.split sum.split)

lemma snd_postAlias:
  "of_web (snd (postAlias c aid i l x now st)) = of_web (case requireDomain i st of Inl e \<Rightarrow> st | Inr d \<Rightarrow> snd (createAlias aid d l x now st))"
  "of_aliases (snd (postAlias c aid i l x now st)) = of_aliases (case requireDomain i st of Inl e \<Rightarrow> st | Inr d \<Rightarrow> snd (createAlias aid d l x now st))"
  by (auto simp: postAlias_def split: prod.split sum.split)

lemmas snd_handlers = snd_postDomain snd_removeDomain snd_postMailbox snd_patchMailbox snd_removeMailbox snd_postAlias

lemma dir_ok_tables: "dir_ok st \<Longrightarrow> of_web st' = of_web st \<Longrightarrow> of_aliases st' = of_aliases st \<Longrightarrow> dir_ok st'"
  by (simp add: dir_ok_def)

lemma dir_ok_patchDomain:
  assumes "dir_ok st" and "aid \<notin> set (map al_id (of_aliases st))"
  shows "dir_ok (snd (patchDomain c aid i body now st))"
proof (cases "requireDomain i st")
  case (Inr d0)
  define p where "p = (case du_active body of None \<Rightarrow> (d0, st)
    | Some b \<Rightarrow> (d0\<lparr>dom_active := b\<rparr>, syncSelectorMap (st\<lparr>of_web := setDomainActive (dom_id d0) b (of_web st)\<rparr>)))"
  have key: "dom_key (fst p) \<in> set (map dom_key (domains (snd p)))"
  proof -
    have "dom_key d0 \<in> set (map dom_key (domains st))" using requireDomain_Inr [OF Inr] by simp
    moreover have "dom_key (fst p) = dom_key d0" by (simp add: p_def dom_key_def split: option.split)
    moreover have "map dom_key (domains (snd p)) = map dom_key (domains st)" by (simp add: p_def split: option.split)
    ultimately show ?thesis by simp
  qed
  have ok: "dir_ok (snd p)" using assms(1) dir_ok_active by (auto simp: p_def split: option.split)
  have al: "of_aliases (snd p) = of_aliases st" by (simp add: p_def split: option.split)
  have "dir_ok (snd (setCatchAll aid (fst p) x now (snd p)))" for x
    using dir_ok_setCatchAll [OF ok _ key] assms(2) al by simp
  then show ?thesis
    unfolding patchDomain_def Inr sum.case p_def [symmetric]
    using ok by (cases p) (auto simp: Let_def split: option.split sum.split prod.split; metis snd_conv)
qed (use assms in \<open>simp add: patchDomain_def\<close>)

lemma office_step_dir_ok: "office_step st st' \<Longrightarrow> dir_ok st \<Longrightarrow> dir_ok st'"
proof (induction rule: office_step.induct)
  case (step_postDomain i st c keys n now)
  from dir_ok_tables [OF dir_ok_createDomain [OF step_postDomain(2,1)] snd_postDomain] show ?case .
next
  case (step_removeDomain st c i now)
  have "dir_ok (case requireDomain i st of Inl e \<Rightarrow> st | Inr d \<Rightarrow> snd (deleteDomain d st))"
    using step_removeDomain dir_ok_destroy_domain by (simp add: deleteDomain_def Let_def split: sum.split)
  from dir_ok_tables [OF this snd_removeDomain] show ?case .
next
  case (step_postMailbox mid st body c hash usage i now)
  have "dir_ok (case requireDomain i st of Inl e \<Rightarrow> st | Inr d \<Rightarrow> snd (createMailbox hash mid d body now st))"
    using step_postMailbox dir_ok_createMailbox requireDomain_Inr by (simp split: sum.split)
  from dir_ok_tables [OF this snd_postMailbox] show ?case .
next
  case (step_patchMailbox st c le hash usage i body now)
  have "dir_ok (case requireMailbox i st of Inl e \<Rightarrow> st | Inr m \<Rightarrow> snd (updateMailbox le hash m body st))"
    using step_patchMailbox dir_ok_updateMailbox requireMailbox_Inr by (simp split: sum.split)
  from dir_ok_tables [OF this snd_patchMailbox] show ?case .
next
  case (step_removeMailbox st c i now)
  have "dir_ok (case requireMailbox i st of Inl e \<Rightarrow> st | Inr m \<Rightarrow> snd (deleteMailbox m st))"
    using step_removeMailbox dir_ok_destroy_mailbox by (simp add: deleteMailbox_def split: sum.split option.split)
  from dir_ok_tables [OF this snd_removeMailbox] show ?case .
next
  case (step_postAlias aid st l c i x now)
  have "dir_ok (case requireDomain i st of Inl e \<Rightarrow> st | Inr d \<Rightarrow> snd (createAlias aid d l x now st))"
    using step_postAlias dir_ok_createAlias requireDomain_Inr by (simp split: sum.split)
  from dir_ok_tables [OF this snd_postAlias] show ?case .
next
  case (step_removeAlias st c i now)
  have "dir_ok (st\<lparr>of_aliases := destroy_where (\<lambda>b. al_id b = k) (of_aliases st)\<rparr>)" for k
    using dir_ok_filter_aliases [OF step_removeAlias, of "\<lambda>a. fst a \<noteq> k"] by (simp add: destroy_where_def al_key_def)
  with step_removeAlias show ?case by (simp add: removeAlias_def split: sum.split)
qed (simp_all add: dir_ok_patchDomain dir_ok_patchAlias)


subsection \<open>The last administrator\<close>

definition has_admin :: "office \<Rightarrow> bool" where
  "has_admin st = list_ex live_admin (mailboxes st)"

lemma has_admin_cong: "of_web st' = of_web st \<Longrightarrow> has_admin st' = has_admin st"
  by (simp add: has_admin_def)

lemma not_last_admin:
  assumes "assertNotLastAdmin m msg st = None" and "live_admin m"
  shows "\<exists>x \<in> set (mailboxes st). live_admin x \<and> mb_id x \<noteq> mb_id m"
  using assms by (auto simp: assertNotLastAdmin_def count_where_0 split: if_splits)

lemma has_admin_updateMailbox:
  assumes "dir_ok st" and "has_admin st" and m: "m \<in> set (mailboxes st)"
  shows "has_admin (snd (updateMailbox le hash m b st))"
proof -
  let ?m = "changed_mailbox hash b m"
  let ?ms = "update_where (\<lambda>x. mb_id x = mb_id m) (\<lambda>_. ?m) (mailboxes st)"
  have other: "list_ex live_admin ?ms" if "x \<in> set (mailboxes st)" "live_admin x" "mb_id x \<noteq> mb_id m" for x
    using that by (force simp: list_ex_iff set_update_where)
  have self: "list_ex live_admin ?ms" if "live_admin ?m"
    using that m by (force simp: list_ex_iff set_update_where)
  obtain x where x: "x \<in> set (mailboxes st)" "live_admin x" using assms(2) by (auto simp: has_admin_def list_ex_iff)
  have "list_ex live_admin ?ms" if ok: "mu_isAdmin b \<noteq> Some False \<and> mu_active b \<noteq> Some False \<or> assertNotLastAdmin m e st = None" for e
  proof (cases "mb_id x = mb_id m")
    case True
    then have "x = m" using dir_ok_distinct(2) [OF assms(1)] x(1) m by (auto dest: distinct_keyD)
    with x have live: "live_admin m" by simp
    show ?thesis
    proof (cases "mu_isAdmin b \<noteq> Some False \<and> mu_active b \<noteq> Some False")
      case True
      then have "live_admin ?m" using live by (auto simp: live_admin_def changed_mailbox_def or_else_def split: option.split)
      then show ?thesis by (rule self)
    next
      case False
      with ok not_last_admin [OF _ live] other show ?thesis by blast
    qed
  qed (use other x in blast)
  then show ?thesis
    using assms(2) by (auto simp: updateMailbox_def Let_def has_admin_def split: option.splits if_splits)
qed

lemma has_admin_deleteMailbox:
  assumes "dir_ok st" and "has_admin st" and m: "m \<in> set (mailboxes st)"
  shows "has_admin (snd (deleteMailbox m st))"
proof (cases "assertNotLastAdmin m ''Cannot delete the last administrator.'' st")
  case None
  obtain x where x: "x \<in> set (mailboxes st)" "live_admin x" using assms(2) by (auto simp: has_admin_def list_ex_iff)
  have "\<exists>y \<in> set (mailboxes st). live_admin y \<and> mb_id y \<noteq> mb_id m"
  proof (cases "mb_id x = mb_id m")
    case True
    then have "x = m" using dir_ok_distinct(2) [OF assms(1)] x(1) m by (auto dest: distinct_keyD)
    with x not_last_admin [OF None] show ?thesis by blast
  qed (use x in blast)
  with None show ?thesis by (auto simp: deleteMailbox_def has_admin_def list_ex_iff)
qed (use assms in \<open>simp add: deleteMailbox_def\<close>)

lemma has_admin_deleteDomain:
  assumes "has_admin st" shows "has_admin (snd (deleteDomain d st))"
proof -
  have "\<exists>x \<in> set (mailboxes st). live_admin x \<and> mb_domainId x \<noteq> dom_id d"
    if "\<not> (0 < count_where (\<lambda>m. live_admin m \<and> mb_domainId m = dom_id d) (mailboxes st) \<and>
        count_where live_admin (mailboxes st) \<le> count_where (\<lambda>m. live_admin m \<and> mb_domainId m = dom_id d) (mailboxes st))"
  proof (rule ccontr)
    assume "\<not> ?thesis"
    then have "count_where (\<lambda>x. live_admin x \<and> mb_domainId x \<noteq> dom_id d) (mailboxes st) = 0" by (simp add: count_where_0)
    moreover have "0 < count_where live_admin (mailboxes st)"
      using assms by (auto simp: count_where_pos has_admin_def list_ex_iff)
    ultimately show False
      using that count_where_conj [of live_admin "mailboxes st" "\<lambda>x. mb_domainId x = dom_id d"] by simp
  qed
  with assms show ?thesis
    by (auto simp: deleteDomain_def Let_def has_admin_def list_ex_iff)
qed

lemma setCatchAll_web [simp]: "of_web (snd (setCatchAll i d x now st)) = of_web st"
  by (simp add: setCatchAll_def Let_def split: option.split)

lemma patchDomain_mailboxes: "mailboxes (snd (patchDomain c aid i b now st)) = mailboxes st"
proof (cases "requireDomain i st")
  case (Inr d0)
  have w: "of_web st2 = of_web st1" if "setCatchAll aid d x now st1 = (r, st2)" for d x st1 r st2
    using arg_cong [OF that, of "of_web \<circ> snd"] by simp
  show ?thesis
    unfolding patchDomain_def Inr sum.case by (auto simp: Let_def split: option.split prod.split sum.split dest: w)
qed (simp add: patchDomain_def)

lemma office_step_admin: "office_step st st' \<Longrightarrow> dir_ok st \<Longrightarrow> has_admin st \<Longrightarrow> has_admin st'"
proof (induction rule: office_step.induct)
  case (step_postDomain i st c keys n now)
  have "has_admin (snd (createDomain i keys n now st))" using step_postDomain by (simp add: createDomain_def Let_def has_admin_def)
  then show ?case by (simp only: has_admin_cong [OF snd_postDomain(1)])
next
  case (step_patchDomain aid st c i body now)
  then show ?case by (simp add: has_admin_def patchDomain_mailboxes)
next
  case (step_removeDomain st c i now)
  have "has_admin (case requireDomain i st of Inl e \<Rightarrow> st | Inr d \<Rightarrow> snd (deleteDomain d st))"
    using step_removeDomain has_admin_deleteDomain by (simp split: sum.split)
  then show ?case by (simp only: has_admin_cong [OF snd_removeDomain(1)])
next
  case (step_postMailbox mid st body c hash usage i now)
  have "has_admin (case requireDomain i st of Inl e \<Rightarrow> st | Inr d \<Rightarrow> snd (createMailbox hash mid d body now st))"
    using step_postMailbox by (simp add: createMailbox_def Let_def has_admin_def split: sum.split)
  then show ?case by (simp only: has_admin_cong [OF snd_postMailbox(1)])
next
  case (step_patchMailbox st c le hash usage i body now)
  have "has_admin (case requireMailbox i st of Inl e \<Rightarrow> st | Inr m \<Rightarrow> snd (updateMailbox le hash m body st))"
    using step_patchMailbox has_admin_updateMailbox requireMailbox_Inr by (simp split: sum.split)
  then show ?case by (simp only: has_admin_cong [OF snd_patchMailbox(1)])
next
  case (step_removeMailbox st c i now)
  have "has_admin (case requireMailbox i st of Inl e \<Rightarrow> st | Inr m \<Rightarrow> snd (deleteMailbox m st))"
    using step_removeMailbox has_admin_deleteMailbox requireMailbox_Inr by (simp split: sum.split)
  then show ?case by (simp only: has_admin_cong [OF snd_removeMailbox(1)])
next
  case (step_postAlias aid st l c i x now)
  have "has_admin (case requireDomain i st of Inl e \<Rightarrow> st | Inr d \<Rightarrow> snd (createAlias aid d l x now st))"
    using step_postAlias by (simp add: createAlias_def Let_def has_admin_def split: sum.split option.split)
  then show ?case by (simp only: has_admin_cong [OF snd_postAlias(1)])
qed (simp_all add: has_admin_def patchAlias_def removeAlias_def Let_def split: sum.split option.split)

text \<open>
  C10: an administrator always remains. No sequence of admin operations, on mailboxes, domains or
  aliases, takes the last active administrator account away.
\<close>

theorem admin_remains:
  assumes "office_run st st'" and "dir_ok st" and "has_admin st"
  shows "has_admin st'"
proof -
  have "dir_ok st' \<and> has_admin st'"
    using assms by (induction rule: rtranclp_induct) (auto intro: office_step_admin office_step_dir_ok)
  then show ?thesis ..
qed

subsection \<open>Aliases and send-only mailboxes\<close>

definition delivers :: "office \<Rightarrow> bool" where
  \<comment> \<open>no active alias points at a send-only mailbox\<close>
  "delivers st = list_all (\<lambda>a. al_active a \<longrightarrow> \<not> send_only_at (al_destination a) st) (of_aliases st)"

lemma send_only_cong: "mailboxes st' = mailboxes st \<Longrightarrow> send_only_at a st' = send_only_at a st"
  by (simp add: send_only_at_def)

lemma delivers_createAlias: "delivers st \<Longrightarrow> delivers (snd (createAlias i d l x now st))"
  by (auto simp: createAlias_def Let_def delivers_def new_alias_def assertReceivingDestination_def send_only_at_def
      split: option.splits if_splits)

lemma delivers_setCatchAll: "delivers st \<Longrightarrow> delivers (snd (setCatchAll i d x now st))"
  by (auto simp: setCatchAll_def Let_def delivers_def new_alias_def assertReceivingDestination_def send_only_at_def
      destroy_where_def list_all_iff split: option.splits if_splits)

lemma delivers_updateMailbox:
  assumes "delivers st" and "dir_ok st" and m: "m \<in> set (mailboxes st)"
  shows "delivers (snd (updateMailbox le hash m b st))"
proof -
  let ?m = "changed_mailbox hash b m"
  let ?ms = "update_where (\<lambda>x. mb_id x = mb_id m) (\<lambda>_. ?m) (mailboxes st)"
  have email: "mb_email ?m = mb_email m" by (simp add: changed_mailbox_def)
  have keep: "delivers (with_mailboxes ?ms st)"
    if quiet: "\<not> (mu_receiveMail b = Some False \<and> mb_receiveMail m \<and>
      filter (\<lambda>a. al_destination a = mb_email m \<and> al_active a) (of_aliases st) \<noteq> [])"
  proof -
    have "\<not> send_only_at (al_destination a) (with_mailboxes ?ms st)"
      if a: "a \<in> set (of_aliases st)" "al_active a" for a
    proof
      assume "send_only_at (al_destination a) (with_mailboxes ?ms st)"
      then obtain x where x: "x \<in> set ?ms" "mb_email x = al_destination a" "\<not> mb_receiveMail x"
        by (auto simp: send_only_at_def list_ex_iff)
      have old: "\<not> send_only_at (al_destination a) st" using assms(1) a by (auto simp: delivers_def list_all_iff)
      show False
      proof (cases "x = ?m")
        case True
        with x email have dest: "al_destination a = mb_email m" by simp
        with old m have "mb_receiveMail m" by (auto simp: send_only_at_def list_ex_iff)
        moreover from this True x(3) have "mu_receiveMail b = Some False"
          by (auto simp: changed_mailbox_def or_else_def split: option.splits)
        ultimately have "filter (\<lambda>a. al_destination a = mb_email m \<and> al_active a) (of_aliases st) = []" using quiet by blast
        with a dest show False by (auto simp: filter_empty_conv)
      next
        case False
        with x(1) have "x \<in> set (mailboxes st)" by (auto simp: set_update_where split: if_splits)
        with x old show False by (auto simp: send_only_at_def list_ex_iff)
      qed
    qed
    then show ?thesis by (simp add: delivers_def list_all_iff)
  qed
  show ?thesis
    using assms(1) keep by (auto simp: updateMailbox_def Let_def split: option.split)
qed

text \<open>
  C24: no alias is pointed at a send-only mailbox. Creating an alias, setting a catch-all and changing
  a mailbox keep the rule that every active alias delivers to an address that accepts mail.
\<close>

theorem aliases_deliver:
  assumes "delivers st" and "dir_ok st" and "m \<in> set (mailboxes st)"
  shows "delivers (snd (createAlias i d l x now st)) \<and> delivers (snd (setCatchAll i d y now st)) \<and>
    delivers (snd (updateMailbox le hash m b st))"
  using assms by (simp add: delivers_createAlias delivers_setCatchAll delivers_updateMailbox)

subsection \<open>Removing a domain\<close>

text \<open>
  C25: a removed domain leaves nothing behind. After a successful removal the domain, its mailboxes,
  its aliases and the sessions of its mailboxes are gone, everything else is as before, and the map
  of DKIM selectors lists exactly the remaining active domains.
\<close>

theorem domain_removed:
  assumes "removeDomain c i now st = (Inr r, st')"
  shows "domains st' = filter (\<lambda>d. dom_id d \<noteq> i) (domains st) \<and>
    mailboxes st' = filter (\<lambda>m. mb_domainId m \<noteq> i) (mailboxes st) \<and>
    of_aliases st' = filter (\<lambda>a. al_domainId a \<noteq> i) (of_aliases st) \<and>
    w_sessions (of_web st') =
      filter (\<lambda>s. se_mailboxId s \<notin> set (map mb_id (filter (\<lambda>m. mb_domainId m = i) (mailboxes st)))) (w_sessions (of_web st)) \<and>
    of_selectors st' = Some (selector_map (filter dom_active (domains st')))"
proof (cases "requireDomain i st")
  case (Inr d)
  have i: "dom_id d = i" using requireDomain_Inr [OF Inr] by simp
  obtain st1 where d: "deleteDomain d st = (Inr (), st1)" and st': "st' = audit c ''domain.delete'' (Some (dom_name d)) [] now st1"
    using assms Inr by (auto simp: removeDomain_def split: prod.splits sum.splits)
  have st1: "st1 = removeDomainKey d (destroy_domain d st)"
    using d by (auto simp: deleteDomain_def Let_def split: if_splits)
  have sel: "of_selectors st' = Some (selector_map (filter dom_active (domains st')))"
    unfolding st' st1 by (simp add: audit_def removeDomainKey_def syncSelectorMap_def)
  have "of_web st' = of_web (destroy_domain d st)" "of_aliases st' = of_aliases (destroy_domain d st)"
    unfolding st' st1 by simp_all
  with sel i show ?thesis by simp
qed (use assms in \<open>simp add: removeDomain_def\<close>)

subsection \<open>Examples\<close>

definition ex_domain :: "string \<Rightarrow> string \<Rightarrow> domain_row" where
  "ex_domain i n = \<lparr>dom_id = i, dom_name = n, dom_active = True, dom_dkimSelector = ''mail'',
     dom_dkimPrivateKeyPem = ''pem'', dom_dkimPublicKeyB64 = ''b64'', dom_createdAt = 0\<rparr>"

definition ex_box :: "string \<Rightarrow> bool \<Rightarrow> bool \<Rightarrow> mailbox_row" where
  "ex_box l admin receives = \<lparr>mb_id = l, mb_domainId = ''d1'', mb_localPart = l, mb_email = l @ ''@a.org'',
     mb_passwordHash = [], mb_displayName = l, mb_signature = None, mb_quotaBytes = 0, mb_isAdmin = admin,
     mb_active = True, mb_receiveMail = receives, mb_remoteContentAllow = [], mb_createdAt = 0\<rparr>"

definition ex_alias :: alias_row where
  "ex_alias = \<lparr>al_id = ''x1'', al_domainId = ''d1'', al_source = ''info@a.org'', al_destination = ''noreply@a.org'',
     al_active = False, al_createdAt = 0\<rparr>"

definition ex_office :: office where
  "ex_office = \<lparr>of_web = \<lparr>w_sessions = [], w_mailboxes = [ex_box ''ann'' True True, ex_box ''noreply'' False False],
       w_domains = [ex_domain ''d1'' ''a.org'', ex_domain ''d2'' ''b.org''], w_disabled = None,
       w_jar = \<lparr>ck_session = None, ck_accounts = None\<rparr>\<rparr>,
     of_aliases = [ex_alias], of_contacts = [], of_recent = [], of_keys = Map.empty, of_selectors = None,
     of_audit = [], of_nextAudit = 1\<rparr>"

definition ex_actor :: actor where
  "ex_actor = \<lparr>ac_user = Some (ex_box ''ann'' True True), ac_clientIp = Some ''10.0.0.1''\<rparr>"

lemma ex_office_ok: "dir_ok ex_office" "has_admin ex_office" "delivers ex_office"
  by (simp_all add: dir_ok_def keys_ok_def has_admin_def delivers_def send_only_at_def live_admin_def
      ex_office_def ex_domain_def ex_box_def ex_alias_def dom_key_def mb_key_def al_key_def)

lemma ex_run: "office_run ex_office (snd (removeDomain ex_actor ''d1'' 5 (snd (removeMailbox ex_actor ''noreply'' 5 ex_office))))"
proof -
  have "office_step ex_office (snd (removeMailbox ex_actor ''noreply'' 5 ex_office))" by (rule step_removeMailbox)
  moreover have "office_step (snd (removeMailbox ex_actor ''noreply'' 5 ex_office))
      (snd (removeDomain ex_actor ''d1'' 5 (snd (removeMailbox ex_actor ''noreply'' 5 ex_office))))" by (rule step_removeDomain)
  ultimately show ?thesis by (meson rtranclp.rtrancl_into_rtrancl r_into_rtranclp)
qed


theorem admin_remains_witness:
  "has_admin (snd (removeDomain ex_actor ''d1'' 5 (snd (removeMailbox ex_actor ''noreply'' 5 ex_office))))"
  by (rule admin_remains [OF ex_run ex_office_ok(1,2)])

theorem aliases_deliver_witness:
  "delivers (snd (createAlias ''x2'' (ex_domain ''d1'' ''a.org'') ''sales'' ''ann@a.org'' 5 ex_office))"
proof -
  have "ex_box ''ann'' True True \<in> set (mailboxes ex_office)" by (simp add: ex_office_def)
  from aliases_deliver [OF ex_office_ok(3,1) this] show ?thesis by blast
qed

theorem domain_removed_witness:
  "domains (snd (removeDomain ex_actor ''d2'' 5 ex_office)) = [ex_domain ''d1'' ''a.org'']"
proof -
  have "fst (removeDomain ex_actor ''d2'' 5 ex_office) = Inr (200, ())" by code_simp
  then have "removeDomain ex_actor ''d2'' 5 ex_office = (Inr (200, ()), snd (removeDomain ex_actor ''d2'' 5 ex_office))"
    by (metis prod.collapse)
  from domain_removed [OF this] show ?thesis by (simp add: ex_office_def ex_domain_def)
qed

text \<open>
  What the handlers allow although the service refuses it elsewhere: an inactive alias of a
  send-only mailbox can be switched on, a send-only mailbox can be created under an address an alias
  points at, and the domain of the only administrator can be disabled, after which no administrator
  can sign in.
\<close>

theorem patchAlias_dead_alias:
  "dir_ok ex_office \<and> delivers ex_office \<and>
   \<not> delivers (snd (patchAlias ex_actor ''x1'' \<lparr>alu_destination = None, alu_active = Some True\<rparr> 5 ex_office))"
  using ex_office_ok by (auto simp: delivers_def send_only_at_def patchAlias_def find_alias_def or_else_def
      ex_office_def ex_alias_def ex_box_def Let_def audit_def update_where_def)

definition able_admin :: "office \<Rightarrow> bool" where
  "able_admin st = list_ex (\<lambda>m. live_admin m \<and> list_ex (\<lambda>d. dom_id d = mb_domainId m \<and> dom_active d) (domains st)) (mailboxes st)"

theorem patchDomain_locks_out:
  "able_admin ex_office \<and>
   \<not> able_admin (snd (patchDomain ex_actor ''x9'' ''d1'' \<lparr>du_active = Some False, du_catchAll = None\<rparr> 5 ex_office))"
  by code_simp

text \<open>A refused catch-all leaves the other half of the update in place, and unrecorded.\<close>

theorem patchDomain_half_done:
  "let (r, st') = patchDomain ex_actor ''x9'' ''d1'' \<lparr>du_active = Some False, du_catchAll = Some (Some ''noreply@a.org'')\<rparr> 5 ex_office
   in r = Inl (badRequest ''noreply@a.org is a send-only mailbox and does not receive mail'') \<and>
      map dom_active (domains st') = [False, True] \<and> of_audit st' = []"
  by code_simp

end
