(* ===== verification/Password.thy ===== *)
theory Password
  imports JsRegex "HOL-Library.Word"
begin

text \<open>
  Password hashes, \<open>apps/server/src/auth/password.ts\<close>. bcrypt and SHA-512 are parameters, the
  record \<open>crypt\<close>; the SHA-crypt construction around SHA-512 is the code's own and written out.
  \<open>cr_laws\<close> is what the code relies on of bcrypt: a fresh hash starts with \<open>$2\<close> and verifies.
  Bytes are numbers below 256.
\<close>

record crypt =
  cr_hash :: "string \<Rightarrow> string"
  cr_verify :: "string \<Rightarrow> string \<Rightarrow> bool option" \<comment> \<open>None when it throws\<close>
  cr_sha512 :: "nat list \<Rightarrow> nat list"

definition cr_laws :: "crypt \<Rightarrow> bool" where
  "cr_laws K \<longleftrightarrow> (\<forall>p. starts_with (cr_hash K p) ''$2'' \<and> cr_verify K p (cr_hash K p) = Some True)"

definition PREFIX :: string where "PREFIX = ''{BLF-CRYPT}''"

definition SHA512_PREFIX :: string where "SHA512_PREFIX = ''{SHA512-CRYPT}''"

definition hashPassword :: "crypt \<Rightarrow> string \<Rightarrow> string" where
  "hashPassword K password = PREFIX @ cr_hash K password"

definition bare_hash :: "string \<Rightarrow> string" where
  "bare_hash stored = (if starts_with stored PREFIX then drop (length PREFIX) stored else stored)"

definition needsRehash :: "string \<Rightarrow> bool" where
  "needsRehash stored \<longleftrightarrow> \<not> starts_with (bare_hash stored) ''$2''"

subsection \<open>SHA512-CRYPT\<close>

definition ITOA64 :: string where
  "ITOA64 = ''./0123456789ABCDEFGHIJKLMNOPQRSTUVWXYZabcdefghijklmnopqrstuvwxyz''"

definition SHA512_ORDER :: "(nat \<times> nat \<times> nat) list" where
  "SHA512_ORDER = [
     (0, 21, 42), (22, 43, 1), (44, 2, 23), (3, 24, 45), (25, 46, 4), (47, 5, 26), (6, 27, 48),
     (28, 49, 7), (50, 8, 29), (9, 30, 51), (31, 52, 10), (53, 11, 32), (12, 33, 54), (34, 55, 13),
     (56, 14, 35), (15, 36, 57), (37, 58, 16), (59, 17, 38), (18, 39, 60), (40, 61, 19), (62, 20, 41)]"

definition utf8 :: "string \<Rightarrow> nat list" where
  \<comment> \<open>\<open>Buffer.from(s, "utf8")\<close> on code units below 256\<close>
  "utf8 s = concat (map (\<lambda>c. if code_unit c < 128 then [code_unit c] else [192 + code_unit c div 64, 128 + code_unit c mod 64]) s)"

definition stretch :: "nat list \<Rightarrow> nat \<Rightarrow> nat list" where
  \<comment> \<open>\<open>block\<close>, which is not empty, repeated until it is \<open>len\<close> bytes long\<close>
  "stretch block len = take len (concat (replicate (len div length block + 1) block))"

fun length_bits :: "nat list \<Rightarrow> nat list \<Rightarrow> nat \<Rightarrow> nat list" where
  "length_bits b p n = (if n = 0 then [] else (if n mod 2 = 1 then b else p) @ length_bits b p (n div 2))"

declare length_bits.simps [simp del]

definition crypt_round :: "(nat list \<Rightarrow> nat list) \<Rightarrow> nat list \<Rightarrow> nat list \<Rightarrow> nat \<Rightarrow> nat list \<Rightarrow> nat list" where
  "crypt_round sha pBytes sBytes i c = sha (
     (if i mod 2 = 1 then pBytes else c) @
     (if i mod 3 \<noteq> 0 then sBytes else []) @
     (if i mod 7 \<noteq> 0 then pBytes else []) @
     (if i mod 2 = 1 then c else pBytes))"

fun encode_chars :: "nat \<Rightarrow> nat \<Rightarrow> string" where
  "encode_chars w 0 = []"
| "encode_chars w (Suc n) = ITOA64 ! (w mod 64) # encode_chars (w div 64) n"

definition encode :: "nat \<Rightarrow> nat \<Rightarrow> nat \<Rightarrow> nat \<Rightarrow> string" where
  "encode b2 b1 b0 chars = encode_chars (b2 * 65536 + b1 * 256 + b0) chars"

definition sha512Crypt :: "(nat list \<Rightarrow> nat list) \<Rightarrow> string \<Rightarrow> string \<Rightarrow> nat option \<Rightarrow> string" where
  "sha512Crypt sha password saltStr rounds =
     (let p = utf8 password; s = utf8 saltStr;
          b = sha (p @ s @ p);
          c0 = sha (p @ s @ stretch b (length p) @ length_bits b p (length p));
          pBytes = stretch (sha (concat (replicate (length p) p))) (length p);
          sBytes = stretch (sha (concat (replicate (16 + c0 ! 0) s))) (length s);
          c = fold (crypt_round sha pBytes sBytes) [0..<(case rounds of None \<Rightarrow> 5000 | Some r \<Rightarrow> r)] c0;
          out = concat (map (\<lambda>(x, y, z). encode (c ! x) (c ! y) (c ! z) 4) SHA512_ORDER) @ encode 0 0 (c ! 63) 2
      in ''$6$'' @ (case rounds of None \<Rightarrow> [] | Some r \<Rightarrow> ''rounds='' @ show_nat r @ ''$'') @ saltStr @ ''$'' @ out)"

definition sha512_re :: re where
  "sha512_re = Seqs [AtStart, Lit ''$6$'',
     Opt (Seqs [Lit ''rounds='', Cap 1 Digits, Lit ''$'']),
     Cap 2 (Between 0 16 (NotIn ''$'')), Lit ''$'',
     Times 86 (Chr (\<lambda>c. c \<in> set ''./'' \<or> js_digit c \<or> re_range (CHR ''A'') (CHR ''Z'') c \<or> re_range (CHR ''a'') (CHR ''z'') c)),
     AtEnd]"

definition verifySha512Crypt :: "(nat list \<Rightarrow> nat list) \<Rightarrow> string \<Rightarrow> string \<Rightarrow> bool" where
  "verifySha512Crypt sha password stored = (case re_exec sha512_re stored of
     None \<Rightarrow> False
   | Some m \<Rightarrow>
       (let rounds = map_option (\<lambda>d. min (max (nat_of_digits d) 1000) 999999999) (map_of m 1);
            salt = (case map_of m 2 of None \<Rightarrow> [] | Some x \<Rightarrow> x)
        in sha512Crypt sha password salt rounds = stored))"

definition verifyPassword :: "crypt \<Rightarrow> string \<Rightarrow> string \<Rightarrow> bool" where
  "verifyPassword K password stored =
     (if starts_with stored SHA512_PREFIX
      then verifySha512Crypt (cr_sha512 K) password (drop (length SHA512_PREFIX) stored)
      else if starts_with stored ''$6$'' then verifySha512Crypt (cr_sha512 K) password stored
      else (let raw = bare_hash stored
            in if \<not> starts_with raw ''$2'' then False
               else (case cr_verify K password raw of None \<Rightarrow> False | Some b \<Rightarrow> b)))"

subsection \<open>Facts\<close>

lemma bare_hash_hashPassword [simp]: "bare_hash (hashPassword K p) = cr_hash K p"
  by (simp add: bare_hash_def hashPassword_def starts_with_def)

lemma new_hash:
  assumes "cr_laws K"
  shows "verifyPassword K p (hashPassword K p)" and "\<not> needsRehash (hashPassword K p)"
proof -
  have "\<not> starts_with (hashPassword K p) SHA512_PREFIX" "\<not> starts_with (hashPassword K p) ''$6$''"
    by (simp_all add: hashPassword_def PREFIX_def SHA512_PREFIX_def starts_with_def)
  with assms show "verifyPassword K p (hashPassword K p)"
    by (simp add: verifyPassword_def cr_laws_def)
  show "\<not> needsRehash (hashPassword K p)" using assms by (simp add: needsRehash_def cr_laws_def)
qed

lemma length_encode_chars [simp]: "length (encode_chars w n) = n"
  by (induction n arbitrary: w) simp_all

lemma encode_chars_digits: "w < 64 ^ n \<Longrightarrow>
    foldr (\<lambda>d a. d + 64 * a) (map (\<lambda>c. length (takeWhile (\<lambda>x. x \<noteq> c) ITOA64)) (encode_chars w n)) 0 = w"
proof (induction n arbitrary: w)
  case (Suc n)
  have pos: "length (takeWhile (\<lambda>x. x \<noteq> ITOA64 ! i) ITOA64) = i" if "i < 64" for i
  proof -
    have d: "distinct ITOA64" by (simp add: ITOA64_def)
    have l: "length ITOA64 = 64" by (simp add: ITOA64_def)
    have "takeWhile (\<lambda>x. x \<noteq> ITOA64 ! i) ITOA64 = take i ITOA64"
    proof (rule takeWhile_eq_take_P_nth)
      show "\<And>j. j < i \<Longrightarrow> j < length ITOA64 \<Longrightarrow> ITOA64 ! j \<noteq> ITOA64 ! i" using d l that by (simp add: nth_eq_iff_index_eq)
      show "i < length ITOA64 \<Longrightarrow> \<not> ITOA64 ! i \<noteq> ITOA64 ! i" by simp
    qed
    with l that show ?thesis by simp
  qed
  have "w div 64 < 64 ^ n" using Suc.prems by (simp add: less_mult_imp_div_less)
  from Suc.IH [OF this] pos [of "w mod 64"] show ?case by simp
qed simp

lemma length_sha512Crypt:
  "length (sha512Crypt sha p salt None) = 3 + length salt + 1 + 86"
  by (simp add: sha512Crypt_def Let_def encode_def SHA512_ORDER_def)

end
