(* ===== verification/Login.thy ===== *)
theory Login
  imports RateLimit AuthEvents Directory Password Contract
begin

text \<open>
  Signing in and out: \<open>apps/server/src/auth/routes.ts\<close>, the check of every request in
  \<open>http/middleware.ts\<close> and \<open>http/client-ip.ts\<close>, the senders of an account
  (\<open>send/senders.ts\<close>), the account's own settings (\<open>account/routes.ts\<close>), the admin's view
  of the sessions (\<open>admin/sessions.ts\<close>) and the clean-up of \<open>activity/retention.ts\<close>. \<open>portal\<close>
  puts the lock-outs, the sign-in log with the bans and the sessions, and the aliases together.
\<close>

subsection \<open>Requests\<close>

definition non_blank :: "string option \<Rightarrow> string option" where
  "non_blank h = (case h of None \<Rightarrow> None | Some s \<Rightarrow> if s = [] then None else Some s)"

definition clientIp :: "bool \<Rightarrow> string option \<Rightarrow> string option \<Rightarrow> string option \<Rightarrow> string" where
  \<comment> \<open>the headers \<open>x-real-ip\<close> and \<open>x-forwarded-for\<close>, and the address of the connection if it has one\<close>
  "clientIp trustProxy realIp forwardedFor remote =
     (let direct = (case remote of None \<Rightarrow> ''unknown'' | Some a \<Rightarrow> a)
      in if trustProxy
         then (case non_blank realIp of
                 Some r \<Rightarrow> js_trim r
               | None \<Rightarrow> (case non_blank forwardedFor of
                   Some f \<Rightarrow> js_trim (hd (split_on (CHR '','') f))
                 | None \<Rightarrow> direct))
         else direct)"

definition issue_text :: "string list \<times> string \<Rightarrow> string \<times> string" where
  "issue_text i = (join_with ''.'' (fst i), snd i)"

definition parseWith :: "(string list \<times> string) list + 'a \<Rightarrow> http_error + 'a" where
  \<comment> \<open>the result of \<open>safeParse\<close>: the issues with their paths, or the data\<close>
  "parseWith result = (case result of
     Inr d \<Rightarrow> Inr d
   | Inl is \<Rightarrow>
       (let issues = map issue_text is
        in Inl (HttpError 400 ''bad_request''
          (case issues of
             [] \<Rightarrow> ''Validation failed''
           | (path, msg) # _ \<Rightarrow> (if path = [] then [] else path @ '': '') @ msg @
               (if length issues > 1 then '' (and '' @ show_nat (length issues - 1) @ '' more)'' else []))
          (Issues issues))))"

definition parseJson :: "'b option \<Rightarrow> ('b \<Rightarrow> (string list \<times> string) list + 'a) \<Rightarrow> http_error + 'a" where
  \<comment> \<open>\<open>body\<close>: None when it is not JSON\<close>
  "parseJson body safeParse = (case body of
     None \<Rightarrow> Inl (badRequest ''Request body must be JSON'')
   | Some b \<Rightarrow> parseWith (safeParse b))"

definition requireAuth ::
    "cookies \<Rightarrow> string option \<Rightarrow> time \<Rightarrow> web \<Rightarrow> (http_error + mailbox_row \<times> string) \<times> web" where
  \<comment> \<open>\<open>expected\<close>: the header \<open>X-Account-Id\<close>; the user and the session id of the request\<close>
  "requireAuth rq expected now w =
     (case loadSession rq now w of
        (None, w') \<Rightarrow> (Inl (unauthorized ''Authentication required''), w')
      | (Some (se, u), w') \<Rightarrow>
          (case non_blank expected of
             Some i \<Rightarrow> if i \<noteq> mb_id u
               then (Inl (HttpError 409 ''account_changed'' ''You switched to another account in a different tab'' NoDetails), w')
               else (Inr (u, se_id se), w')
           | None \<Rightarrow> (Inr (u, se_id se), w')))"

subsection \<open>The account as the client sees it\<close>

record me =
  me_id :: string
  me_email :: string
  me_displayName :: string
  me_domain :: string
  me_isAdmin :: bool
  me_signature :: "string option"
  me_quotaBytes :: int
  me_sendAs :: "string list"
  me_remoteContentAllow :: "string list"

definition allowedSenders :: "mailbox_row \<Rightarrow> alias_row list \<Rightarrow> string list" where
  "allowedSenders u aliases = mb_email u # map al_source
     (filter (\<lambda>a. al_destination a = mb_email u \<and> al_active a \<and> \<not> starts_with (al_source a) ''@'') aliases)"

definition toMe :: "mailbox_row \<Rightarrow> web \<Rightarrow> alias_row list \<Rightarrow> me" where
  "toMe u w aliases = \<lparr>
     me_id = mb_id u, me_email = mb_email u, me_displayName = mb_displayName u,
     me_domain = (case find (\<lambda>d. dom_id d = mb_domainId u) (w_domains w) of
       Some d \<Rightarrow> dom_name d
     | None \<Rightarrow> (let parts = split_on (CHR ''@'') (mb_email u) in if length parts > 1 then parts ! 1 else [])),
     me_isAdmin = mb_isAdmin u, me_signature = mb_signature u, me_quotaBytes = mb_quotaBytes u,
     me_sendAs = allowedSenders u aliases, me_remoteContentAllow = mb_remoteContentAllow u\<rparr>"

subsection \<open>Sign-in\<close>

record 's portal =
  po_store :: 's
  po_srv :: srv
  po_aliases :: "alias_row list"

abbreviation po_web :: "'s portal \<Rightarrow> web" where "po_web p \<equiv> sv_web (po_srv p)"

definition set_web :: "web \<Rightarrow> 's portal \<Rightarrow> 's portal" where
  "set_web w p = p\<lparr>po_srv := (po_srv p)\<lparr>sv_web := w\<rparr>\<rparr>"

record login_request =
  lr_email :: string
  lr_password :: string
  lr_ip :: string
  lr_userAgent :: "string option"
  lr_cookies :: cookies

definition web_attempt ::
    "login_request \<Rightarrow> bool \<Rightarrow> auth_failure_reason option \<Rightarrow> string option \<Rightarrow> auth_attempt" where
  "web_attempt r success reason mailboxId = \<lparr>at_source = SrcWeb, at_username = Some (lr_email r), at_ip = Some (lr_ip r),
     at_success = success, at_reason = reason, at_detail = None, at_userAgent = lr_userAgent r, at_mailboxId = mailboxId\<rparr>"

definition record_attempt ::
    "pg_inet_ops \<Rightarrow> config \<Rightarrow> auth_attempt \<Rightarrow> time \<Rightarrow> 's portal \<Rightarrow> 's portal" where
  "record_attempt PG C a now p = p\<lparr>po_srv := recordAuthEvent PG C a now (po_srv p)\<rparr>"

definition locked_error :: "int \<Rightarrow> http_error" where
  "locked_error secs = tooMany ''Too many failed attempts. Try again later.'' (RetryAfterSeconds secs)"

definition wrong_login :: http_error where
  "wrong_login = unauthorized ''Wrong email address or password''"

definition banned_error :: http_error where
  "banned_error = HttpError 403 ''ip_banned''
     ''Sign-in from your network is blocked after repeated failed attempts. Ask your administrator to lift the ban.'' NoDetails"

definition too_many_accounts :: http_error where
  "too_many_accounts = badRequest (''You can be signed in to at most '' @ show_nat MAX_ACCOUNTS @
     '' mailboxes at once. Sign out of one first.'')"

text \<open>After the password was accepted: the limit of accounts, the upgrade of the hash, the session.\<close>

definition login_accepted ::
    "'s redis \<Rightarrow> pg_inet_ops \<Rightarrow> config \<Rightarrow> crypt \<Rightarrow> login_request \<Rightarrow> string \<Rightarrow> mailbox_row \<Rightarrow> time \<Rightarrow> 's portal
      \<Rightarrow> (http_error + me) \<times> 's portal" where
  "login_accepted R PG C K r sid u now p0 =
     (let p1 = p0\<lparr>po_store := clearFailures R KUser (lr_email r) now (clearFailures R KIp (lr_ip r) now (po_store p0))\<rparr>;
          (signedIn, w) = loadAccounts (lr_cookies r) now (po_web p1);
          p2 = set_web w p1
      in if length signedIn \<ge> MAX_ACCOUNTS \<and> \<not> list_ex (\<lambda>a. mb_id (snd a) = mb_id u) signedIn
         then (Inl too_many_accounts, p2)
         else (let u' = (if needsRehash (mb_passwordHash u) then u\<lparr>mb_passwordHash := hashPassword K (lr_password r)\<rparr> else u);
                   w1 = (if needsRehash (mb_passwordHash u)
                         then w\<lparr>w_mailboxes := update_where (\<lambda>m. mb_id m = mb_id u) (\<lambda>m. m\<lparr>mb_passwordHash := mb_passwordHash u'\<rparr>) (w_mailboxes w)\<rparr> else w);
                   w2 = createSession (lr_cookies r) sid (mb_id u) (lr_ip r) (lr_userAgent r) now w1;
                   p3 = record_attempt PG C (web_attempt r True None (Some (mb_id u))) now (set_web w2 p2)
               in (Inr (toMe u' (po_web p3) (po_aliases p3)), p3)))"

definition login_refused ::
    "'s redis \<Rightarrow> pg_inet_ops \<Rightarrow> config \<Rightarrow> login_request \<Rightarrow> auth_failure_reason \<Rightarrow> string option \<Rightarrow> time \<Rightarrow> 's portal
      \<Rightarrow> (http_error + me) \<times> 's portal" where
  "login_refused R PG C r reason mailboxId now p0 =
     (let p1 = record_attempt PG C (web_attempt r False (Some reason) mailboxId) now p0;
          (a, s1) = recordFailure R KIp (lr_ip r) now (po_store p1);
          (b, s2) = recordFailure R KUser (lr_email r) now s1;
          locked = max a b
      in (Inl (if locked \<noteq> 0 then locked_error locked else wrong_login), p1\<lparr>po_store := s2\<rparr>))"

definition login ::
    "'s redis \<Rightarrow> pg_inet_ops \<Rightarrow> config \<Rightarrow> crypt \<Rightarrow> login_request \<Rightarrow> string \<Rightarrow> time \<Rightarrow> 's portal
      \<Rightarrow> (http_error + me) \<times> 's portal" where
  "login R PG C K r sid now p0 =
     (let (banned, b) = isBanned PG (Some (lr_ip r)) now (sv_bans (po_srv p0));
          p1 = p0\<lparr>po_srv := (po_srv p0)\<lparr>sv_bans := b\<rparr>\<rparr>
      in if banned
         then (let p2 = record_attempt PG C (web_attempt r False (Some Banned) None) now p1
               in (Inl banned_error, p2\<lparr>po_srv := (po_srv p2)\<lparr>sv_bans := recordBanHit PG (lr_ip r) now (sv_bans (po_srv p2))\<rparr>\<rparr>))
         else (let lock = max (isLocked R KIp (lr_ip r) now (po_store p1)) (isLocked R KUser (lr_email r) now (po_store p1))
      in if lock > 0
         then (Inl (locked_error lock), record_attempt PG C (web_attempt r False (Some Locked) None) now p1)
         else (let user = find_mailbox (lr_email r) (po_web p1);
                   (usable, w) = (case user of None \<Rightarrow> (False, po_web p1) | Some u \<Rightarrow> canSignIn u now (po_web p1));
                   p2 = set_web w p1
      in (case user of
            Some u \<Rightarrow>
              if usable \<and> verifyPassword K (lr_password r) (mb_passwordHash u)
              then login_accepted R PG C K r sid u now p2
              else login_refused R PG C r (if usable then WrongPassword else Disabled) (Some (mb_id u)) now p2
          | None \<Rightarrow> login_refused R PG C r UnknownUser None now p2))))"

subsection \<open>Signing out, switching, the accounts of a browser\<close>

definition logout_which :: "bool option \<Rightarrow> string option \<Rightarrow> which" where
  \<comment> \<open>what \<open>destroySession\<close> makes of the parsed body\<close>
  "logout_which all_opt mailboxId =
     (if all_opt = Some True then Everyone
      else (case non_blank mailboxId of Some m \<Rightarrow> OneMailbox m | None \<Rightarrow> ActiveOnly))"

definition logout :: "cookies \<Rightarrow> which \<Rightarrow> time \<Rightarrow> 's portal \<Rightarrow> me option \<times> 's portal" where
  "logout rq w now p =
     (let (active, w') = destroySession rq w now (po_web p); p' = set_web w' p
      in (map_option (\<lambda>u. toMe u w' (po_aliases p)) active, p'))"

record account_entry =
  an_id :: string
  an_email :: string
  an_displayName :: string
  an_active :: bool
  an_unread :: "nat option"

definition getAccounts ::
    "(mailbox_row \<Rightarrow> nat option) \<Rightarrow> cookies \<Rightarrow> time \<Rightarrow> web \<Rightarrow> account_entry list \<times> web" where
  \<comment> \<open>\<open>unread\<close>: the unseen messages of the mailbox's inbox, None when the IMAP server does not answer\<close>
  "getAccounts unread rq now w =
     (let (accounts, w') = loadAccounts rq now w;
          active = find (\<lambda>a. Some (se_id (fst a)) = ck_session rq) accounts
      in (map (\<lambda>(se, u). \<lparr>an_id = mb_id u, an_email = mb_email u, an_displayName = mb_displayName u,
            an_active = (Some (mb_id u) = map_option (\<lambda>a. mb_id (snd a)) active), an_unread = unread u\<rparr>) accounts, w'))"

definition switchAccount :: "cookies \<Rightarrow> string \<Rightarrow> time \<Rightarrow> 's portal \<Rightarrow> (http_error + me) \<times> 's portal" where
  "switchAccount rq mailboxId now p =
     (let (user, w) = switchSession rq mailboxId now (po_web p); p' = set_web w p
      in (case user of
            None \<Rightarrow> (Inl (notFound ''That mailbox is not signed in on this browser any more''), p')
          | Some u \<Rightarrow> (Inr (toMe u w (po_aliases p)), p')))"

definition getMe :: "cookies \<Rightarrow> string option \<Rightarrow> time \<Rightarrow> 's portal \<Rightarrow> (http_error + me) \<times> 's portal" where
  "getMe rq expected now p = (case requireAuth rq expected now (po_web p) of
     (Inl e, w) \<Rightarrow> (Inl e, set_web w p)
   | (Inr (u, _), w) \<Rightarrow> (Inr (toMe u w (po_aliases p)), set_web w p))"

subsection \<open>The account's own settings\<close>

text \<open>The handlers run for the user of the request, \<open>u\<close>, with the session \<open>sid\<close> (\<open>requireAuth\<close>).\<close>

definition save_mailbox :: "mailbox_row \<Rightarrow> office \<Rightarrow> office" where
  "save_mailbox u st = st\<lparr>of_web := (of_web st)\<lparr>w_mailboxes := update_where (\<lambda>m. mb_id m = mb_id u) (\<lambda>_. u) (mailboxes st)\<rparr>\<rparr>"

abbreviation office_me :: "mailbox_row \<Rightarrow> office \<Rightarrow> me" where
  "office_me u st \<equiv> toMe u (of_web st) (of_aliases st)"

definition patchProfile ::
    "mailbox_row \<Rightarrow> string option \<Rightarrow> string option option \<Rightarrow> office \<Rightarrow> me \<times> office" where
  \<comment> \<open>a signature of null clears it, an absent one leaves it\<close>
  "patchProfile u displayName signature st =
     (let u1 = (case displayName of None \<Rightarrow> u | Some d \<Rightarrow> u\<lparr>mb_displayName := d\<rparr>);
          u2 = (case signature of None \<Rightarrow> u1 | Some s \<Rightarrow> u1\<lparr>mb_signature := s\<rparr>);
          st' = save_mailbox u2 st
      in (office_me u2 st', st'))"

definition postPassword ::
    "crypt \<Rightarrow> mailbox_row \<Rightarrow> string \<Rightarrow> string \<Rightarrow> string \<Rightarrow> string \<Rightarrow> time \<Rightarrow> office \<Rightarrow> (http_error + unit) \<times> office" where
  "postPassword K u sid ip current new now st =
     (if \<not> verifyPassword K current (mb_passwordHash u) then (Inl (unauthorized ''Current password is wrong''), st)
      else (let u' = u\<lparr>mb_passwordHash := hashPassword K new\<rparr>;
                st1 = save_mailbox u' st;
                st2 = st1\<lparr>of_web := destroyOtherSessions (mb_id u) sid (of_web st1)\<rparr>
            in (Inr (), audit \<lparr>ac_user = Some u', ac_clientIp = Some ip\<rparr> ''account.password_change'' (Some (mb_email u)) [] now st2)))"

definition MAX_REMOTE_CONTENT_ALLOW :: nat where "MAX_REMOTE_CONTENT_ALLOW = 1000"

definition reload :: "mailbox_row \<Rightarrow> office \<Rightarrow> mailbox_row" where
  "reload u st = (case find (\<lambda>m. mb_id m = mb_id u) (mailboxes st) of None \<Rightarrow> u | Some m \<Rightarrow> m)"

definition update_allow :: "string \<Rightarrow> (mailbox_row \<Rightarrow> bool) \<Rightarrow> (string list \<Rightarrow> string list) \<Rightarrow> office \<Rightarrow> office" where
  "update_allow i p f st = st\<lparr>of_web := (of_web st)\<lparr>w_mailboxes :=
     update_where (\<lambda>m. mb_id m = i \<and> p m) (\<lambda>m. m\<lparr>mb_remoteContentAllow := f (mb_remoteContentAllow m)\<rparr>) (mailboxes st)\<rparr>\<rparr>"

definition putRemoteContent :: "mailbox_row \<Rightarrow> string \<Rightarrow> office \<Rightarrow> (http_error + me) \<times> office" where
  "putRemoteContent u sender st =
     (let st' = update_allow (mb_id u)
            (\<lambda>m. sender \<notin> set (mb_remoteContentAllow m) \<and> length (mb_remoteContentAllow m) < MAX_REMOTE_CONTENT_ALLOW)
            (\<lambda>xs. xs @ [sender]) st;
          u' = reload u st'
      in if sender \<notin> set (mb_remoteContentAllow u')
         then (Inl (badRequest (''At most '' @ show_nat MAX_REMOTE_CONTENT_ALLOW @ '' allowed senders'')), st')
         else (Inr (office_me u' st'), st'))"

definition deleteRemoteContent :: "mailbox_row \<Rightarrow> string \<Rightarrow> office \<Rightarrow> me \<times> office" where
  "deleteRemoteContent u param st =
     (let sender = js_lower (js_trim param);
          st' = update_allow (mb_id u) (\<lambda>_. True) (filter (\<lambda>x. x \<noteq> sender)) st
      in (office_me (reload u st') st', st'))"

subsection \<open>The admin's view of the sessions\<close>

record web_session =
  ws_id :: string
  ws_mailboxId :: string
  ws_email :: string
  ws_ip :: "string option"
  ws_userAgent :: "string option"
  ws_createdAt :: time
  ws_expiresAt :: time
  ws_current :: bool

definition handle :: "(string \<Rightarrow> string) \<Rightarrow> string \<Rightarrow> string" where
  \<comment> \<open>\<open>sha\<close>: the SHA-256 of the text in base64url\<close>
  "handle sha sessionId = take 22 (sha sessionId)"

definition listWebSessions :: "(string \<Rightarrow> string) \<Rightarrow> string \<Rightarrow> time \<Rightarrow> web \<Rightarrow> web_session list" where
  "listWebSessions sha current now w =
     map (\<lambda>s. \<lparr>ws_id = handle sha (se_id s), ws_mailboxId = se_mailboxId s,
         ws_email = (case find (\<lambda>m. mb_id m = se_mailboxId s) (w_mailboxes w) of None \<Rightarrow> [] | Some m \<Rightarrow> mb_email m),
         ws_ip = se_ip s, ws_userAgent = se_userAgent s, ws_createdAt = se_createdAt s, ws_expiresAt = se_expiresAt s,
         ws_current = (se_id s = current)\<rparr>)
       (order_by (\<ge>) se_createdAt (filter (\<lambda>s. se_expiresAt s > now) (w_sessions w)))"

definition revokeWebSession :: "(string \<Rightarrow> string) \<Rightarrow> string \<Rightarrow> web \<Rightarrow> (http_error + string) \<times> web" where
  \<comment> \<open>the email of the session's owner, for the audit log\<close>
  "revokeWebSession sha handleId w = (case find (\<lambda>s. handle sha (se_id s) = handleId) (w_sessions w) of
     None \<Rightarrow> (Inl (notFound ''Session not found''), w)
   | Some m \<Rightarrow> (Inr (case find (\<lambda>x. mb_id x = se_mailboxId m) (w_mailboxes w) of None \<Rightarrow> se_mailboxId m | Some u \<Rightarrow> mb_email u),
       w\<lparr>w_sessions := destroy_where (\<lambda>s. se_id s = se_id m) (w_sessions w)\<rparr>))"

subsection \<open>Retention\<close>

definition before :: "time option \<Rightarrow> time \<Rightarrow> bool" where
  "before t cutoff = (case t of None \<Rightarrow> False | Some x \<Rightarrow> x < cutoff)"

definition purgeOldActivity ::
    "config \<Rightarrow> time \<Rightarrow> auth_event_row list \<Rightarrow> mail_log_row list \<Rightarrow> audit_row list \<Rightarrow> ban_row list
      \<Rightarrow> auth_event_row list \<times> mail_log_row list \<times> audit_row list \<times> ban_row list" where
  "purgeOldActivity C now auth mail audits bans =
     (let day = 86400000;
          cutoff = now - int (cfg_ACTIVITY_RETENTION_DAYS C) * day;
          auditCutoff = now - int (max (cfg_ACTIVITY_RETENTION_DAYS C) 365) * day
      in (destroy_where (\<lambda>r. ae_createdAt r < cutoff) auth,
          destroy_where (\<lambda>r. ml_updatedAt r < cutoff) mail,
          destroy_where (\<lambda>r. au_createdAt r < auditCutoff) audits,
          destroy_where (\<lambda>b. before (ib_liftedAt b) auditCutoff \<or> ib_liftedAt b = None \<and> before (ib_expiresAt b) auditCutoff) bans))"

subsection \<open>What a sign-in does\<close>

lemma recordAuthEvent_web [simp]: "sv_web (recordAuthEvent PG C a now sv) = sv_web sv"
  by (simp add: recordAuthEvent_def writeAuthEvent_def Let_def split: option.split)

lemma portal_simps [simp]:
  "po_web (record_attempt PG C a now p) = po_web p" "po_store (record_attempt PG C a now p) = po_store p"
  "po_aliases (record_attempt PG C a now p) = po_aliases p"
  "po_web (set_web w p) = w" "po_store (set_web w p) = po_store p" "po_aliases (set_web w p) = po_aliases p"
  "sv_bans (po_srv (set_web w p)) = sv_bans (po_srv p)"
  by (simp_all add: record_attempt_def set_web_def)

abbreviation lock_of :: "'s redis \<Rightarrow> login_request \<Rightarrow> time \<Rightarrow> 's \<Rightarrow> int" where
  "lock_of R r now s \<equiv> max (isLocked R KIp (lr_ip r) now s) (isLocked R KUser (lr_email r) now s)"

abbreviation net_banned :: "pg_inet_ops \<Rightarrow> login_request \<Rightarrow> time \<Rightarrow> 's portal \<Rightarrow> bool" where
  "net_banned PG r now p \<equiv> fst (isBanned PG (Some (lr_ip r)) now (sv_bans (po_srv p)))"

definition credentials_ok :: "crypt \<Rightarrow> login_request \<Rightarrow> time \<Rightarrow> web \<Rightarrow> mailbox_row \<Rightarrow> bool" where
  "credentials_ok K r now w u \<longleftrightarrow> find_mailbox (lr_email r) w = Some u \<and> fst (canSignIn u now w) \<and>
     verifyPassword K (lr_password r) (mb_passwordHash u)"

lemma login_outcomes:
  fixes p :: "'s portal"
  obtains (banned) p' where "net_banned PG r now p" "login R PG C K r sid now p = (Inl banned_error, p')" "po_web p' = po_web p"
  | (locked) p' where "\<not> net_banned PG r now p" "lock_of R r now (po_store p) > 0"
      "login R PG C K r sid now p = (Inl (locked_error (lock_of R r now (po_store p))), p')" "po_web p' = po_web p"
  | (refused) q reason m where "\<not> net_banned PG r now p" "lock_of R r now (po_store p) \<le> 0"
      "\<nexists>u. credentials_ok K r now (po_web p) u"
      "login R PG C K r sid now p = login_refused R PG C r reason m now q" "po_store q = po_store p"
      "po_web q = po_web p \<or> (\<exists>u. po_web q = snd (canSignIn u now (po_web p)))"
  | (accepted) q u where "\<not> net_banned PG r now p" "lock_of R r now (po_store p) \<le> 0"
      "credentials_ok K r now (po_web p) u" "login R PG C K r sid now p = login_accepted R PG C K r sid u now q"
      "po_store q = po_store p" "po_web q = snd (canSignIn u now (po_web p))"
proof -
  let ?p1 = "p\<lparr>po_srv := (po_srv p)\<lparr>sv_bans := snd (isBanned PG (Some (lr_ip r)) now (sv_bans (po_srv p)))\<rparr>\<rparr>"
  show thesis
  proof (cases "net_banned PG r now p")
    case True
    then show ?thesis using banned [OF True, of "snd (login R PG C K r sid now p)"]
      by (simp add: login_def record_attempt_def Let_def case_prod_beta)
  next
    case nb: False
    show ?thesis
    proof (cases "lock_of R r now (po_store p) > 0")
      case True
      then show ?thesis using nb locked [OF nb True, of "snd (login R PG C K r sid now p)"]
        by (simp add: login_def Let_def case_prod_beta)
    next
      case False
      show ?thesis
      proof (cases "find_mailbox (lr_email r) (po_web p)")
        case None
        have "login R PG C K r sid now p = login_refused R PG C r UnknownUser None now (set_web (po_web p) ?p1)"
          using nb False None by (simp add: login_def Let_def case_prod_beta)
        with nb False None show ?thesis 
          by (intro refused [of UnknownUser None "set_web (po_web p) ?p1"]) (auto simp: credentials_ok_def)
      next
        case (Some u)
        let ?q = "set_web (snd (canSignIn u now (po_web p))) ?p1"
        show ?thesis
        proof (cases "credentials_ok K r now (po_web p) u")
          case True
          then have "login R PG C K r sid now p = login_accepted R PG C K r sid u now ?q"
            using nb False Some by (simp add: login_def Let_def case_prod_beta credentials_ok_def)
          with nb False True show ?thesis by (intro accepted [of u ?q]) auto
        next
          case no: False
          then have "login R PG C K r sid now p =
              login_refused R PG C r (if fst (canSignIn u now (po_web p)) then WrongPassword else Disabled) (Some (mb_id u)) now ?q"
            using nb False Some by (auto simp: login_def Let_def case_prod_beta credentials_ok_def)
          moreover have "\<nexists>v. credentials_ok K r now (po_web p) v" using no Some by (auto simp: credentials_ok_def)
          ultimately show ?thesis using nb False
            by (intro refused [of "if fst (canSignIn u now (po_web p)) then WrongPassword else Disabled" "Some (mb_id u)" ?q]) auto
        qed
      qed
    qed
  qed
qed

text \<open>What a refusal answers and does to the counters depends on the store, the address and the username only.\<close>

definition refusal :: "'s redis \<Rightarrow> login_request \<Rightarrow> time \<Rightarrow> 's \<Rightarrow> http_error \<times> 's" where
  "refusal R r now s =
     (let (a, s1) = recordFailure R KIp (lr_ip r) now s; (b, s2) = recordFailure R KUser (lr_email r) now s1
      in (if max a b \<noteq> 0 then locked_error (max a b) else wrong_login, s2))"

lemma login_refused_result:
  "fst (login_refused R PG C r reason m now q) = Inl (fst (refusal R r now (po_store q)))"
  "po_store (snd (login_refused R PG C r reason m now q)) = snd (refusal R r now (po_store q))"
  "po_web (snd (login_refused R PG C r reason m now q)) = po_web q"
  by (simp_all add: login_refused_def refusal_def Let_def case_prod_beta)

lemma login_accepted_error:
  "fst (login_accepted R PG C K r sid u now q) = Inl e \<Longrightarrow> e = too_many_accounts"
  by (auto simp: login_accepted_def Let_def case_prod_beta split: if_splits)

lemma error_facts: "too_many_accounts \<noteq> banned_error" "too_many_accounts \<noteq> locked_error n" "too_many_accounts \<noteq> wrong_login"
  by (simp_all add: too_many_accounts_def banned_error_def locked_error_def wrong_login_def http_error_defs)

lemma new_session_id [simp]: "se_id (new_session i m ip ua now) = i" "se_mailboxId (new_session i m ip ua now) = m"
  by (simp_all add: new_session_def Let_def)






lemma login_error_cases:
  assumes "fst (login R PG C K r sid now p) = Inl e" and "e \<noteq> too_many_accounts"
  shows "e = (if net_banned PG r now p then banned_error
      else if lock_of R r now (po_store p) > 0 then locked_error (lock_of R r now (po_store p))
      else fst (refusal R r now (po_store p)))"
    and "po_store (snd (login R PG C K r sid now p)) =
      (if net_banned PG r now p \<or> lock_of R r now (po_store p) > 0 then po_store p else snd (refusal R r now (po_store p)))"
proof -
  have "e = (if net_banned PG r now p then banned_error
      else if lock_of R r now (po_store p) > 0 then locked_error (lock_of R r now (po_store p))
      else fst (refusal R r now (po_store p))) \<and>
    po_store (snd (login R PG C K r sid now p)) =
      (if net_banned PG r now p \<or> lock_of R r now (po_store p) > 0 then po_store p else snd (refusal R r now (po_store p)))"
  proof (cases rule: login_outcomes [of PG r now p R C K sid])
    case (banned p')
    then show ?thesis using assms by (auto simp: login_def Let_def case_prod_beta record_attempt_def)
  next
    case (locked p')
    then show ?thesis using assms by (auto simp: login_def Let_def case_prod_beta record_attempt_def)
  next
    case (refused q reason m)
    then show ?thesis using assms login_refused_result(1,2) [of R PG C r reason m now q] by auto
  next
    case (accepted q u)
    then show ?thesis using assms login_accepted_error by metis
  qed
  then show "e = (if net_banned PG r now p then banned_error
      else if lock_of R r now (po_store p) > 0 then locked_error (lock_of R r now (po_store p))
      else fst (refusal R r now (po_store p)))"
    and "po_store (snd (login R PG C K r sid now p)) =
      (if net_banned PG r now p \<or> lock_of R r now (po_store p) > 0 then po_store p else snd (refusal R r now (po_store p)))"
    by blast+
qed

subsection \<open>Properties\<close>


definition ex_crypt :: crypt where
  "ex_crypt = \<lparr>cr_hash = (\<lambda>p. ''$2'' @ p), cr_verify = (\<lambda>p h. Some (h = ''$2'' @ p)), cr_sha512 = (\<lambda>_. replicate 64 0)\<rparr>"

definition ex_portal :: "mem_store portal" where
  "ex_portal = \<lparr>po_store = [], po_srv = empty_srv\<lparr>sv_web := ex_web\<lparr>w_mailboxes :=
     [(ex_mailbox ''ann'')\<lparr>mb_passwordHash := ''$2pw''\<rparr>, ex_mailbox ''bob'']\<rparr>\<rparr>, po_aliases = []\<rparr>"

definition ex_login :: "string \<Rightarrow> string \<Rightarrow> login_request" where
  "ex_login email pw = \<lparr>lr_email = email, lr_password = pw, lr_ip = ''9.8.7.6'', lr_userAgent = None,
     lr_cookies = \<lparr>ck_session = None, ck_accounts = None\<rparr>\<rparr>"


text \<open>
  C15: a refusal tells nothing about the account. Two sign-ins with the same email from the same
  address that both fail, for whatever reason and whatever mailboxes there are, get the same error
  and leave the counters the same, when the counters were the same and the address was banned for
  both or for neither; only who knows the password can be told of the limit of accounts.
\<close>

theorem login_refusals_alike:
  assumes "po_store p = po_store q"
    and "fst (isBanned PG (Some (lr_ip r)) now (sv_bans (po_srv p))) = fst (isBanned PG (Some (lr_ip r)) now (sv_bans (po_srv q)))"
    and "fst (login R PG C K r sid now p) = Inl e" and "e \<noteq> too_many_accounts"
    and "fst (login R PG C K (r\<lparr>lr_password := pw\<rparr>) sid' now q) = Inl e'" and "e' \<noteq> too_many_accounts"
  shows "e = e' \<and> po_store (snd (login R PG C K r sid now p)) =
      po_store (snd (login R PG C K (r\<lparr>lr_password := pw\<rparr>) sid' now q))"
  using login_error_cases [OF assms(3,4)] login_error_cases [OF assms(5,6)] assms(1,2)
  by (simp add: refusal_def)

theorem login_refusals_alike_witness:
  "po_store (snd (login mem_redis mem_pg (default_config ''m'') ex_crypt (ex_login ''ann@example.org'' ''no'') ''s9'' 5 ex_portal)) =
   po_store (snd (login mem_redis mem_pg (default_config ''m'') ex_crypt (ex_login ''ann@example.org'' ''pw'') ''s9'' 5
     (set_web (ex_web\<lparr>w_mailboxes := []\<rparr>) ex_portal)))"
proof -
  let ?r = "ex_login ''ann@example.org'' ''no''" and ?q = "set_web (ex_web\<lparr>w_mailboxes := []\<rparr>) ex_portal"
  have up: "?r\<lparr>lr_password := ''pw''\<rparr> = ex_login ''ann@example.org'' ''pw''" by (simp add: ex_login_def)
  have "case fst (login mem_redis mem_pg (default_config ''m'') ex_crypt ?r ''s9'' 5 ex_portal) of Inl e \<Rightarrow> e = wrong_login | Inr _ \<Rightarrow> False"
    by code_simp
  then have 1: "fst (login mem_redis mem_pg (default_config ''m'') ex_crypt ?r ''s9'' 5 ex_portal) = Inl wrong_login"
    by (auto split: sum.splits)
  have "case fst (login mem_redis mem_pg (default_config ''m'') ex_crypt (ex_login ''ann@example.org'' ''pw'') ''s9'' 5 ?q) of
      Inl e \<Rightarrow> e = wrong_login | Inr _ \<Rightarrow> False" by code_simp
  then have 2: "fst (login mem_redis mem_pg (default_config ''m'') ex_crypt (?r\<lparr>lr_password := ''pw''\<rparr>) ''s9'' 5 ?q) = Inl wrong_login"
    by (auto simp: up split: sum.splits)
  have "wrong_login \<noteq> too_many_accounts" using error_facts(3) by auto
  with login_refusals_alike [of ex_portal ?q mem_pg ?r 5, OF _ _ 1 _ 2] show ?thesis by (simp add: up)
qed

text \<open>
  C32: retention forgets no ban that still matters. Deleting the old rows, at any time from then on
  exactly the same bans are in force, and an automatic ban finds as many earlier bans of the same
  network, so that it lasts as long as it would have; the rows deleted had all ended a year before.
\<close>

theorem purge_keeps_bans:
  assumes "purgeOldActivity C now auth mail audits bans = (auth', mail', audits', bans')" and "now \<le> t"
    and "\<forall>b \<in> set bans. (\<forall>x. ib_liftedAt b = Some x \<longrightarrow> ib_createdAt b \<le> x) \<and> (\<forall>x. ib_expiresAt b = Some x \<longrightarrow> ib_createdAt b \<le> x)"
  shows "filter (active t) bans' = filter (active t) bans \<and> previous_bans t net bans' = previous_bans t net bans \<and>
    (\<forall>b \<in> set bans - set bans'. \<exists>x. (ib_liftedAt b = Some x \<or> ib_expiresAt b = Some x) \<and> x < now - 365 * DAY_MS)"
proof -
  define cut where "cut = now - int (max (cfg_ACTIVITY_RETENTION_DAYS C) 365) * DAY_MS"
  define old where "old = (\<lambda>b :: ban_row. before (ib_liftedAt b) cut \<or> ib_liftedAt b = None \<and> before (ib_expiresAt b) cut)"
  have bans': "bans' = destroy_where old bans" using assms(1) by (simp add: purgeOldActivity_def Let_def cut_def old_def DAY_MS_def)
  have cut: "cut \<le> now - 365 * DAY_MS" by (simp add: cut_def DAY_MS_def)
  have gone: "\<exists>x. (ib_liftedAt b = Some x \<or> ib_liftedAt b = None \<and> ib_expiresAt b = Some x) \<and> x < cut" if "old b" for b
    using that by (auto simp: old_def before_def split: option.splits)
  have inactive: "\<not> active t b" if "old b" for b
    using gone [OF that] cut assms(2) by (auto simp: active_def DAY_MS_def)
  have ancient: "ib_createdAt b \<le> t - REPEAT_LOOKBACK_DAYS * DAY_MS" if "b \<in> set bans" "old b" for b
    using gone [OF that(2)] that(1) assms(2,3) cut unfolding DAY_MS_def REPEAT_LOOKBACK_DAYS_def by fastforce
  have "filter (active t) bans' = filter (active t) bans"
    using inactive by (auto simp: bans' destroy_where_def intro!: filter_cong)
  moreover have "previous_bans t net bans' = previous_bans t net bans"
    using ancient unfolding previous_bans_def count_where_def bans' destroy_where_def filter_filter
    by (intro arg_cong [where f = length] filter_cong) fastforce+
  moreover have "\<exists>x. (ib_liftedAt b = Some x \<or> ib_expiresAt b = Some x) \<and> x < now - 365 * DAY_MS"
    if "b \<in> set bans - set bans'" for b
  proof -
    from that have "old b" by (simp add: bans' destroy_where_def)
    from gone [OF this] cut show ?thesis by fastforce
  qed
  ultimately show ?thesis by blast
qed

definition ended_ban :: "time \<Rightarrow> ban_row" where
  "ended_ban t = \<lparr>ib_id = 1, ib_network = (V4 0x01020300, 24), ib_reason = None, ib_source = AutoBan, ib_createdBy = None,
     ib_createdAt = t, ib_expiresAt = Some (t + DAY_MS), ib_liftedAt = None, ib_liftedBy = None, ib_hits = 0, ib_lastHitAt = None\<rparr>"

theorem purge_keeps_bans_witness:
  "let (_, _, _, bans') = purgeOldActivity (default_config ''m'') (400 * DAY_MS) [] [] [] [ended_ban 0, ended_ban (350 * DAY_MS)]
   in bans' = [ended_ban (350 * DAY_MS)] \<and> previous_bans (400 * DAY_MS) (V4 0x01020300, 24) bans' = 1"
proof -
  let ?all = "[ended_ban 0, ended_ban (350 * DAY_MS)]"
  have 1: "purgeOldActivity (default_config ''m'') (400 * DAY_MS) [] [] [] ?all = ([], [], [], [ended_ban (350 * DAY_MS)])"
    by code_simp
  have 2: "previous_bans (400 * DAY_MS) (V4 0x01020300, 24) ?all = 1" by code_simp
  have "\<forall>b \<in> set ?all. (\<forall>x. ib_liftedAt b = Some x \<longrightarrow> ib_createdAt b \<le> x) \<and> (\<forall>x. ib_expiresAt b = Some x \<longrightarrow> ib_createdAt b \<le> x)"
    by (simp add: ended_ban_def DAY_MS_def)
  from purge_keeps_bans [OF 1 order_refl this, of "(V4 0x01020300, 24)"] 1 2 show ?thesis by simp
qed

end
