(* ===== verification/Postfix.thy ===== *)
theory Postfix
  imports JsRegex
begin

text \<open>
  Postfix's mail log, \<open>apps/server/src/activity/postfix-parse.ts\<close>: a line of the log with its
  time, program and message, and the event the message stands for. The patterns are those of the
  source. A syslog time has no year and no zone; the calendar is written out as in the ECMAScript
  standard, and the zone is a parameter, two functions between universal and local time.
\<close>

subsection \<open>Dates\<close>

record zone =
  z_local :: "time \<Rightarrow> time"
  z_utc :: "time \<Rightarrow> time"

definition ms_per_day :: int where "ms_per_day = 86400000"

definition day_from_year :: "int \<Rightarrow> int" where
  "day_from_year y = 365 * (y - 1970) + (y - 1969) div 4 - (y - 1901) div 100 + (y - 1601) div 400"

definition year_of_day :: "int \<Rightarrow> int" where
  \<comment> \<open>the greatest year that begins on or before the day; the estimate is off by at most one\<close>
  "year_of_day d = (let y = 1970 + d * 400 div 146097
     in if day_from_year (y + 1) \<le> d then y + 1 else if d < day_from_year y then y - 1 else y)"

definition leap_year :: "int \<Rightarrow> bool" where
  "leap_year y \<longleftrightarrow> day_from_year (y + 1) - day_from_year y = 366"

definition month_days :: "bool \<Rightarrow> int list" where
  "month_days leap = [31, if leap then 29 else 28, 31, 30, 31, 30, 31, 31, 30, 31, 30, 31]"

definition month_start :: "bool \<Rightarrow> nat \<Rightarrow> int" where
  "month_start leap m = sum_list (take m (month_days leap))"

definition make_day :: "int \<Rightarrow> nat \<Rightarrow> int \<Rightarrow> int" where
  \<comment> \<open>\<open>MakeDay\<close> for a month from 0 to 11\<close>
  "make_day y m dt = day_from_year y + month_start (leap_year y) m + dt - 1"

definition local_ms :: "int \<Rightarrow> nat \<Rightarrow> int \<Rightarrow> int \<Rightarrow> int \<Rightarrow> int \<Rightarrow> time" where
  "local_ms y m dt h mi s = make_day y m dt * ms_per_day + h * 3600000 + mi * 60000 + s * 1000"

definition month_of_day :: "int \<Rightarrow> nat" where
  "month_of_day d = (let y = year_of_day d; r = d - day_from_year y
     in length (takeWhile (\<lambda>m. month_start (leap_year y) m \<le> r) [1..<12]))"

definition date_of_day :: "int \<Rightarrow> int" where
  "date_of_day d = (let y = year_of_day d in d - day_from_year y - month_start (leap_year y) (month_of_day d) + 1)"

definition getFullYear :: "zone \<Rightarrow> time \<Rightarrow> int" where
  "getFullYear Z t = year_of_day (z_local Z t div ms_per_day)"

definition setFullYear :: "zone \<Rightarrow> int \<Rightarrow> time \<Rightarrow> time" where
  "setFullYear Z y t = (let l = z_local Z t; d = l div ms_per_day
     in z_utc Z (make_day y (month_of_day d) (date_of_day d) * ms_per_day + l mod ms_per_day))"

definition MONTHS :: "(string \<times> nat) list" where
  "MONTHS = zip [''Jan'', ''Feb'', ''Mar'', ''Apr'', ''May'', ''Jun'', ''Jul'', ''Aug'', ''Sep'', ''Oct'', ''Nov'', ''Dec''] [0..<12]"

definition parseSyslogTime :: "zone \<Rightarrow> string \<Rightarrow> string \<Rightarrow> string \<Rightarrow> time \<Rightarrow> time option" where
  "parseSyslogTime Z month day clock now =
     (case (map_of MONTHS month, map (\<lambda>w. int (nat_of_digits w)) (split_on (CHR '':'') clock)) of
        (Some m, h # mi # s # _) \<Rightarrow>
          (let d = z_utc Z (local_ms (getFullYear Z now) m (int (nat_of_digits day)) h mi s)
           in Some (if d - now > 2 * 86400000 then setFullYear Z (getFullYear Z d - 1) d else d))
      | _ \<Rightarrow> None)"

subsection \<open>Lines\<close>

record postfix_line =
  pl_time :: time
  pl_service :: string
  pl_syslogName :: string
  pl_message :: string

abbreviation re_space_not :: re where "re_space_not \<equiv> Chr (\<lambda>c. \<not> js_space c)"
abbreviation re_word :: re where "re_word \<equiv> Chr re_word_char"

definition LINE_RE :: re where
  "LINE_RE = Seqs [AtStart, Cap 1 (Seqs [Chr (re_range (CHR ''A'') (CHR ''Z'')), Times 2 (Chr (re_range (CHR ''a'') (CHR ''z'')))]),
     Between 1 2 (Lit '' ''), Cap 2 (Between 1 2 Digit), Lit '' '',
     Cap 3 (Seqs [Times 2 Digit, Lit '':'', Times 2 Digit, Lit '':'', Times 2 Digit]), Lit '' '', Plus re_space_not, Lit '' '',
     Cap 4 (Seqs [Lit ''postfix'', Star (Chr (\<lambda>c. re_word_char c \<or> c \<in> set ''./-''))]), Lit ''['', Digits, Lit '']: '',
     Cap 5 AnyStar, AtEnd]"

definition last_slash :: "string \<Rightarrow> nat option" where
  "last_slash s = (if CHR ''/'' \<in> set s then Some (length s - 1 - length (takeWhile (\<lambda>c. c \<noteq> CHR ''/'') (rev s))) else None)"

definition parseLine :: "zone \<Rightarrow> string \<Rightarrow> time \<Rightarrow> postfix_line option" where
  "parseLine Z line now = (case re_exec LINE_RE line of
     None \<Rightarrow> None
   | Some m \<Rightarrow> (case parseSyslogTime Z (group_str m 1) (group_str m 2) (group_str m 3) now of
       None \<Rightarrow> None
     | Some t \<Rightarrow> (let program = group_str m 4
         in Some (case last_slash program of
              None \<Rightarrow> \<lparr>pl_time = t, pl_service = program, pl_syslogName = program, pl_message = group_str m 5\<rparr>
            | Some i \<Rightarrow> \<lparr>pl_time = t, pl_service = drop (Suc i) program,
                pl_syslogName = (if i > 0 then take i program else program), pl_message = group_str m 5\<rparr>))))"

definition sourceOf :: "string \<Rightarrow> string" where
  "sourceOf syslogName =
     (if syslogName = ''postfix/smtp-in'' then ''smtp''
      else if syslogName = ''postfix/submission'' then ''submission''
      else if syslogName = ''postfix/smtps'' then ''smtps''
      else if syslogName = ''postfix/app'' then ''app''
      else ''local'')"

subsection \<open>Events\<close>

record delivery =
  dl_qid :: string
  dl_transport :: string
  dl_to :: string
  dl_origTo :: "string option"
  dl_relay :: string
  dl_dsn :: string
  dl_status :: string
  dl_detail :: "string option"

record rejection =
  rj_qid :: "string option"
  rj_stage :: string
  rj_clientHost :: string
  rj_clientIp :: string
  rj_dsn :: "string option"
  rj_detail :: string
  rj_from :: string
  rj_to :: "string option"

datatype postfix_event =
    EvClient string string string "string option" \<comment> \<open>qid, host, address, SASL user\<close>
  | EvPickup string string
  | EvMessageId string string
  | EvSubject string string
  | EvQueued string string nat nat
  | EvDelivery delivery
  | EvExpired string
  | EvRemoved string
  | EvDeleted string
  | EvReject rejection
definition alnum :: "char \<Rightarrow> bool" where
  "alnum c \<longleftrightarrow> js_digit c \<or> re_range (CHR ''A'') (CHR ''Z'') c \<or> re_range (CHR ''a'') (CHR ''z'') c"

definition letter :: "char \<Rightarrow> bool" where
  "letter c \<longleftrightarrow> re_range (CHR ''A'') (CHR ''Z'') c \<or> re_range (CHR ''a'') (CHR ''z'') c"

definition QID_RE :: re where
  "QID_RE = Seqs [AtStart,
     Cap 1 (Alt (Between 6 12 (Chr (\<lambda>c. js_digit c \<or> re_range (CHR ''A'') (CHR ''F'') c)))
       (Seqs [Ahead (Seq (Star (Chr alnum)) Digit), Ahead (Seq (Star (Chr alnum)) (Chr letter)), Between 12 20 (Chr alnum)])),
     Lit '': '', Cap 2 AnyStar, AtEnd]"

definition dsn_re :: re where
  "dsn_re = Seqs [Digit, Lit ''.'', Between 1 3 Digit, Lit ''.'', Between 1 3 Digit]"

definition DELIVERY_RE :: re where
  "DELIVERY_RE = Seq AtStart (Seqs [Lit ''to=<'', Cap 1 (Star (NotIn ''>'')), Lit ''>, '',
     Opt (Seqs [Lit ''orig_to=<'', Cap 2 (Star (NotIn ''>'')), Lit ''>, '']),
     Lit ''relay='', Cap 3 (Plus (NotIn '','')), Lit '', '', Opt (Seqs [Lit ''conn_use='', Digits, Lit '', '']),
     Lit ''delay='', Plus (Chr (\<lambda>c. js_digit c \<or> c = CHR ''.'')), Lit '', delays='', Plus (NotIn '',''),
     Lit '', dsn='', Cap 4 dsn_re, Lit '', status='', Cap 5 (Plus re_word),
     Opt (Seqs [Lit '' ('', Cap 6 AnyStar, Lit '')'']), AtEnd])"

definition REJECT_RE :: re where
  "REJECT_RE = Seqs [AtStart, Opt (Lit ''milter-''), Lit ''reject: '', Cap 1 (Plus (Chr (\<lambda>c. re_word_char c \<or> c = CHR ''-''))),
     Lit '' from '', Cap 2 (Star (NotIn ''['')), Lit ''['', Cap 3 (Star (NotIn '']'')), Lit '']'', Opt (Seq (Lit '':'') Digits),
     Lit '': '', Cap 4 (LazyStar (Chr re_dot)), Lit ''; from=<'', Cap 5 (Star (NotIn ''>'')), Lit ''>'',
     Opt (Seqs [Lit '' to=<'', Cap 6 (Star (NotIn ''>'')), Lit ''>''])]"

definition DELIVERY_AGENTS :: "string list" where
  "DELIVERY_AGENTS = [''lmtp'', ''smtp'', ''error'', ''retry'', ''virtual'', ''local'', ''discard'', ''pipe'']"

definition reply_re :: re where
  "reply_re = Seqs [AtStart, Opt (Seq (Times 3 Digit) (Lit '' '')), Cap 1 dsn_re, Lit '' '', Cap 2 AnyStar, AtEnd]"

definition splitReply :: "string \<Rightarrow> string option \<times> string" where
  "splitReply txt = (case re_exec reply_re txt of
     Some m \<Rightarrow> (Some (group_str m 1), group_str m 2)
   | None \<Rightarrow> (None, txt))"

definition client_re :: re where
  "client_re = Seqs [AtStart, Lit ''client='', Cap 1 (Star (NotIn ''[,'')), Lit ''['', Cap 2 (Star (NotIn '']'')), Lit '']'',
     Opt (Seq (Lit '':'') Digits),
     Opt (Seqs [Lit '', sasl_method='', Star (NotIn '',''), Lit '', sasl_username='', Cap 3 (Star (NotIn '',''))])]"

definition pickup_re :: re where
  "pickup_re = Seqs [AtStart, Lit ''uid='', Digits, Lit '' from=<'', Cap 1 (Star (NotIn ''>'')), Lit ''>'']"

definition message_id_re :: re where
  "message_id_re = Seqs [AtStart, Lit ''message-id='', Opt (Lit ''<''), Cap 1 (Star (NotIn ''>'')), Opt (Lit ''>''), AtEnd]"

definition subject_re :: re where
  "subject_re = Seqs [AtStart, Lit ''info: header Subject: '', Cap 1 AnyStar, Lit '' from '',
     Alt (Seqs [Star (Chr (\<lambda>c. c \<noteq> CHR ''['' \<and> \<not> js_space c)), Lit ''['', Star (NotIn '']''), Lit '']'', Opt (Seq (Lit '':'') Digits)])
       (Lit ''local''),
     Lit ''; from=<'', Star (NotIn ''>''), Lit ''>'']"

definition queued_re :: re where
  "queued_re = Seqs [AtStart, Lit ''from=<'', Cap 1 (Star (NotIn ''>'')), Lit ''>, size='', Cap 2 Digits, Lit '', nrcpt='', Cap 3 Digits]"

definition expired_re :: re where
  "expired_re = Seqs [AtStart, Lit ''from=<'', Star (NotIn ''>''), Lit ''>, status=expired'']"

definition parse_reject :: "string option \<Rightarrow> string \<Rightarrow> postfix_event option" where
  "parse_reject qid txt = map_option (\<lambda>r. EvReject \<lparr>rj_qid = qid, rj_stage = group_str r 1, rj_clientHost = group_str r 2,
     rj_clientIp = group_str r 3, rj_dsn = fst (splitReply (group_str r 4)), rj_detail = snd (splitReply (group_str r 4)),
     rj_from = group_str r 5, rj_to = group r 6\<rparr>) (re_exec REJECT_RE txt)"

definition parse_delivery :: "string \<Rightarrow> string \<Rightarrow> string \<Rightarrow> postfix_event option" where
  "parse_delivery service qid rest = map_option (\<lambda>d. EvDelivery \<lparr>dl_qid = qid, dl_transport = service, dl_to = group_str d 1,
     dl_origTo = group d 2, dl_relay = group_str d 3, dl_dsn = group_str d 4, dl_status = group_str d 5, dl_detail = group d 6\<rparr>)
     (re_exec DELIVERY_RE rest)"

definition parse_cleanup :: "string \<Rightarrow> string \<Rightarrow> postfix_event option" where
  "parse_cleanup qid rest = (case re_exec message_id_re rest of
     Some i \<Rightarrow> Some (EvMessageId qid (group_str i 1))
   | None \<Rightarrow> map_option (\<lambda>s. EvSubject qid (group_str s 1)) (re_exec subject_re rest))"

definition parse_qmgr :: "string \<Rightarrow> string \<Rightarrow> postfix_event option" where
  "parse_qmgr qid rest =
     (if rest = ''removed'' then Some (EvRemoved qid)
      else (case re_exec queued_re rest of
        Some f \<Rightarrow> Some (EvQueued qid (group_str f 1) (nat_of_digits (group_str f 2)) (nat_of_digits (group_str f 3)))
      | None \<Rightarrow> if re_test expired_re rest then Some (EvExpired qid) else None))"

definition parse_service :: "string \<Rightarrow> string \<Rightarrow> string \<Rightarrow> postfix_event option" where
  "parse_service service qid rest =
     (if service = ''smtpd'' then map_option (\<lambda>m. EvClient qid (group_str m 1) (group_str m 2)
        (case group m 3 of None \<Rightarrow> None | Some u \<Rightarrow> if u = [] then None else Some u)) (re_exec client_re rest)
      else if service = ''pickup'' then map_option (\<lambda>m. EvPickup qid (group_str m 1)) (re_exec pickup_re rest)
      else if service = ''cleanup'' then parse_cleanup qid rest
      else if service = ''postsuper'' then (if rest = ''removed'' then Some (EvDeleted qid) else None)
      else if service = ''qmgr'' then parse_qmgr qid rest
      else if service \<in> set DELIVERY_AGENTS then parse_delivery service qid rest
      else None)"

definition parseEvent :: "postfix_line \<Rightarrow> postfix_event option" where
  "parseEvent l =
     (if starts_with (pl_message l) ''NOQUEUE: '' then parse_reject None (drop (length ''NOQUEUE: '') (pl_message l))
      else (case re_exec QID_RE (pl_message l) of
        None \<Rightarrow> None
      | Some q \<Rightarrow>
          (let qid = group_str q 1; rest = group_str q 2
           in if starts_with rest ''reject: '' \<or> starts_with rest ''milter-reject: '' then parse_reject (Some qid) rest
              else parse_service (pl_service l) qid rest)))"

subsection \<open>Reading what Postfix prints\<close>

text \<open>The line Postfix logs for a delivery attempt, from its fields.\<close>

record delivery_extra =
  dx_connUse :: "string option"
  dx_delay :: string
  dx_delays :: string

definition delivery_text :: "delivery \<Rightarrow> delivery_extra \<Rightarrow> string" where
  "delivery_text d x = ''to=<'' @ dl_to d @ ''>, '' @
     (case dl_origTo d of None \<Rightarrow> [] | Some a \<Rightarrow> ''orig_to=<'' @ a @ ''>, '') @
     ''relay='' @ dl_relay d @ '', '' @ (case dx_connUse x of None \<Rightarrow> [] | Some n \<Rightarrow> ''conn_use='' @ n @ '', '') @
     ''delay='' @ dx_delay x @ '', delays='' @ dx_delays x @ '', dsn='' @ dl_dsn d @ '', status='' @ dl_status d @
     (case dl_detail d of None \<Rightarrow> [] | Some e \<Rightarrow> '' ('' @ e @ '')'')"

definition dsn_ok :: "string \<Rightarrow> bool" where
  "dsn_ok s \<longleftrightarrow> (case split_on (CHR ''.'') s of
     [a, b, c] \<Rightarrow> all_digits a \<and> length a = 1 \<and> all_digits b \<and> length b \<le> 3 \<and> all_digits c \<and> length c \<le> 3
   | _ \<Rightarrow> False)"

definition delivery_ok :: "delivery \<Rightarrow> delivery_extra \<Rightarrow> bool" where
  "delivery_ok d x \<longleftrightarrow> CHR ''>'' \<notin> set (dl_to d) \<and> (case dl_origTo d of None \<Rightarrow> True | Some a \<Rightarrow> CHR ''>'' \<notin> set a) \<and>
     dl_relay d \<noteq> [] \<and> CHR '','' \<notin> set (dl_relay d) \<and> (case dx_connUse x of None \<Rightarrow> True | Some n \<Rightarrow> all_digits n) \<and>
     dx_delay x \<noteq> [] \<and> list_all (\<lambda>c. js_digit c \<or> c = CHR ''.'') (dx_delay x) \<and>
     dx_delays x \<noteq> [] \<and> CHR '','' \<notin> set (dx_delays x) \<and> dsn_ok (dl_dsn d) \<and>
     dl_status d \<noteq> [] \<and> list_all re_word_char (dl_status d) \<and> (case dl_detail d of None \<Rightarrow> True | Some e \<Rightarrow> list_all re_dot e) \<and>
     dl_transport d \<in> set DELIVERY_AGENTS \<and> list_all re_dot (delivery_text d x)"

lemma reads_dsn:
  assumes "dsn_ok dsn" and "s = [] \<or> \<not> js_digit (hd s)"
  shows "reads (Cap k dsn_re) (dsn @ s) s c ((k, dsn) # c)"
proof -
  from assms(1) obtain a b e where p: "split_on (CHR ''.'') dsn = [a, b, e]"
    "all_digits a" "length a = 1" "all_digits b" "length b \<le> 3" "all_digits e" "length e \<le> 3"
    by (auto simp: dsn_ok_def split: list.splits)
  have dsn: "dsn = a @ ''.'' @ b @ ''.'' @ e" using join_split [of "CHR ''.''" dsn] p(1) by simp
  obtain x where a: "a = [x]" "js_digit x" using p(2,3) by (cases a) (auto simp: all_digits_def)
  have be: "list_all js_digit b \<and> 1 \<le> length b \<and> length b \<le> 3" "list_all js_digit e \<and> 1 \<le> length e \<and> length e \<le> 3"
    using p by (auto simp: all_digits_def Suc_le_eq)
  have "reads dsn_re ([x] @ ''.'' @ b @ ''.'' @ e @ s) s c c"
    unfolding dsn_re_def
    by (rule reads_Seqs, rule reads_Chr [where p = js_digit, OF a(2)], rule reads_Seqs, rule reads_Lit, rule reads_Seqs, rule reads_between [OF be(1)],
      simp add: js_digit_def, rule reads_Seqs, rule reads_Lit, rule reads_last, rule reads_between [OF be(2) assms(2)])
  then have "reads dsn_re (dsn @ s) s c c" by (simp add: dsn a(1))
  then show ?thesis by (rule reads_Cap)
qed

lemma reads_delivery:
  assumes "delivery_ok d x"
  shows "re_exec DELIVERY_RE (delivery_text d x) = Some ((0, delivery_text d x) #
    (case dl_detail d of None \<Rightarrow> [] | Some e \<Rightarrow> [(6, e)]) @
    (5, dl_status d) # (4, dl_dsn d) # (3, dl_relay d) # (case dl_origTo d of None \<Rightarrow> [] | Some a \<Rightarrow> [(2, a)]) @ [(1, dl_to d)])"
proof -
  note ok = assms [unfolded delivery_ok_def]
  have to: "list_all (\<lambda>c. c \<notin> set ''>'') (dl_to d)" using ok by (auto simp: list_all_iff)
  have relay: "list_all (\<lambda>c. c \<notin> set '','') (dl_relay d) \<and> dl_relay d \<noteq> []" using ok by (auto simp: list_all_iff)
  have delay: "list_all (\<lambda>c. js_digit c \<or> c = CHR ''.'') (dx_delay x) \<and> dx_delay x \<noteq> []" using ok by simp
  have delays: "list_all (\<lambda>c. c \<notin> set '','') (dx_delays x) \<and> dx_delays x \<noteq> []" using ok by (auto simp: list_all_iff)
  have status: "list_all re_word_char (dl_status d) \<and> dl_status d \<noteq> []" using ok by simp
  have orig: "reads (Opt (Seqs [Lit ''orig_to=<'', Cap 2 (Star (NotIn ''>'')), Lit ''>, '']))
      ((case dl_origTo d of None \<Rightarrow> [] | Some a \<Rightarrow> ''orig_to=<'' @ a @ ''>, '') @ ''relay='' @ s) (''relay='' @ s) c
      ((case dl_origTo d of None \<Rightarrow> [] | Some a \<Rightarrow> [(2, a)]) @ c)" for s c
  proof (cases "dl_origTo d")
    case None
    then show ?thesis by (simp only: option.case append_Nil) (rule reads_Opt_none, simp)
  next
    case (Some a)
    then have "list_all (\<lambda>c. c \<notin> set ''>'') a" using ok by (auto simp: list_all_iff)
    then have "reads (Opt (Seqs [Lit ''orig_to=<'', Cap 2 (Star (NotIn ''>'')), Lit ''>, '']))
        (''orig_to=<'' @ a @ ''>, '' @ ''relay='' @ s) (''relay='' @ s) c ((2, a) # c)"
      by - (rule reads_Opt, rule reads_Seqs, rule reads_Lit, rule reads_Seqs, rule reads_Cap, rule reads_star, assumption, simp,
        rule reads_last, rule reads_Lit)
    with Some show ?thesis by (simp only: option.case append_assoc append_Cons append_Nil)
  qed
  have conn: "reads (Opt (Seqs [Lit ''conn_use='', Digits, Lit '', '']))
      ((case dx_connUse x of None \<Rightarrow> [] | Some n \<Rightarrow> ''conn_use='' @ n @ '', '') @ ''delay='' @ s) (''delay='' @ s) c c" for s c
  proof (cases "dx_connUse x")
    case None
    then show ?thesis by (simp only: option.case append_Nil) (rule reads_Opt_none, simp)
  next
    case (Some n)
    then have "list_all js_digit n \<and> n \<noteq> []" using ok by (simp add: all_digits_def)
    then have "reads (Opt (Seqs [Lit ''conn_use='', Digits, Lit '', '']))
        (''conn_use='' @ n @ '', '' @ ''delay='' @ s) (''delay='' @ s) c c"
      by - (rule reads_Opt, rule reads_Seqs, rule reads_Lit, rule reads_Seqs, rule reads_plus, assumption, simp add: js_digit_def,
        rule reads_last, rule reads_Lit)
    with Some show ?thesis by (simp only: option.case append_assoc append_Cons append_Nil)
  qed
  have detail: "reads (Opt (Seqs [Lit '' ('', Cap 6 AnyStar, Lit '')'']))
      (case dl_detail d of None \<Rightarrow> [] | Some e \<Rightarrow> '' ('' @ e @ '')'') [] c ((case dl_detail d of None \<Rightarrow> [] | Some e \<Rightarrow> [(6, e)]) @ c)" for c
  proof (cases "dl_detail d")
    case None
    then show ?thesis by (simp only: option.case append_Nil) (rule reads_Opt_none, simp)
  next
    case (Some e)
    then have "list_all re_dot (e @ '')'')" using ok by (simp add: re_dot_def)
    from readsI [OF first_star_last [OF this]] have "reads (Seqs [Cap 6 AnyStar, Lit '')'']) (e @ '')'') [] c ((6, e) # c)" by simp
    then have "reads (Opt (Seqs [Lit '' ('', Cap 6 AnyStar, Lit '')''])) ('' ('' @ e @ '')'') [] c ((6, e) # c)"
      by - (rule reads_Opt, rule reads_Seqs, rule reads_Lit)
    with Some show ?thesis by (simp only: option.case append_assoc append_Cons append_Nil)
  qed
  have word_end: "t = (case dl_detail d of None \<Rightarrow> [] | Some e \<Rightarrow> '' ('' @ e @ '')'') \<Longrightarrow> t = [] \<or> \<not> re_word_char (hd t)" for t
    by (auto simp: re_word_char_def js_digit_def split: option.splits)
  show ?thesis
    unfolding DELIVERY_RE_def delivery_text_def
    by (rule reads_exec, rule reads_Seqs, rule reads_Lit, rule reads_Seqs, rule reads_Cap, rule reads_star [OF to], simp,
      rule reads_Seqs, rule reads_Lit, rule reads_Seqs, rule orig, rule reads_Seqs, rule reads_Lit,
      rule reads_Seqs, rule reads_Cap, rule reads_plus [OF relay], simp, rule reads_Seqs, rule reads_Lit, rule reads_Seqs, rule conn,
      rule reads_Seqs, rule reads_Lit, rule reads_Seqs, rule reads_plus [OF delay], simp add: js_digit_def,
      rule reads_Seqs, rule reads_Lit, rule reads_Seqs, rule reads_plus [OF delays], simp, rule reads_Seqs, rule reads_Lit,
      rule reads_Seqs, rule reads_dsn, simp add: ok, simp add: js_digit_def, rule reads_Seqs, rule reads_Lit,
      rule reads_Seqs, rule reads_Cap, rule reads_plus [OF status], rule word_end, rule refl,
      rule reads_Seqs, rule detail, rule reads_last, rule reads_AtEnd)
qed

subsection \<open>The calendar\<close>

lemma div_bounds: "0 < k \<Longrightarrow> k * (x div k) \<le> x \<and> x \<le> k * (x div k) + (k - 1)" for x k :: int
  using mult_div_mod_eq [of k x] pos_mod_bound [of k x] pos_mod_sign [of k x] by linarith

lemma day_from_year_bounds:
  "146097 * (y - 1970) - 506 \<le> 400 * day_from_year y \<and> 400 * day_from_year y \<le> 146097 * (y - 1970) + 589"
proof -
  define a b c where "a = (y - 1969) div 4" and "b = (y - 1901) div 100" and "c = (y - 1601) div 400"
  have "4 * a \<le> y - 1969" "y - 1969 \<le> 4 * a + 3" "100 * b \<le> y - 1901" "y - 1901 \<le> 100 * b + 99"
    "400 * c \<le> y - 1601" "y - 1601 \<le> 400 * c + 399"
    using div_bounds [of 4 "y - 1969"] div_bounds [of 100 "y - 1901"] div_bounds [of 400 "y - 1601"]
    by (simp_all add: a_def b_def c_def)
  moreover have "day_from_year y = 365 * (y - 1970) + a - b + c" by (simp only: day_from_year_def a_def b_def c_def)
  ultimately show ?thesis by auto
qed

lemma div_step: "0 < k \<Longrightarrow> (x + 1) div k - x div k = (if k dvd x + 1 then 1 else 0)" for x k :: int
proof -
  assume k: "0 < k"
  define q r where "q = x div k" and "r = x mod k"
  have x: "x = k * q + r" and r: "0 \<le> r" "r < k" using k by (simp_all add: q_def r_def)
  show ?thesis
  proof (cases "r + 1 = k")
    case True
    then have "x + 1 = k * (q + 1)" by (simp add: x algebra_simps)
    with k show ?thesis unfolding q_def [symmetric] by simp
  next
    case False
    then have "(x + 1) div k = q" "(x + 1) mod k = r + 1"
      using r k by (auto simp: x add.assoc)
    with r False show ?thesis unfolding q_def [symmetric] by (simp add: dvd_eq_mod_eq_0)
  qed
qed

lemma year_length: "day_from_year (y + 1) - day_from_year y = 365 \<or> day_from_year (y + 1) - day_from_year y = 366"
proof -
  define a b c where "a = (4 dvd (y - 1968))" and "b = (100 dvd (y - 1900))" and "c = (400 dvd (y - 1600))"
  have "100 dvd (y - 1900) \<Longrightarrow> 4 dvd (y - 1900)" "400 dvd (y - 1600) \<Longrightarrow> 100 dvd (y - 1600)"
    using dvd_trans [of 4 100 "y - 1900"] dvd_trans [of 100 400 "y - 1600"] by simp_all
  moreover have "4 dvd (y - 1900) \<Longrightarrow> 4 dvd (y - 1968)" "100 dvd (y - 1600) \<Longrightarrow> 100 dvd (y - 1900)"
    using dvd_diff [of 4 "y - 1900" 68] dvd_diff [of 100 "y - 1600" 300] by simp_all
  ultimately have "b \<longrightarrow> a" "c \<longrightarrow> b" by (auto simp: a_def b_def c_def)
  moreover define A A' B B' C C' where "A = (y - 1969) div 4" and "A' = (y - 1969 + 1) div 4" and "B = (y - 1901) div 100"
    and "B' = (y - 1901 + 1) div 100" and "C = (y - 1601) div 400" and "C' = (y - 1601 + 1) div 400"
  have "A' - A = (if a then 1 else 0)" "B' - B = (if b then 1 else 0)" "C' - C = (if c then 1 else 0)"
    unfolding A_def A'_def B_def B'_def C_def C'_def by (subst div_step, simp, simp add: a_def b_def c_def)+
  moreover have "day_from_year y = 365 * (y - 1970) + A - B + C" by (simp only: day_from_year_def A_def B_def C_def)
  moreover have "y + 1 - 1969 = y - 1969 + 1" "y + 1 - 1901 = y - 1901 + 1" "y + 1 - 1601 = y - 1601 + 1" by simp_all
  then have "day_from_year (y + 1) = 365 * (y + 1 - 1970) + A' - B' + C'" by (simp only: day_from_year_def A'_def B'_def C'_def)
  ultimately show ?thesis by (auto split: if_splits)
qed

lemma year_of_day: "day_from_year (year_of_day d) \<le> d \<and> d < day_from_year (year_of_day d + 1)"
proof -
  define q y where "q = d * 400 div 146097" and "y = 1970 + q"
  have "146097 * q \<le> 400 * d \<and> 400 * d < 146097 * q + 146097"
    using div_bounds [of 146097 "d * 400"] unfolding q_def by linarith
  then have b: "146097 * (y - 1970) \<le> 400 * d" "400 * d < 146097 * (y - 1970) + 146097" by (simp_all add: y_def)
  have "day_from_year (y - 1) \<le> d" using b day_from_year_bounds [of "y - 1"] by (simp add: algebra_simps)
  moreover have "d < day_from_year (y + 1 + 1)" using b day_from_year_bounds [of "y + 1 + 1"] by (simp add: algebra_simps)
  moreover have "year_of_day d = (if day_from_year (y + 1) \<le> d then y + 1 else if d < day_from_year y then y - 1 else y)"
    by (simp only: year_of_day_def Let_def y_def q_def)
  ultimately show ?thesis by (auto split: if_splits)
qed

lemma day_from_year_mono: "x \<le> y \<Longrightarrow> day_from_year x + 365 * (y - x) \<le> day_from_year y"
proof (induction y rule: int_ge_induct)
  case (step y)
  have "365 * (y + 1 - x) = 365 * (y - x) + 365" by simp
  then show ?case using step year_length [of y] by linarith
qed simp

lemma year_of_day_eq: "day_from_year y \<le> d \<Longrightarrow> d < day_from_year (y + 1) \<Longrightarrow> year_of_day d = y"
  using year_of_day [of d] day_from_year_mono [of "year_of_day d + 1" y] day_from_year_mono [of "y + 1" "year_of_day d"] by force

lemma month_starts:
  "month_start l 0 = 0" "month_start l (Suc 0) = 31" "month_start l 2 = (if l then 60 else 59)" "month_start l 3 = (if l then 91 else 90)"
  "month_start l 4 = (if l then 121 else 120)" "month_start l 5 = (if l then 152 else 151)" "month_start l 6 = (if l then 182 else 181)"
  "month_start l 7 = (if l then 213 else 212)" "month_start l 8 = (if l then 244 else 243)" "month_start l 9 = (if l then 274 else 273)"
  "month_start l 10 = (if l then 305 else 304)" "month_start l 11 = (if l then 335 else 334)" "month_start l 12 = (if l then 366 else 365)"
  by (simp_all add: month_start_def month_days_def eval_nat_numeral)

lemma month_start_mono: "j \<le> k \<Longrightarrow> month_start l j \<le> month_start l k"
proof -
  assume "j \<le> k"
  then have "take k (month_days l) = take j (month_days l) @ take (k - j) (drop j (month_days l))"
    using take_add [of j "k - j" "month_days l"] by simp
  moreover have "0 \<le> sum_list (take (k - j) (drop j (month_days l)))"
    by (rule sum_list_nonneg) (auto simp: month_days_def dest!: in_set_takeD in_set_dropD split: if_splits)
  ultimately show ?thesis by (simp add: month_start_def)
qed

lemma month_lookup:
  assumes "m < 12" "month_start l m \<le> r" "r < month_start l (Suc m)"
  shows "length (takeWhile (\<lambda>k. month_start l k \<le> r) [1..<12]) = m"
proof -
  have "[1..<12] = [1..<Suc m] @ [Suc m..<12]" using assms(1) upt_add_eq_append [of 1 "Suc m" "11 - m"] by simp
  moreover have "takeWhile (\<lambda>k. month_start l k \<le> r) [Suc m..<12] = []"
    using assms(1,3) by (cases "Suc m < 12") (simp_all add: upt_conv_Cons)
  moreover have "month_start l k \<le> r" if "k \<in> set [1..<Suc m]" for k
  proof -
    from that have "k \<le> m" by auto
    then show ?thesis using month_start_mono [of k m l] assms(2) by simp
  qed
  then have "takeWhile (\<lambda>k. month_start l k \<le> r) ([1..<Suc m] @ [Suc m..<12]) = [1..<Suc m] @ takeWhile (\<lambda>k. month_start l k \<le> r) [Suc m..<12]"
    by (rule takeWhile_append2)
  ultimately show ?thesis by (simp del: upt_Suc)
qed

lemma month_len:
  assumes "m < 12" shows "month_start l (Suc m) = month_start l m + month_days l ! m"
proof -
  have "length (month_days l) = 12" by (simp add: month_days_def)
  with assms show ?thesis by (simp add: month_start_def take_Suc_conv_app_nth)
qed

lemma leap_length: "day_from_year (y + 1) = day_from_year y + month_start (leap_year y) 12"
  using year_length [of y] by (auto simp: leap_year_def month_starts)

lemma month_of_day:
  obtains "month_of_day d < 12" "1 \<le> date_of_day d" "date_of_day d \<le> month_days (leap_year (year_of_day d)) ! month_of_day d"
    "make_day (year_of_day d) (month_of_day d) (date_of_day d) = d"
proof -
  let ?y = "year_of_day d" and ?l = "leap_year (year_of_day d)"
  define r where "r = d - day_from_year ?y"
  have r: "0 \<le> r" "r < month_start ?l 12" using year_of_day [of d] leap_length [of ?y] by (auto simp: r_def)
  define m where "m = (GREATEST m. m < 12 \<and> month_start ?l m \<le> r)"
  have "m < 12 \<and> month_start ?l m \<le> r"
    unfolding m_def by (rule GreatestI_nat [of _ 0 12]) (use r in \<open>auto simp: month_starts\<close>)
  moreover have "r < month_start ?l (Suc m)"
  proof (rule ccontr)
    assume "\<not> r < month_start ?l (Suc m)"
    moreover from this r(2) have "Suc m \<noteq> 12" by auto
    ultimately have "Suc m \<le> m"
      unfolding m_def by (intro Greatest_le_nat [of _ _ 12]) (use \<open>m < 12 \<and> _\<close> m_def in auto)
    then show False by simp
  qed
  ultimately have "month_of_day d = m" "m < 12" "month_start ?l m \<le> r" "r < month_start ?l (Suc m)"
    using month_lookup [of m ?l r] by (auto simp: month_of_day_def Let_def r_def)
  then show ?thesis
    by (intro that) (auto simp: date_of_day_def make_day_def Let_def month_len r_def)
qed

lemma date_unique:
  assumes "m < 12" "1 \<le> dt" "dt \<le> month_days (leap_year y) ! m"
  shows "year_of_day (make_day y m dt) = y" "month_of_day (make_day y m dt) = m" "date_of_day (make_day y m dt) = dt"
proof -
  let ?d = "make_day y m dt" and ?l = "leap_year y"
  have d: "month_start ?l m \<le> ?d - day_from_year y" "?d - day_from_year y < month_start ?l (Suc m)"
    using assms by (auto simp: make_day_def month_len)
  have "0 \<le> month_start ?l m" "month_start ?l (Suc m) \<le> month_start ?l 12"
    using month_start_mono [of 0 m ?l] month_start_mono [of "Suc m" 12 ?l] assms(1) by (auto simp: month_starts)
  with d show y: "year_of_day ?d = y" by (intro year_of_day_eq) (auto simp: leap_length)
  show "month_of_day ?d = m" using month_lookup [OF assms(1) d] by (simp add: month_of_day_def y Let_def)
  then show "date_of_day ?d = dt" by (simp add: date_of_day_def y Let_def) (simp add: make_day_def)
qed

text \<open>The stamp syslog prints for a moment, and reading it back within a year.\<close>

definition two_digits :: "nat \<Rightarrow> string" where
  "two_digits n = (if n < 10 then ''0'' else []) @ show_nat n"

definition stamp_month :: "zone \<Rightarrow> time \<Rightarrow> string" where
  "stamp_month Z t = fst (MONTHS ! month_of_day (z_local Z t div ms_per_day))"

definition stamp_day :: "zone \<Rightarrow> time \<Rightarrow> string" where
  "stamp_day Z t = show_nat (nat (date_of_day (z_local Z t div ms_per_day)))"

definition stamp_clock :: "zone \<Rightarrow> time \<Rightarrow> string" where
  "stamp_clock Z t = (let s = nat (z_local Z t mod ms_per_day div 1000)
     in two_digits (s div 3600) @ '':'' @ two_digits (s div 60 mod 60) @ '':'' @ two_digits (s mod 60))"

definition fixed_zone :: "zone \<Rightarrow> int \<Rightarrow> bool" where
  \<comment> \<open>a zone without summer time\<close>
  "fixed_zone Z off \<longleftrightarrow> (\<forall>t. z_local Z t = t + off \<and> z_utc Z t = t - off)"

lemma nat_of_digits_two [simp]: "nat_of_digits (two_digits n) = n"
proof -
  have "nat_of_digits (''0'' @ s) = nat_of_digits s" for s by (simp add: nat_of_digits_def digit_val_def)
  then show ?thesis by (simp add: two_digits_def)
qed

lemma colon_not_digit: "CHR '':'' \<notin> set (show_nat n)"
  using show_nat_digit [of "CHR '':''" n] by (auto simp: js_digit_def)

lemma split_clock: "split_on (CHR '':'') (two_digits a @ '':'' @ two_digits b @ '':'' @ two_digits c) =
    [two_digits a, two_digits b, two_digits c]"
  using colon_not_digit by (simp add: two_digits_def split_on_append_sep split_on_no_sep)

lemma month_name: "m < 12 \<Longrightarrow> map_of MONTHS (fst (MONTHS ! m)) = Some m"
proof -
  assume m: "m < 12"
  have "distinct (map fst MONTHS)" "length MONTHS = 12" by code_simp+
  moreover have "snd (MONTHS ! m) = m" using m by (simp add: MONTHS_def)
  ultimately show ?thesis using m by (metis map_of_eq_Some_iff nth_mem prod.collapse)
qed

lemma clock_parts:
  assumes "0 \<le> l" "l < ms_per_day" "l mod 1000 = 0"
  shows "int (nat (l div 1000) div 3600) * 3600000 + int (nat (l div 1000) div 60 mod 60) * 60000 + int (nat (l div 1000) mod 60) * 1000 = l"
proof -
  define s where "s = nat (l div 1000)"
  have "l = l div 1000 * 1000" using assms(3) by (metis add.right_neutral div_mult_mod_eq)
  moreover have "0 \<le> l div 1000" using assms(1) by (rule pos_imp_zdiv_nonneg_iff [THEN iffD2, rotated]) simp
  ultimately have l: "l = int s * 1000" unfolding s_def by simp
  define u h v w where "u = s div 60" and "h = u div 60" and "v = u mod 60" and "w = s mod 60"
  have "u = h * 60 + v" "s = u * 60 + w" using div_mult_mod_eq [of u 60] div_mult_mod_eq [of s 60] by (simp_all only: u_def h_def v_def w_def)
  then have "s = h * 3600 + v * 60 + w" by linarith
  moreover have "h = s div 3600" using div_mult2_eq [of s 60 60] by (simp add: h_def u_def)
  ultimately have "s = s div 3600 * 3600 + s div 60 mod 60 * 60 + s mod 60" unfolding v_def w_def u_def by metis
  then have "int s = int (s div 3600 * 3600 + s div 60 mod 60 * 60 + s mod 60)" by (rule arg_cong)
  then have "int s * 1000 = (int (s div 3600) * 3600 + int (s div 60 mod 60) * 60 + int (s mod 60)) * 1000"
    by (simp only: of_nat_add of_nat_mult of_nat_numeral)
  moreover have "x * 3600000 + y * 60000 + z * 1000 = (x * 3600 + y * 60 + z) * 1000" for x y z :: int by simp
  ultimately have "int (s div 3600) * 3600000 + int (s div 60 mod 60) * 60000 + int (s mod 60) * 1000 = l"
    unfolding l by metis
  then show ?thesis unfolding s_def .
qed

lemma year_of_day_mono: "d \<le> e \<Longrightarrow> year_of_day d \<le> year_of_day e"
  using year_of_day [of d] year_of_day [of e] day_from_year_mono [of "year_of_day e + 1" "year_of_day d"] by force

lemma local_stamp:
  assumes "0 \<le> l" "l < ms_per_day" "l mod 1000 = 0"
  shows "local_ms y m dt (int (nat (l div 1000) div 3600)) (int (nat (l div 1000) div 60 mod 60)) (int (nat (l div 1000) mod 60)) =
    make_day y m dt * ms_per_day + l"
proof -
  have "local_ms y m dt a b c = make_day y m dt * ms_per_day + (a * 3600000 + b * 60000 + c * 1000)" for a b c
    by (simp add: local_ms_def)
  then show ?thesis by (simp only: clock_parts [OF assms])
qed

lemma same_date_next_year:
  assumes "m < 12" "1 \<le> dt" "dt \<le> month_days (leap_year y) ! m" "\<not> (m = 1 \<and> dt = 29)"
  shows "make_day y m dt + 365 \<le> make_day (y + 1) m dt" "dt \<le> month_days (leap_year (y + 1)) ! m"
proof -
  have m: "m = 0 \<or> m = 1 \<or> m = 2 \<or> m = 3 \<or> m = 4 \<or> m = 5 \<or> m = 6 \<or> m = 7 \<or> m = 8 \<or> m = 9 \<or> m = 10 \<or> m = 11"
    using assms(1) by presburger
  have len: "day_from_year (y + 1) = day_from_year y + (if leap_year y then 366 else 365)"
    using leap_length [of y] by (simp add: month_starts)
  have start: "month_start (leap_year y) m + (if leap_year y then -1 else 0) \<le> month_start (leap_year (y + 1)) m"
    using m by (elim disjE) (simp_all add: month_starts)
  show "make_day y m dt + 365 \<le> make_day (y + 1) m dt"
    using start by (auto simp: make_day_def len split: if_splits)
  have md: "month_days l ! m = (if m = 1 then if l then 29 else 28 else month_days False ! m)" for l
    using m by (elim disjE) (simp_all add: month_days_def)
  from md [of "leap_year y"] md [of "leap_year (y + 1)"] assms(3,4) show "dt \<le> month_days (leap_year (y + 1)) ! m" by (auto split: if_splits)
qed

lemma syslog_time_read:
  assumes Z: "fixed_zone Z off" and t: "z_local Z t mod 1000 = 0" "t \<le> now" "now < t + 363 * ms_per_day"
    and leap: "getFullYear Z now = getFullYear Z t \<or> \<not> (stamp_month Z t = ''Feb'' \<and> stamp_day Z t = ''29'')"
  shows "parseSyslogTime Z (stamp_month Z t) (stamp_day Z t) (stamp_clock Z t) now = Some t"
proof -
  define l where "l = z_local Z t mod ms_per_day"
  define d where "d = z_local Z t div ms_per_day"
  let ?y = "year_of_day d" and ?m = "month_of_day d" and ?dt = "date_of_day d"
  have loc: "z_local Z x = x + off" "z_utc Z x = x - off" for x using Z by (simp_all add: fixed_zone_def)
  have local_t: "t + off = d * ms_per_day + l" using div_mult_mod_eq [of "t + off" ms_per_day] by (simp add: d_def l_def loc)
  have "0 < ms_per_day" by (simp add: ms_per_day_def)
  then have l: "0 \<le> l" "l < ms_per_day" by (simp_all add: l_def)
  have "l mod 1000 = 0"
    using t(1) mod_mod_cancel [of 1000 ms_per_day "z_local Z t"] by (simp add: l_def ms_per_day_def)
  note stamp = local_stamp [OF l this]
  obtain dt: "?m < 12" "1 \<le> ?dt" "?dt \<le> month_days (leap_year ?y) ! ?m" "make_day ?y ?m ?dt = d" by (rule month_of_day)
  define Y where "Y = getFullYear Z now"
  have fields: "map_of MONTHS (stamp_month Z t) = Some ?m" "int (nat_of_digits (stamp_day Z t)) = ?dt"
    using dt(1,2) by (simp_all add: stamp_month_def stamp_day_def d_def [symmetric] month_name)
  have clock: "map (\<lambda>w. int (nat_of_digits w)) (split_on (CHR '':'') (stamp_clock Z t)) =
      [int (nat (l div 1000) div 3600), int (nat (l div 1000) div 60 mod 60), int (nat (l div 1000) mod 60)]"
    by (simp only: stamp_clock_def Let_def split_clock l_def [symmetric] list.map nat_of_digits_two)
  define D where "D = z_utc Z (make_day Y ?m ?dt * ms_per_day + l)"
  have parse: "parseSyslogTime Z (stamp_month Z t) (stamp_day Z t) (stamp_clock Z t) now =
      Some (if D - now > 2 * ms_per_day then setFullYear Z (getFullYear Z D - 1) D else D)"
    unfolding parseSyslogTime_def fields clock prod.case option.case list.case stamp
    by (simp add: Let_def D_def Y_def ms_per_day_def)
  define n where "n = (now + off) div ms_per_day"
  have Yn: "Y = year_of_day n" by (simp add: Y_def getFullYear_def n_def loc)
  have "now + off < (d + 364) * ms_per_day" using t(3) local_t l(2) by (simp add: ms_per_day_def)
  moreover have "ms_per_day * n \<le> now + off" using div_bounds [of ms_per_day "now + off"] by (simp add: n_def ms_per_day_def)
  ultimately have "n * ms_per_day < (d + 364) * ms_per_day" by (simp add: mult.commute)
  then have "n < d + 364" using \<open>0 < ms_per_day\<close> by (simp only: mult_less_cancel_right)
  moreover have "d \<le> n" unfolding d_def n_def loc using t(2) \<open>0 < ms_per_day\<close> by (intro zdiv_mono1) simp_all
  ultimately have n: "d \<le> n" "n \<le> d + 363" by simp_all
  have "?y \<le> Y" using year_of_day_mono [OF n(1)] by (simp add: Yn)
  moreover have "Y \<le> ?y + 1"
  proof (rule ccontr)
    assume "\<not> Y \<le> ?y + 1"
    then have "?y + 1 + 1 \<le> Y" by simp
    from day_from_year_mono [OF this] this have "day_from_year (?y + 1 + 1) \<le> day_from_year Y" by simp
    with year_of_day [of n] year_of_day [of d] year_length [of "?y + 1"] n(2) show False by (simp only: Yn) linarith
  qed
  ultimately consider "Y = ?y" | "Y = ?y + 1" by linarith
  then show ?thesis
  proof cases
    case 1
    then have "D = t" using local_t by (simp add: D_def loc dt(4))
    with parse t(2) show ?thesis by (simp add: ms_per_day_def)
  next
    case 2
    have "getFullYear Z t = ?y" by (simp add: getFullYear_def d_def)
    with leap 2 have "\<not> (stamp_month Z t = ''Feb'' \<and> stamp_day Z t = ''29'')" by (simp add: Y_def)
    moreover have "stamp_month Z t = ''Feb''" if "?m = 1" using that by (simp add: stamp_month_def d_def [symmetric] MONTHS_def)
    moreover have "show_nat 29 = ''29''" by code_simp
    then have "stamp_day Z t = ''29''" if "?dt = 29" using that by (simp add: stamp_day_def d_def [symmetric])
    ultimately have nl: "\<not> (?m = 1 \<and> ?dt = 29)" by blast
    note nxt = same_date_next_year [OF dt(1-3) nl]
    have "D - now > 2 * ms_per_day"
      using nxt(1) t(3) local_t l by (simp add: D_def loc 2 dt(4) ms_per_day_def)
    moreover have day: "(x * ms_per_day + l) div ms_per_day = x" "(x * ms_per_day + l) mod ms_per_day = l" for x
      using l \<open>0 < ms_per_day\<close> by simp_all
    have "z_local Z D = make_day Y ?m ?dt * ms_per_day + l" by (simp add: D_def loc)
    then have "getFullYear Z D = Y" "setFullYear Z (Y - 1) D = t"
      using date_unique [OF dt(1,2), of Y] nxt(2) local_t
      by (simp_all add: getFullYear_def setFullYear_def Let_def day mod_pos_pos_trivial [OF l] 2 dt(4) loc)
    ultimately show ?thesis using parse by simp
  qed
qed

subsection \<open>Lines\<close>

definition qid_ok :: "string \<Rightarrow> bool" where
  "qid_ok q \<longleftrightarrow> (6 \<le> length q \<and> length q \<le> 12 \<and> list_all (\<lambda>c. js_digit c \<or> re_range (CHR ''A'') (CHR ''F'') c) q) \<or>
     (12 \<le> length q \<and> length q \<le> 20 \<and> list_all alnum q \<and> list_ex js_digit q \<and> list_ex letter q)"

definition log_line :: "zone \<Rightarrow> time \<Rightarrow> string \<Rightarrow> string \<Rightarrow> string \<Rightarrow> string \<Rightarrow> string" where
  "log_line Z t host program pid msg = stamp_month Z t @ (if length (stamp_day Z t) = 1 then ''  '' else '' '') @ stamp_day Z t @ '' '' @
     stamp_clock Z t @ '' '' @ host @ '' '' @ program @ ''['' @ pid @ '']: '' @ msg"

lemma hex_alnum: "js_digit c \<or> re_range (CHR ''A'') (CHR ''F'') c \<Longrightarrow> alnum c"
  by (auto simp: alnum_def re_range_def)

lemma letter_alnum: "letter c \<Longrightarrow> alnum c" "js_digit c \<Longrightarrow> alnum c"
  by (auto simp: alnum_def letter_def)

lemma re_over_Between [simp]: "re_over P (Between m n r) = ((m = 0 \<and> n = 0) \<or> re_over P r)"
proof -
  have "re_over P (Times k r) = (k = 0 \<or> re_over P r)" "re_over P (UpTo k r) = (k = 0 \<or> re_over P r)" for k
    by (induction k) auto
  then show ?thesis by (auto simp: Between_def)
qed

lemma cap_free_Between [simp]: "cap_free r \<Longrightarrow> cap_free (Between m n r)"
proof -
  assume "cap_free r"
  then have "cap_free (Times k r)" "cap_free (UpTo k r)" for k by (induction k) (auto simp: Opt_def)
  then show ?thesis by (simp add: Between_def)
qed

lemma colon_not_alnum: "\<not> alnum (CHR '':'')"
  by code_simp

lemma reads_qid:
  assumes q: "qid_ok q" and rest: "list_all re_dot rest"
  shows "re_exec QID_RE (q @ '': '' @ rest) = Some [(0, q @ '': '' @ rest), (2, rest), (1, q)]"
proof -
  let ?short = "Between 6 12 (Chr (\<lambda>c. js_digit c \<or> re_range (CHR ''A'') (CHR ''F'') c))"
  let ?long = "Seqs [Ahead (Seq (Star (Chr alnum)) Digit), Ahead (Seq (Star (Chr alnum)) (Chr letter)), Between 12 20 (Chr alnum)]"
  have al: "list_all alnum q" using q by (auto simp: qid_ok_def list_all_iff intro: hex_alnum)
  have ends: "'': '' @ rest = [] \<or> \<not> p (hd ('': '' @ rest))" if "\<And>c. p c \<Longrightarrow> alnum c" for p
    using that colon_not_alnum by auto
  have al_end: "'': '' @ rest = [] \<or> \<not> alnum (hd ('': '' @ rest))" by (rule ends)
  have ex: "(rev q @ b, '': '' @ rest, []) \<in> set (re_match (Alt ?short ?long) (b, q @ '': '' @ rest, []))" for b
    using q unfolding qid_ok_def
  proof (elim disjE conjE)
    assume "6 \<le> length q" "length q \<le> 12" "list_all (\<lambda>c. js_digit c \<or> re_range (CHR ''A'') (CHR ''F'') c) q"
    then have "first_match ?short (b, q @ '': '' @ rest, []) (rev q @ b, '': '' @ rest, [])"
      by (intro first_between ends) (auto intro: hex_alnum)
    from first_in [OF this] show ?thesis by simp
  next
    assume len: "12 \<le> length q" "length q \<le> 20" and c: "list_ex js_digit q" "list_ex letter q"
    obtain x y where "x \<in> set q" "js_digit x" "y \<in> set q" "letter y" using c by (auto simp: list_ex_iff)
    then have "re_match (Seq (Star (Chr alnum)) Digit) (b, q @ '': '' @ rest, []) \<noteq> []"
      "re_match (Seq (Star (Chr alnum)) (Chr letter)) (b, q @ '': '' @ rest, []) \<noteq> []"
      using star_reaches [OF al al_end] by blast+
    then have "first_match ?long (b, q @ '': '' @ rest, []) (rev q @ b, '': '' @ rest, [])"
      by - (rule first_Seqs, rule first_Ahead, assumption, simp, rule first_Seqs, rule first_Ahead, assumption, simp,
        rule first_Seqs_last, rule first_between [OF al len al_end])
    from first_in [OF this] show ?thesis by simp
  qed
  have "reads (Seqs [Cap 1 (Alt ?short ?long), Lit '': '', Cap 2 AnyStar, AtEnd]) (q @ '': '' @ rest) [] [] [(2, rest), (1, q)]"
  proof (rule reads_class [where p = alnum])
    show "re_over alnum (Alt ?short ?long)" "cap_free (Alt ?short ?long)"
      by (auto intro: hex_alnum)
    show "list_all alnum q" by (rule al)
    show "\<not> alnum (hd '': '')" using colon_not_alnum by simp
    have "reads (Cap 2 AnyStar) rest [] [(1, q)] [(2, rest), (1, q)]"
      using reads_Cap [of AnyStar rest "[]" "[(1, q)]" "[(1, q)]" 2] reads_star_end [OF rest] by (simp del: re_match.simps)
    then show "reads (Seqs [Cap 2 AnyStar, AtEnd]) rest [] [(1, q)] [(2, rest), (1, q)]"
      by (rule reads_Seqs [OF _ reads_last [OF reads_AtEnd]])
  qed (use ex in simp_all)
  from reads_exec [OF this] show ?thesis by (simp add: QID_RE_def del: Lit.simps)
qed

definition month_name_ok :: "string \<Rightarrow> bool" where
  "month_name_ok s = (case s of [] \<Rightarrow> False | a # w \<Rightarrow> re_range (CHR ''A'') (CHR ''Z'') a \<and>
     list_all (re_range (CHR ''a'') (CHR ''z'')) w \<and> length w = 2)"

lemma month_shape:
  assumes "m < 12"
  obtains a w where "fst (MONTHS ! m) = [a] @ w" "re_range (CHR ''A'') (CHR ''Z'') a"
    "list_all (re_range (CHR ''a'') (CHR ''z'')) w \<and> length w = 2"
proof -
  have "list_all month_name_ok (map fst MONTHS)" "length MONTHS = 12" by code_simp+
  with assms have "month_name_ok (fst (MONTHS ! m))" by (simp add: list_all_length)
  then show ?thesis by (cases "fst (MONTHS ! m)") (auto simp: month_name_ok_def intro: that)
qed

lemma two_digits_shape: "n < 100 \<Longrightarrow> list_all js_digit (two_digits n) \<and> length (two_digits n) = 2"
proof -
  assume "n < 100"
  then have "length (show_nat n) \<le> 2" using length_show_nat [of n 1] by (simp add: eval_nat_numeral)
  moreover have "2 \<le> length (show_nat n)" if "\<not> n < 10" using that by (subst show_nat.simps) (simp, simp add: Suc_le_eq)
  moreover have "length (show_nat n) = 1" if "n < 10" using that by (subst show_nat.simps) simp
  moreover have "list_all js_digit (show_nat n)" using show_nat_digit by (auto simp: list_all_iff)
  ultimately show ?thesis by (auto simp: two_digits_def js_digit_def)
qed

lemma reads_stamp_day:
  assumes "list_all js_digit w \<and> 1 \<le> length w \<and> length w \<le> 2" and "s = [] \<or> \<not> js_digit (hd s)"
  shows "reads (Seqs [Between 1 2 (Lit '' ''), Cap 2 (Between 1 2 Digit)]) ((if length w = 1 then ''  '' else '' '') @ w @ s) s c ((2, w) # c)"
proof -
  have "hd w \<noteq> CHR '' ''" "w \<noteq> []" using assms(1) by (cases w; auto simp: js_digit_def)+
  then have "reads (Between 1 2 (Lit '' '')) ((if length w = 1 then ''  '' else '' '') @ w @ s) (w @ s) c c"
    by (intro readsI [where f = "\<lambda>b. (if length w = 1 then ''  '' else '' '') @ b"])
      (cases w; auto simp: first_match_def Between_def Opt_def numeral_2_eq_2)
  moreover have "reads (Cap 2 (Between 1 2 Digit)) (w @ s) s c ((2, w) # c)"
    by (rule reads_Cap, rule reads_between) (use assms in auto)
  ultimately show ?thesis by (rule reads_Seqs [OF _ reads_last])
qed

lemma last_slash_append: "CHR ''/'' \<notin> set w \<Longrightarrow> last_slash (s @ ''/'' @ w) = Some (length s)"
proof -
  assume "CHR ''/'' \<notin> set w"
  then have "takeWhile (\<lambda>c. c \<noteq> CHR ''/'') (rev (s @ ''/'' @ w)) = rev w" by (auto simp: takeWhile_append)
  then show ?thesis by (simp add: last_slash_def)
qed

lemma stamp_shapes:
  shows "\<exists>a w. stamp_month Z t = [a] @ w \<and> re_range (CHR ''A'') (CHR ''Z'') a \<and> list_all (re_range (CHR ''a'') (CHR ''z'')) w \<and> length w = 2"
    and "list_all js_digit (stamp_day Z t) \<and> 1 \<le> length (stamp_day Z t) \<and> length (stamp_day Z t) \<le> 2"
    and "\<exists>h mi s. stamp_clock Z t = h @ '':'' @ mi @ '':'' @ s \<and> list_all js_digit h \<and> length h = 2 \<and>
      list_all js_digit mi \<and> length mi = 2 \<and> list_all js_digit s \<and> length s = 2"
proof -
  let ?d = "z_local Z t div ms_per_day"
  obtain dt: "month_of_day ?d < 12" "1 \<le> date_of_day ?d" "date_of_day ?d \<le> month_days (leap_year (year_of_day ?d)) ! month_of_day ?d"
    by (rule month_of_day)
  show "\<exists>a w. stamp_month Z t = [a] @ w \<and> re_range (CHR ''A'') (CHR ''Z'') a \<and> list_all (re_range (CHR ''a'') (CHR ''z'')) w \<and> length w = 2"
    using month_shape [OF dt(1)] unfolding stamp_month_def by metis
  have "list_all (\<lambda>n. n \<le> 31) (month_days l) \<and> length (month_days l) = 12" for l by (simp add: month_days_def)
  then have "month_days l ! m \<le> 31" if "m < 12" for l m using that by (metis list_all_length)
  from order_trans [OF dt(3) this [OF dt(1)]] have "nat (date_of_day ?d) < 100" by simp
  then have "length (stamp_day Z t) \<le> 2"
    using length_show_nat [of "nat (date_of_day ?d)" 1] by (simp add: stamp_day_def eval_nat_numeral)
  moreover have "list_all js_digit (stamp_day Z t)" using show_nat_digit by (auto simp: stamp_day_def list_all_iff)
  moreover have "stamp_day Z t \<noteq> []" by (simp add: stamp_day_def)
  ultimately show "list_all js_digit (stamp_day Z t) \<and> 1 \<le> length (stamp_day Z t) \<and> length (stamp_day Z t) \<le> 2"
    by (simp add: Suc_le_eq)
  define s where "s = nat (z_local Z t mod ms_per_day div 1000)"
  have "z_local Z t mod ms_per_day < 86400000" by (simp add: ms_per_day_def)
  then have "z_local Z t mod ms_per_day div 1000 < 86400" by simp
  then have "s < 86400" by (simp add: s_def)
  then have "s div 3600 < 100" by simp
  moreover have "s div 60 mod 60 < 100" by (rule less_trans [of _ 60]) simp_all
  moreover have "s mod 60 < 100" by (rule less_trans [of _ 60]) simp_all
  ultimately show "\<exists>h mi s. stamp_clock Z t = h @ '':'' @ mi @ '':'' @ s \<and> list_all js_digit h \<and> length h = 2 \<and>
      list_all js_digit mi \<and> length mi = 2 \<and> list_all js_digit s \<and> length s = 2"
    unfolding stamp_clock_def Let_def s_def [symmetric] using two_digits_shape by blast
qed

definition line_ok :: "string \<Rightarrow> string \<Rightarrow> string \<Rightarrow> string \<Rightarrow> string \<Rightarrow> bool" where
  "line_ok host sys service pid msg \<longleftrightarrow> host \<noteq> [] \<and> list_all (\<lambda>c. \<not> js_space c) host \<and> prefix ''postfix'' sys \<and>
     list_all (\<lambda>c. re_word_char c \<or> c \<in> set ''./-'') (sys @ ''/'' @ service) \<and> CHR ''/'' \<notin> set service \<and>
     all_digits pid \<and> list_all re_dot msg"

lemma line_read:
  assumes ok: "line_ok host sys service pid msg"
    and time: "parseSyslogTime Z (stamp_month Z t) (stamp_day Z t) (stamp_clock Z t) now = Some t"
  shows "parseLine Z (log_line Z t host (sys @ ''/'' @ service) pid msg) now =
    Some \<lparr>pl_time = t, pl_service = service, pl_syslogName = sys, pl_message = msg\<rparr>"
proof -
  note ok' = ok [unfolded line_ok_def]
  obtain a w where mon: "stamp_month Z t = [a] @ w" "re_range (CHR ''A'') (CHR ''Z'') a"
    "list_all (re_range (CHR ''a'') (CHR ''z'')) w \<and> length w = 2" using stamp_shapes(1) by blast
  obtain h mi se where clk: "stamp_clock Z t = h @ '':'' @ mi @ '':'' @ se" "list_all js_digit h \<and> length h = 2"
    "list_all js_digit mi \<and> length mi = 2" "list_all js_digit se \<and> length se = 2" using stamp_shapes(3) by blast
  obtain v where sys: "sys = ''postfix'' @ v" using ok' by (auto simp: prefix_def)
  have prog: "list_all (\<lambda>c. re_word_char c \<or> c \<in> set ''./-'') (v @ ''/'' @ service)" using ok' by (simp add: sys)
  have host: "list_all (\<lambda>c. \<not> js_space c) host \<and> host \<noteq> []" and pid: "list_all js_digit pid \<and> pid \<noteq> []"
    and msg: "list_all re_dot msg" using ok' by (auto simp: all_digits_def)
  have rmon: "reads (Cap 1 (Seqs [Chr (re_range (CHR ''A'') (CHR ''Z'')), Times 2 (Chr (re_range (CHR ''a'') (CHR ''z'')))]))
      (stamp_month Z t @ s) s [] [(1, stamp_month Z t)]" for s
    by (rule reads_Cap, unfold mon(1) append_assoc, rule reads_Seqs, rule reads_Chr, rule mon(2), rule reads_last, rule reads_times [OF mon(3)])
  have rclk: "reads (Cap 3 (Seqs [Times 2 Digit, Lit '':'', Times 2 Digit, Lit '':'', Times 2 Digit])) (stamp_clock Z t @ s) s c ((3, stamp_clock Z t) # c)" for s c
    by (rule reads_Cap, unfold clk(1) append_assoc, rule reads_Seqs, rule reads_times [OF clk(2)], rule reads_Seqs, rule reads_Lit,
      rule reads_Seqs, rule reads_times [OF clk(3)], rule reads_Seqs, rule reads_Lit, rule reads_last, rule reads_times [OF clk(4)])
  have rprog: "reads (Cap 4 (Seqs [Lit ''postfix'', Star (Chr (\<lambda>c. re_word_char c \<or> c \<in> set ''./-''))]))
      ((sys @ ''/'' @ service) @ ''['' @ s) (''['' @ s) c ((4, sys @ ''/'' @ service) # c)" for s c
  proof -
    have "reads (Seqs [Lit ''postfix'', Star (Chr (\<lambda>c. re_word_char c \<or> c \<in> set ''./-''))])
        (''postfix'' @ (v @ ''/'' @ service) @ ''['' @ s) (''['' @ s) c c"
      by (rule reads_Seqs, rule reads_Lit, rule reads_last, rule reads_star [OF prog]) (simp add: re_word_char_def js_digit_def)
    then show ?thesis by (intro reads_Cap) (simp only: sys append_assoc)
  qed
  have rmsg: "reads (Cap 5 AnyStar) msg [] c ((5, msg) # c)" for c
    using reads_Cap [of AnyStar msg "[]" c c 5] reads_star_end [OF msg] by (simp del: re_match.simps)
  let ?pad = "if length (stamp_day Z t) = 1 then ''  '' else '' ''"
  have day: "reads (Seq (Between 1 2 (Lit '' '')) (Cap 2 (Between 1 2 Digit))) (?pad @ stamp_day Z t @ '' '' @ s) ('' '' @ s) c ((2, stamp_day Z t) # c)" for s c
    using reads_stamp_day [OF stamp_shapes(2) [of Z t], of "'' '' @ s" c] by (simp add: js_digit_def)
  have "reads (Seqs [Cap 1 (Seqs [Chr (re_range (CHR ''A'') (CHR ''Z'')), Times 2 (Chr (re_range (CHR ''a'') (CHR ''z'')))]),
     Between 1 2 (Lit '' ''), Cap 2 (Between 1 2 Digit), Lit '' '',
     Cap 3 (Seqs [Times 2 Digit, Lit '':'', Times 2 Digit, Lit '':'', Times 2 Digit]), Lit '' '', Plus re_space_not, Lit '' '',
     Cap 4 (Seqs [Lit ''postfix'', Star (Chr (\<lambda>c. re_word_char c \<or> c \<in> set ''./-''))]), Lit ''['', Digits, Lit '']: '', Cap 5 AnyStar, AtEnd])
     (log_line Z t host (sys @ ''/'' @ service) pid msg) [] []
     [(5, msg), (4, sys @ ''/'' @ service), (3, stamp_clock Z t), (2, stamp_day Z t), (1, stamp_month Z t)]"
    unfolding log_line_def
    by (rule reads_Seqs, rule rmon, rule reads_pair, rule day, rule reads_Seqs, rule reads_Lit, rule reads_Seqs, rule rclk,
      rule reads_Seqs, rule reads_Lit, rule reads_Seqs, rule reads_plus [OF host], simp add: js_space_def, rule reads_Seqs, rule reads_Lit,
      rule reads_Seqs, rule rprog, rule reads_Seqs, rule reads_Lit, rule reads_Seqs, rule reads_plus [OF pid], simp add: js_digit_def,
      rule reads_Seqs, rule reads_Lit, rule reads_Seqs, rule rmsg, rule reads_last, rule reads_AtEnd)
  from reads_exec [OF this] have "re_exec LINE_RE (log_line Z t host (sys @ ''/'' @ service) pid msg) =
      Some [(0, log_line Z t host (sys @ ''/'' @ service) pid msg), (5, msg), (4, sys @ ''/'' @ service),
        (3, stamp_clock Z t), (2, stamp_day Z t), (1, stamp_month Z t)]"
    by (simp only: LINE_RE_def Seqs.simps(3) [of AtStart])
  moreover have "last_slash (sys @ ''/'' @ service) = Some (length sys)" using ok' by (intro last_slash_append) simp
  moreover have "0 < length sys" by (simp add: sys)
  ultimately show ?thesis by (simp add: parseLine_def group_str_def group_def time)
qed

lemma not_noqueue: "qid_ok q \<Longrightarrow> \<not> starts_with (q @ '': '' @ s) ''NOQUEUE: ''"
proof
  assume q: "qid_ok q" and "starts_with (q @ '': '' @ s) ''NOQUEUE: ''"
  then obtain r where r: "q @ '': '' @ s = ''NOQUEUE: '' @ r" by (auto simp: starts_with_def take_eq_Nil2 prefix_def)
  have al: "list_all alnum q" using q by (auto simp: qid_ok_def list_all_iff intro: hex_alnum)
  have "takeWhile alnum (q @ '': '' @ s) = q" using al colon_not_alnum by (auto simp: list_all_iff takeWhile_append)
  moreover have "takeWhile alnum (''NOQUEUE: '' @ r) = ''NOQUEUE''" by code_simp
  ultimately have "q = ''NOQUEUE''" using r by simp
  moreover have "\<not> qid_ok ''NOQUEUE''" by code_simp
  ultimately show False using q by simp
qed

lemma event_read:
  assumes "qid_ok (dl_qid d)" and ok: "delivery_ok d x"
    and l: "pl_service l = dl_transport d" "pl_message l = dl_qid d @ '': '' @ delivery_text d x"
  shows "parseEvent l = Some (EvDelivery d)"
proof -
  have dot: "list_all re_dot (delivery_text d x)" and tr: "dl_transport d \<in> set DELIVERY_AGENTS" using ok by (simp_all add: delivery_ok_def)
  have q: "re_exec QID_RE (pl_message l) = Some [(0, pl_message l), (2, delivery_text d x), (1, dl_qid d)]"
    unfolding l(2) by (rule reads_qid [OF assms(1) dot])
  have rej: "\<not> starts_with (delivery_text d x) ''reject: ''" "\<not> starts_with (delivery_text d x) ''milter-reject: ''"
    by (simp_all add: delivery_text_def starts_with_def)
  have noq: "\<not> starts_with (pl_message l) ''NOQUEUE: ''" unfolding l(2) by (rule not_noqueue [OF assms(1)])
  have srv: "parse_service (pl_service l) (dl_qid d) (delivery_text d x) = parse_delivery (dl_transport d) (dl_qid d) (delivery_text d x)"
    using tr by (auto simp: l(1) parse_service_def DELIVERY_AGENTS_def)
  have del: "parse_delivery (dl_transport d) (dl_qid d) (delivery_text d x) = Some (EvDelivery d)"
    unfolding parse_delivery_def reads_delivery [OF ok] by (auto simp: group_str_def group_def split: option.split)
  show ?thesis using q rej noq srv del by (simp add: parseEvent_def group_str_def group_def Let_def)
qed

subsection \<open>Property\<close>

text \<open>
  C7: a delivery that Postfix logs is the delivery the server reads. The line for a delivery attempt
  at time \<open>t\<close>, read within 363 days (a leap day only within its own year), gives back the time, the
  listener, the queue id and every field of the attempt, whatever addresses, relay and reply text it
  holds that the format of the log allows.
\<close>

theorem delivery_line_read:
  assumes "fixed_zone Z off" and "z_local Z t mod 1000 = 0" and "t \<le> now" and "now < t + 363 * ms_per_day"
    and "getFullYear Z now = getFullYear Z t \<or> \<not> (stamp_month Z t = ''Feb'' \<and> stamp_day Z t = ''29'')"
    and "line_ok host sys (dl_transport d) pid (dl_qid d @ '': '' @ delivery_text d x)"
    and "qid_ok (dl_qid d)" and "delivery_ok d x"
  shows "\<exists>l. parseLine Z (log_line Z t host (sys @ ''/'' @ dl_transport d) pid (dl_qid d @ '': '' @ delivery_text d x)) now = Some l \<and>
    pl_time l = t \<and> pl_syslogName l = sys \<and> parseEvent l = Some (EvDelivery d)"
  unfolding line_read [OF assms(6) syslog_time_read [OF assms(1-5)]]
  by (simp add: event_read [OF assms(7,8)])

definition ex_zone :: zone where
  "ex_zone = \<lparr>z_local = (\<lambda>t. t + 7200000), z_utc = (\<lambda>t. t - 7200000)\<rparr>"

definition ex_delivery :: delivery where
  "ex_delivery = \<lparr>dl_qid = ''4XyZ1k2m3nz7'', dl_transport = ''smtp'', dl_to = ''bob@example.net'', dl_origTo = Some ''all@example.org'',
     dl_relay = ''mx.example.net[9.8.7.6]:25'', dl_dsn = ''2.0.0'', dl_status = ''sent'', dl_detail = Some ''250 2.0.0 Ok: queued (7)''\<rparr>"

definition ex_extra :: delivery_extra where
  "ex_extra = \<lparr>dx_connUse = Some ''2'', dx_delay = ''1.2'', dx_delays = ''0.1/0.01/0.5/0.6''\<rparr>"

theorem delivery_line_read_witness:
  "\<exists>l. parseLine ex_zone (''Dec 31 23:30:05 mail postfix/smtp[77]: 4XyZ1k2m3nz7: to=<bob@example.net>, orig_to=<all@example.org>, '' @
      ''relay=mx.example.net[9.8.7.6]:25, conn_use=2, delay=1.2, delays=0.1/0.01/0.5/0.6, dsn=2.0.0, status=sent (250 2.0.0 Ok: queued (7))'')
      1767225600000 = Some l \<and>
    pl_time l = 1767216605000 \<and> pl_syslogName l = ''postfix'' \<and> parseEvent l = Some (EvDelivery ex_delivery)"
proof -
  have "log_line ex_zone 1767216605000 ''mail'' (''postfix'' @ ''/'' @ dl_transport ex_delivery) ''77''
      (dl_qid ex_delivery @ '': '' @ delivery_text ex_delivery ex_extra) =
    ''Dec 31 23:30:05 mail postfix/smtp[77]: 4XyZ1k2m3nz7: to=<bob@example.net>, orig_to=<all@example.org>, '' @
    ''relay=mx.example.net[9.8.7.6]:25, conn_use=2, delay=1.2, delays=0.1/0.01/0.5/0.6, dsn=2.0.0, status=sent (250 2.0.0 Ok: queued (7))''"
    by code_simp
  moreover have "fixed_zone ex_zone 7200000" by (simp add: fixed_zone_def ex_zone_def)
  moreover have "line_ok ''mail'' ''postfix'' (dl_transport ex_delivery) ''77'' (dl_qid ex_delivery @ '': '' @ delivery_text ex_delivery ex_extra)"
    "qid_ok (dl_qid ex_delivery)" by code_simp+
  moreover have "delivery_ok ex_delivery ex_extra"
    by code_simp
  moreover have "getFullYear ex_zone 1767225600000 = getFullYear ex_zone 1767216605000 \<or>
      \<not> (stamp_month ex_zone 1767216605000 = ''Feb'' \<and> stamp_day ex_zone 1767216605000 = ''29'')" by code_simp
  ultimately show ?thesis
    using delivery_line_read [of ex_zone 7200000 1767216605000 1767225600000 "''mail''" "''postfix''" ex_delivery "''77''" ex_extra]
    by (simp add: ex_zone_def ms_per_day_def)
qed

end
