(* ===== verification/MailLog.thy ===== *)
theory MailLog
  imports Postfix Paging Bans
begin

text \<open>
  The mail log, \<open>apps/server/src/activity/mail-log.ts\<close>: Postfix's log lines, one by one, become a
  row per recipient of a message. \<open>mail_srv\<close> holds the table with its serial id, what is known of the
  queued messages (\<open>contexts\<close>), the cached names of the local domains and the bans. A line is
  processed before the next one is read. Decoding RFC 2047 words is a parameter, \<open>decode\<close>, None when
  it throws. \<open>log_book\<close> is the abstract view: status and attempts per queue id and recipient.
\<close>

subsection \<open>State\<close>

record message_context =
  mc_receivedAt :: time
  mc_sender :: "string option"
  mc_size :: "nat option"
  mc_messageId :: "string option"
  mc_subject :: "string option"
  mc_clientHost :: "string option"
  mc_clientIp :: "string option"
  mc_source :: "string option"
  mc_saslUser :: "string option"
  mc_touched :: time

record mail_srv =
  ms_rows :: "mail_log_row list"
  ms_nextRow :: nat
  ms_contexts :: "string \<rightharpoonup> message_context"
  ms_local :: "string list \<times> time"
  ms_domains :: "domain_row list"
  ms_bans :: bans_state

definition CONTEXT_TTL_MS :: int where "CONTEXT_TTL_MS = 6 * 86400000"

definition new_context :: "time \<Rightarrow> time \<Rightarrow> message_context" where
  "new_context t now = \<lparr>mc_receivedAt = t, mc_sender = None, mc_size = None, mc_messageId = None, mc_subject = None,
     mc_clientHost = None, mc_clientIp = None, mc_source = None, mc_saslUser = None, mc_touched = now\<rparr>"

definition msg_context :: "string \<Rightarrow> time \<Rightarrow> time \<Rightarrow> mail_srv \<Rightarrow> message_context" where
  "msg_context qid t now s = (case ms_contexts s qid of
     None \<Rightarrow> new_context t now
   | Some c \<Rightarrow> c\<lparr>mc_touched := now\<rparr>)"

definition put_context :: "string \<Rightarrow> message_context \<Rightarrow> mail_srv \<Rightarrow> mail_srv" where
  "put_context qid c s = s\<lparr>ms_contexts := (ms_contexts s)(qid \<mapsto> c)\<rparr>"

definition drop_context :: "string \<Rightarrow> mail_srv \<Rightarrow> mail_srv" where
  "drop_context qid s = s\<lparr>ms_contexts := (ms_contexts s)(qid := None)\<rparr>"

definition pruneContexts :: "time \<Rightarrow> mail_srv \<Rightarrow> mail_srv" where
  "pruneContexts now s = s\<lparr>ms_contexts := (\<lambda>q. case ms_contexts s q of
     None \<Rightarrow> None
   | Some c \<Rightarrow> if mc_touched c < now - CONTEXT_TTL_MS then None else Some c)\<rparr>"

definition isLocalAddress :: "string \<Rightarrow> time \<Rightarrow> mail_srv \<Rightarrow> bool \<times> mail_srv" where
  "isLocalAddress address now s =
     (let s' = (if now - snd (ms_local s) > 60000
                then s\<lparr>ms_local := (map (js_lower \<circ> dom_name) (ms_domains s), now)\<rparr> else s)
      in (js_lower (after_last (CHR ''@'') address) \<in> set (fst (ms_local s')), s'))"

definition rejectDirection :: "string \<Rightarrow> string \<Rightarrow> time \<Rightarrow> mail_srv \<Rightarrow> mail_direction \<times> mail_srv" where
  "rejectDirection rcpt source now s =
     (let (loc, s') = (if rcpt \<noteq> [] then isLocalAddress rcpt now s else (False, s))
      in (if loc then DirIn
          else if source = ''smtp'' then (if rcpt \<noteq> [] then DirRelay else DirIn)
          else DirOut, s'))"

definition folded_re :: re where
  "folded_re = Seqs [Lit ''?=?'', Star (Chr js_space), Lit ''=?'']"

definition folded_space_re :: re where
  "folded_space_re = Seqs [Lit ''?'', Plus (Chr js_space)]"

definition cleanSubject :: "(string \<Rightarrow> string option) \<Rightarrow> string \<Rightarrow> string" where
  "cleanSubject decode raw =
     (let unfolded = re_replace_all folded_space_re (\<lambda>_ _. '' '') (re_replace_all folded_re (\<lambda>_ _. ''?==?'') raw)
      in take 500 (case decode unfolded of None \<Rightarrow> unfolded | Some d \<Rightarrow> d))"

definition deliveryStatus :: "string \<Rightarrow> string \<Rightarrow> mail_log_status option" where
  "deliveryStatus status transport =
     (if status = ''sent'' then Some (if transport \<in> {''lmtp'', ''virtual'', ''local''} then Delivered else Sent)
      else if status = ''deferred'' then Some Deferred
      else if status = ''bounced'' then Some Bounced
      else if status = ''expired'' then Some Expired
      else None)"

subsection \<open>The table\<close>

record upsert =
  up_queueId :: "string option"
  up_recipient :: string
  up_direction :: mail_direction
  up_status :: mail_log_status
  up_ctx :: "message_context option"
  up_sender :: "string option"
  up_origRecipient :: "string option"
  up_relay :: "string option"
  up_dsn :: "string option"
  up_detail :: "string option"
  up_source :: "string option"
  up_clientHost :: "string option"
  up_clientIp :: "string option"
  up_at :: time

definition coalesce :: "'a option \<Rightarrow> 'a option \<Rightarrow> 'a option" where
  "coalesce a b = (case a of None \<Rightarrow> b | Some x \<Rightarrow> Some x)"

definition ctx_field :: "(message_context \<Rightarrow> 'a option) \<Rightarrow> message_context option \<Rightarrow> 'a option" where
  \<comment> \<open>\<open>c?.field ?? null\<close>\<close>
  "ctx_field f c = (case c of None \<Rightarrow> None | Some x \<Rightarrow> f x)"

definition cut_opt :: "nat \<Rightarrow> string option \<Rightarrow> string option" where
  "cut_opt n = map_option (take n)"

definition excluded :: "upsert \<Rightarrow> nat \<Rightarrow> mail_log_row" where
  \<comment> \<open>the row of the VALUES clause; \<open>attempts\<close> is the default of the column\<close>
  "excluded u i = (let c = up_ctx u in \<lparr>
     ml_id = i, ml_queueId = up_queueId u, ml_messageId = cut_opt 512 (ctx_field mc_messageId c), ml_direction = up_direction u,
     ml_status = up_status u, ml_sender = take 254 (case coalesce (up_sender u) (ctx_field mc_sender c) of None \<Rightarrow> [] | Some a \<Rightarrow> a),
     ml_recipient = take 254 (up_recipient u), ml_origRecipient = cut_opt 254 (up_origRecipient u),
     ml_subject = ctx_field mc_subject c, ml_size = ctx_field mc_size c,
     ml_clientHost = cut_opt 255 (coalesce (up_clientHost u) (ctx_field mc_clientHost c)),
     ml_clientIp = cut_opt 64 (coalesce (up_clientIp u) (ctx_field mc_clientIp c)),
     ml_source = coalesce (up_source u) (ctx_field mc_source c), ml_saslUser = cut_opt 254 (ctx_field mc_saslUser c),
     ml_relay = cut_opt 255 (up_relay u), ml_dsn = up_dsn u, ml_detail = up_detail u, ml_attempts = 1,
     ml_createdAt = (case c of None \<Rightarrow> up_at u | Some x \<Rightarrow> mc_receivedAt x), ml_updatedAt = up_at u\<rparr>)"

definition on_conflict :: "mail_log_row \<Rightarrow> mail_log_row \<Rightarrow> mail_log_row" where
  \<comment> \<open>\<open>DO UPDATE SET\<close>, of the row that is there and the one that was to be inserted\<close>
  "on_conflict x r = r\<lparr>ml_status := ml_status x, ml_relay := ml_relay x, ml_dsn := ml_dsn x, ml_detail := ml_detail x,
     ml_attempts := ml_attempts r + 1, ml_updatedAt := ml_updatedAt x,
     ml_messageId := coalesce (ml_messageId r) (ml_messageId x), ml_subject := coalesce (ml_subject r) (ml_subject x),
     ml_size := coalesce (ml_size r) (ml_size x), ml_clientHost := coalesce (ml_clientHost r) (ml_clientHost x),
     ml_clientIp := coalesce (ml_clientIp r) (ml_clientIp x), ml_saslUser := coalesce (ml_saslUser r) (ml_saslUser x)\<rparr>"

definition same_delivery :: "mail_log_row \<Rightarrow> mail_log_row \<Rightarrow> bool" where
  \<comment> \<open>the unique index on (queue_id, recipient), in which a null is equal to nothing\<close>
  "same_delivery x r \<longleftrightarrow> ml_queueId x \<noteq> None \<and> ml_queueId r = ml_queueId x \<and> ml_recipient r = ml_recipient x"

definition upsert_row :: "upsert \<Rightarrow> mail_srv \<Rightarrow> mail_srv" where
  \<comment> \<open>an id is taken from the sequence in either case\<close>
  "upsert_row u s =
     (let x = excluded u (ms_nextRow s)
      in s\<lparr>ms_rows := (if list_ex (same_delivery x) (ms_rows s) then update_where (same_delivery x) (on_conflict x) (ms_rows s)
                       else ms_rows s @ [x]),
           ms_nextRow := Suc (ms_nextRow s)\<rparr>)"

definition contextFromDb :: "string \<Rightarrow> time \<Rightarrow> mail_srv \<Rightarrow> message_context option \<times> mail_srv" where
  \<comment> \<open>called when there is no context; the rows are in the order of their ids\<close>
  "contextFromDb qid t s = (case find (\<lambda>r. ml_queueId r = Some qid) (ms_rows s) of
     None \<Rightarrow> (None, s)
   | Some r \<Rightarrow>
       (let c = \<lparr>mc_receivedAt = ml_createdAt r, mc_sender = Some (ml_sender r), mc_size = ml_size r,
              mc_messageId = ml_messageId r, mc_subject = ml_subject r, mc_clientHost = ml_clientHost r,
              mc_clientIp = ml_clientIp r, mc_source = ml_source r, mc_saslUser = ml_saslUser r, mc_touched = t\<rparr>
        in (Some c, put_context qid c s)))"

definition set_status :: "string \<Rightarrow> mail_log_status \<Rightarrow> time \<Rightarrow> mail_srv \<Rightarrow> mail_srv" where
  "set_status qid st t s = s\<lparr>ms_rows := update_where (\<lambda>r. ml_queueId r = Some qid \<and> ml_status r = Deferred)
     (\<lambda>r. r\<lparr>ml_status := st, ml_updatedAt := t\<rparr>) (ms_rows s)\<rparr>"
subsection \<open>Events\<close>

definition apply_delivery :: "delivery \<Rightarrow> time \<Rightarrow> time \<Rightarrow> mail_srv \<Rightarrow> mail_srv" where
  "apply_delivery d t now s = (case deliveryStatus (dl_status d) (dl_transport d) of
     None \<Rightarrow> s
   | Some st \<Rightarrow>
       (let (ctx, s1) = (case ms_contexts s (dl_qid d) of Some c \<Rightarrow> (Some c, s) | None \<Rightarrow> contextFromDb (dl_qid d) t s);
            (loc, s2) = (if dl_transport d = ''lmtp'' then (True, s1) else isLocalAddress (dl_to d) now s1)
        in upsert_row \<lparr>up_queueId = Some (dl_qid d), up_recipient = dl_to d, up_direction = (if loc then DirIn else DirOut),
             up_status = st, up_ctx = ctx, up_sender = None, up_origRecipient = dl_origTo d,
             up_relay = (if dl_relay d = ''none'' then None else Some (dl_relay d)), up_dsn = Some (dl_dsn d),
             up_detail = dl_detail d, up_source = None, up_clientHost = None, up_clientIp = None, up_at = t\<rparr> s2))"

definition apply_reject :: "rejection \<Rightarrow> time \<Rightarrow> time \<Rightarrow> string \<Rightarrow> mail_srv \<Rightarrow> mail_srv" where
  "apply_reject r t now syslogName s =
     (let rcpt = (case rj_to r of None \<Rightarrow> [] | Some a \<Rightarrow> a);
          ctx = (case rj_qid r of None \<Rightarrow> None | Some q \<Rightarrow> if q = [] then None else ms_contexts s q);
          source = (case ctx_field mc_source ctx of None \<Rightarrow> sourceOf syslogName | Some x \<Rightarrow> x);
          (dir, s1) = rejectDirection rcpt source now s
      in upsert_row \<lparr>up_queueId = rj_qid r, up_recipient = rcpt, up_direction = dir, up_status = Rejected, up_ctx = ctx,
           up_sender = Some (rj_from r), up_origRecipient = None, up_relay = None, up_dsn = rj_dsn r,
           up_detail = Some (rj_stage r @ '': '' @ rj_detail r), up_source = Some source, up_clientHost = Some (rj_clientHost r),
           up_clientIp = Some (rj_clientIp r), up_at = t\<rparr> s1)"

definition apply_event :: "(string \<Rightarrow> string option) \<Rightarrow> postfix_event \<Rightarrow> time \<Rightarrow> string \<Rightarrow> time \<Rightarrow> mail_srv \<Rightarrow> mail_srv" where
  "apply_event decode e t syslogName now s = (case e of
     EvClient q host ip user \<Rightarrow> put_context q ((msg_context q t now s)\<lparr>mc_clientHost := Some host, mc_clientIp := Some ip,
       mc_saslUser := user, mc_source := Some (sourceOf syslogName), mc_receivedAt := t\<rparr>) s
   | EvPickup q sender \<Rightarrow> put_context q ((msg_context q t now s)\<lparr>mc_sender := Some sender, mc_source := Some ''local'', mc_receivedAt := t\<rparr>) s
   | EvMessageId q i \<Rightarrow> put_context q ((msg_context q t now s)\<lparr>mc_messageId := Some i\<rparr>) s
   | EvSubject q subj \<Rightarrow> (let c = msg_context q t now s
       in put_context q (c\<lparr>mc_subject := coalesce (mc_subject c) (Some (cleanSubject decode subj))\<rparr>) s)
   | EvQueued q sender sz _ \<Rightarrow> put_context q ((msg_context q t now s)\<lparr>mc_sender := Some sender, mc_size := Some sz\<rparr>) s
   | EvRemoved q \<Rightarrow> drop_context q s
   | EvExpired q \<Rightarrow> set_status q Expired t s
   | EvDeleted q \<Rightarrow> set_status q Deleted t (drop_context q s)
   | EvDelivery d \<Rightarrow> apply_delivery d t now s
   | EvReject r \<Rightarrow> apply_reject r t now syslogName s)"

definition BAN_REJECT_RE :: re where
  "BAN_REJECT_RE = Seqs [Lit ''reject: '', Plus (Chr re_word_char), Lit '' from '', Star (NotIn ''[''), Lit ''['',
     Cap 1 (Plus (NotIn '']'')), Lit '']'', AnyStar, Lit ''blocked after repeated failed sign-ins'']"

definition ingestPostfixLine ::
    "zone \<Rightarrow> (string \<Rightarrow> string option) \<Rightarrow> pg_inet_ops \<Rightarrow> string \<Rightarrow> time \<Rightarrow> mail_srv \<Rightarrow> mail_srv" where
  "ingestPostfixLine Z decode PG line now s = (case parseLine Z line now of
     None \<Rightarrow> s
   | Some l \<Rightarrow>
       (let s1 = (case re_exec BAN_REJECT_RE (pl_message l) of
              None \<Rightarrow> s
            | Some m \<Rightarrow> s\<lparr>ms_bans := recordBanHit PG (group_str m 1) now (ms_bans s)\<rparr>)
        in (case parseEvent l of None \<Rightarrow> s1 | Some e \<Rightarrow> apply_event decode e (pl_time l) (pl_syslogName l) now s1)))"

subsection \<open>Listing\<close>

record mail_log_entry =
  mle_id :: string
  mle_queueId :: "string option"
  mle_messageId :: "string option"
  mle_direction :: mail_direction
  mle_status :: mail_log_status
  mle_sender :: string
  mle_recipient :: string
  mle_origRecipient :: "string option"
  mle_subject :: "string option"
  mle_size :: "nat option"
  mle_clientHost :: "string option"
  mle_clientIp :: "string option"
  mle_source :: "string option"
  mle_saslUser :: "string option"
  mle_relay :: "string option"
  mle_dsn :: "string option"
  mle_detail :: "string option"
  mle_attempts :: nat
  mle_firstAt :: time
  mle_lastAt :: time

definition toMailLogDto :: "mail_log_row \<Rightarrow> mail_log_entry" where
  "toMailLogDto r = \<lparr>mle_id = show_nat (ml_id r), mle_queueId = ml_queueId r, mle_messageId = ml_messageId r,
     mle_direction = ml_direction r, mle_status = ml_status r, mle_sender = ml_sender r, mle_recipient = ml_recipient r,
     mle_origRecipient = ml_origRecipient r, mle_subject = ml_subject r, mle_size = ml_size r,
     mle_clientHost = ml_clientHost r, mle_clientIp = ml_clientIp r, mle_source = ml_source r, mle_saslUser = ml_saslUser r,
     mle_relay = ml_relay r, mle_dsn = ml_dsn r, mle_detail = ml_detail r, mle_attempts = ml_attempts r,
     mle_firstAt = ml_createdAt r, mle_lastAt = ml_updatedAt r\<rparr>"

datatype direction_filter = AllDirections | OnlyDirection mail_direction

datatype status_filter = Problems | OnlyStatus mail_log_status

record mail_filter =
  mf_direction :: "direction_filter option"
  mf_status :: "status_filter option"
  mf_q :: "string option"

definition opt_matches :: "(string \<Rightarrow> bool) \<Rightarrow> string option \<Rightarrow> bool" where
  \<comment> \<open>a comparison with null is not true\<close>
  "opt_matches p v = (case v of None \<Rightarrow> False | Some x \<Rightarrow> p x)"

definition mail_matches :: "mail_filter \<Rightarrow> mail_log_row \<Rightarrow> bool" where
  "mail_matches f r \<longleftrightarrow>
     (case mf_direction f of None \<Rightarrow> ml_direction r \<noteq> DirRelay | Some AllDirections \<Rightarrow> True | Some (OnlyDirection d) \<Rightarrow> ml_direction r = d) \<and>
     (case mf_status f of None \<Rightarrow> True | Some Problems \<Rightarrow> ml_status r \<in> {Deferred, Bounced, Expired} | Some (OnlyStatus st) \<Rightarrow> ml_status r = st) \<and>
     (case mf_q f of None \<Rightarrow> True | Some q0 \<Rightarrow> q0 = [] \<or> (let q = js_trim q0; p = likePattern q
        in ilike p (ml_sender r) \<or> ilike p (ml_recipient r) \<or> opt_matches (ilike p) (ml_origRecipient r) \<or>
           opt_matches (ilike p) (ml_subject r) \<or> opt_matches (ilike p) (ml_messageId r) \<or> ml_queueId r = Some q \<or>
           opt_matches (like_match (q @ ''%'')) (ml_clientIp r)))"

definition listMailLog :: "mail_filter \<Rightarrow> nat \<Rightarrow> string option \<Rightarrow> mail_log_row list \<Rightarrow> mail_log_entry page" where
  "listMailLog f limit before rows =
     pageOf ml_id (take (limit + 1)
       (filter (\<lambda>r. mail_matches f r \<and> (case before of None \<Rightarrow> True | Some b \<Rightarrow> ml_id r < nat_of_digits b)) (rev rows)))
       limit toMailLogDto"

interpretation mail_pages: paged_list ml_id toMailLogDto listMailLog mail_matches
  by unfold_locales (simp add: listMailLog_def page_of_rows_def before_cursor_def)

subsection \<open>The book of deliveries\<close>

text \<open>What the log promises: for each queue id and recipient the status and the number of attempts.\<close>

type_synonym log_book = "string \<times> string \<rightharpoonup> mail_log_status \<times> nat"

definition note_attempt :: "string \<Rightarrow> string \<Rightarrow> mail_log_status \<Rightarrow> log_book \<Rightarrow> log_book" where
  "note_attempt q rcpt st b = b((q, take 254 rcpt) \<mapsto> (st, case b (q, take 254 rcpt) of None \<Rightarrow> 1 | Some (_, n) \<Rightarrow> Suc n))"

definition end_deferred :: "string \<Rightarrow> mail_log_status \<Rightarrow> log_book \<Rightarrow> log_book" where
  "end_deferred q st b = (\<lambda>k. case b k of
     Some (x, n) \<Rightarrow> Some (if fst k = q \<and> x = Deferred then st else x, n)
   | None \<Rightarrow> None)"

definition book_step :: "postfix_event \<Rightarrow> log_book \<Rightarrow> log_book" where
  "book_step e b = (case e of
     EvDelivery d \<Rightarrow> (case deliveryStatus (dl_status d) (dl_transport d) of
       None \<Rightarrow> b | Some st \<Rightarrow> note_attempt (dl_qid d) (dl_to d) st b)
   | EvReject r \<Rightarrow> (case rj_qid r of
       None \<Rightarrow> b | Some q \<Rightarrow> note_attempt q (case rj_to r of None \<Rightarrow> [] | Some a \<Rightarrow> a) Rejected b)
   | EvExpired q \<Rightarrow> end_deferred q Expired b
   | EvDeleted q \<Rightarrow> end_deferred q Deleted b
   | _ \<Rightarrow> b)"

definition book_of :: "mail_log_row list \<Rightarrow> log_book" where
  "book_of rows = (\<lambda>(q, rcpt). map_option (\<lambda>r. (ml_status r, ml_attempts r))
     (find (\<lambda>r. ml_queueId r = Some q \<and> ml_recipient r = rcpt) rows))"

definition log_ok :: "mail_srv \<Rightarrow> bool" where
  "log_ok s \<longleftrightarrow> sorted_wrt (\<lambda>r r'. ml_id r < ml_id r') (ms_rows s) \<and> (\<forall>r \<in> set (ms_rows s). ml_id r < ms_nextRow s \<and> 1 \<le> ml_attempts r) \<and>
     distinct (map (\<lambda>r. (ml_queueId r, ml_recipient r)) (filter (\<lambda>r. ml_queueId r \<noteq> None) (ms_rows s)))"

subsection \<open>Refinement\<close>

lemma find_update_where:
  "(\<And>r. P (f r) = P r) \<Longrightarrow> find P (update_where C f rows) = map_option (\<lambda>r. if C r then f r else r) (find P rows)"
  by (induction rows) (auto simp: update_where_def)

lemma conflict_key [simp]:
  "ml_queueId (on_conflict x r) = ml_queueId r" "ml_recipient (on_conflict x r) = ml_recipient r" "ml_id (on_conflict x r) = ml_id r"
  "ml_status (on_conflict x r) = ml_status x" "ml_attempts (on_conflict x r) = Suc (ml_attempts r)"
  by (simp_all add: on_conflict_def)

lemma excluded_key [simp]:
  "ml_queueId (excluded u i) = up_queueId u" "ml_recipient (excluded u i) = take 254 (up_recipient u)" "ml_id (excluded u i) = i"
  "ml_status (excluded u i) = up_status u" "ml_attempts (excluded u i) = 1"
  by (simp_all add: excluded_def Let_def)

lemma book_upsert:
  "book_of (ms_rows (upsert_row u s)) = (case up_queueId u of
     None \<Rightarrow> book_of (ms_rows s)
   | Some q \<Rightarrow> note_attempt q (up_recipient u) (up_status u) (book_of (ms_rows s)))"
proof (cases "up_queueId u")
  case None
  then have "\<not> list_ex (same_delivery (excluded u (ms_nextRow s))) (ms_rows s)"
    by (simp add: same_delivery_def list_ex_iff)
  with None show ?thesis by (auto simp: upsert_row_def Let_def book_of_def find_append split: option.split)
next
  case (Some q)
  let ?x = "excluded u (ms_nextRow s)"
  have C: "same_delivery ?x r \<longleftrightarrow> ml_queueId r = Some q \<and> ml_recipient r = take 254 (up_recipient u)" for r
    by (auto simp: same_delivery_def Some)
  show ?thesis
  proof (cases "list_ex (same_delivery ?x) (ms_rows s)")
    case True
    then obtain r where r: "find (\<lambda>r. ml_queueId r = Some q \<and> ml_recipient r = take 254 (up_recipient u)) (ms_rows s) = Some r"
      by (cases "find (\<lambda>r. ml_queueId r = Some q \<and> ml_recipient r = take 254 (up_recipient u)) (ms_rows s)")
        (auto simp: list_ex_iff C find_None_iff)
    have "book_of (update_where (same_delivery ?x) (on_conflict ?x) (ms_rows s)) k =
        note_attempt q (up_recipient u) (up_status u) (book_of (ms_rows s)) k" for k
    proof (cases k)
      case (Pair a b)
      show ?thesis
      proof (cases "find (\<lambda>r. ml_queueId r = Some a \<and> ml_recipient r = b) (ms_rows s)")
        case None
        with Pair r show ?thesis by (auto simp: book_of_def note_attempt_def find_update_where C)
      next
        case (Some r')
        with Pair r show ?thesis
          by (auto simp: book_of_def note_attempt_def find_update_where C dest: find_SomeD)
      qed
    qed
    with True Some show ?thesis by (simp add: upsert_row_def Let_def) blast
  next
    case False
    then have "find (\<lambda>r. ml_queueId r = Some q \<and> ml_recipient r = take 254 (up_recipient u)) (ms_rows s) = None"
      by (auto simp: list_ex_iff C find_None_iff)
    with False Some show ?thesis
      by (auto simp: upsert_row_def Let_def book_of_def note_attempt_def find_append fun_eq_iff split: option.split)
  qed
qed

lemma log_ok_upsert: "log_ok s \<Longrightarrow> log_ok (upsert_row u s)"
proof -
  assume ok: "log_ok s"
  let ?x = "excluded u (ms_nextRow s)" and ?rows = "ms_rows s"
  show "log_ok (upsert_row u s)"
  proof (cases "list_ex (same_delivery ?x) ?rows")
    case True
    have keys: "map (\<lambda>r. (ml_queueId r, ml_recipient r)) (filter (\<lambda>r. ml_queueId r \<noteq> None) (update_where (same_delivery ?x) (on_conflict ?x) rs)) =
        map (\<lambda>r. (ml_queueId r, ml_recipient r)) (filter (\<lambda>r. ml_queueId r \<noteq> None) rs)" for rs
      by (induction rs) (auto simp: update_where_def)
    have "sorted_wrt (\<lambda>r r'. ml_id r < ml_id r') (update_where (same_delivery ?x) (on_conflict ?x) ?rows)"
      using ok unfolding log_ok_def update_where_def sorted_wrt_map by (elim conjE) (erule sorted_wrt_mono_rel [rotated], auto)
    with True ok keys [of ?rows] show ?thesis
      by (auto simp: log_ok_def upsert_row_def Let_def set_update_where intro: less_SucI)
  next
    case False
    have "\<not> (ml_queueId r = up_queueId u \<and> ml_recipient r = take 254 (up_recipient u))"
      if "up_queueId u \<noteq> None" "r \<in> set ?rows" for r
      using False that by (auto simp: list_ex_iff same_delivery_def)
    then have "(up_queueId u, take 254 (up_recipient u)) \<notin> (\<lambda>r. (ml_queueId r, ml_recipient r)) ` set ?rows"
      if "up_queueId u \<noteq> None" using that by force
    with False ok show ?thesis
      by (auto simp: log_ok_def upsert_row_def Let_def sorted_wrt_append intro: less_SucI simp del: not_None_eq)
  qed
qed

lemma table_kept [simp]:
  "ms_rows (put_context q c s) = ms_rows s" "ms_nextRow (put_context q c s) = ms_nextRow s"
  "ms_rows (drop_context q s) = ms_rows s" "ms_nextRow (drop_context q s) = ms_nextRow s"
  "ms_rows (snd (contextFromDb q t s)) = ms_rows s" "ms_nextRow (snd (contextFromDb q t s)) = ms_nextRow s"
  "ms_rows (snd (isLocalAddress a now s)) = ms_rows s" "ms_nextRow (snd (isLocalAddress a now s)) = ms_nextRow s"
  "ms_rows (snd (rejectDirection a src now s)) = ms_rows s" "ms_nextRow (snd (rejectDirection a src now s)) = ms_nextRow s"
  "ms_nextRow (set_status q st t s) = ms_nextRow s"
  by (auto simp: put_context_def drop_context_def contextFromDb_def isLocalAddress_def rejectDirection_def set_status_def
      Let_def case_prod_unfold split: option.split)

lemma log_ok_cong: "ms_rows s' = ms_rows s \<Longrightarrow> ms_nextRow s' = ms_nextRow s \<Longrightarrow> log_ok s' = log_ok s"
  by (simp add: log_ok_def)

lemma log_ok_kept [simp]:
  "log_ok (put_context q c s) = log_ok s" "log_ok (drop_context q s) = log_ok s" "log_ok (s\<lparr>ms_bans := b\<rparr>) = log_ok s"
  "log_ok (snd (rejectDirection a src now s)) = log_ok s"
  by (rule log_ok_cong; simp)+

lemma book_set_status: "book_of (ms_rows (set_status q st t s)) = end_deferred q st (book_of (ms_rows s))"
proof (rule ext, clarify)
  fix a b
  show "book_of (ms_rows (set_status q st t s)) (a, b) = end_deferred q st (book_of (ms_rows s)) (a, b)"
  proof (cases "find (\<lambda>r. ml_queueId r = Some a \<and> ml_recipient r = b) (ms_rows s)")
    case None
    then show ?thesis by (simp add: set_status_def book_of_def end_deferred_def find_update_where)
  next
    case (Some r)
    then show ?thesis
      using find_SomeD [OF Some] by (auto simp: set_status_def book_of_def end_deferred_def find_update_where)
  qed
qed

lemma log_ok_set_status: "log_ok s \<Longrightarrow> log_ok (set_status q st t s)"
proof -
  assume ok: "log_ok s"
  let ?C = "\<lambda>r. ml_queueId r = Some q \<and> ml_status r = Deferred" and ?f = "\<lambda>r. r\<lparr>ml_status := st, ml_updatedAt := t\<rparr>"
  have keys: "map (\<lambda>r. (ml_queueId r, ml_recipient r)) (filter (\<lambda>r. ml_queueId r \<noteq> None) (update_where ?C ?f rs)) =
      map (\<lambda>r. (ml_queueId r, ml_recipient r)) (filter (\<lambda>r. ml_queueId r \<noteq> None) rs)" for rs
    by (induction rs) (auto simp: update_where_def)
  have "sorted_wrt (\<lambda>r r'. ml_id r < ml_id r') (update_where ?C ?f (ms_rows s))"
    using ok unfolding log_ok_def update_where_def sorted_wrt_map by (elim conjE) (erule sorted_wrt_mono_rel [rotated], auto)
  with ok keys [of "ms_rows s"] show ?thesis
    by (auto simp: log_ok_def set_status_def set_update_where)
qed

lemma delivery_refines:
  "book_of (ms_rows (apply_delivery d t now s)) = book_step (EvDelivery d) (book_of (ms_rows s))"
  "log_ok s \<Longrightarrow> log_ok (apply_delivery d t now s)"
proof -
  let ?c = "case ms_contexts s (dl_qid d) of Some c \<Rightarrow> (Some c, s) | None \<Rightarrow> contextFromDb (dl_qid d) t s"
  let ?l = "if dl_transport d = ''lmtp'' then (True, snd ?c) else isLocalAddress (dl_to d) now (snd ?c)"
  have kept: "ms_rows (snd ?l) = ms_rows s" "ms_nextRow (snd ?l) = ms_nextRow s" by (auto split: option.split)
  have form: "\<exists>u. up_queueId u = Some (dl_qid d) \<and> up_recipient u = dl_to d \<and> up_status u = st \<and>
      apply_delivery d t now s = upsert_row u (snd ?l)" if "deliveryStatus (dl_status d) (dl_transport d) = Some st" for st
    by (rule exI [of _ "\<lparr>up_queueId = Some (dl_qid d), up_recipient = dl_to d, up_direction = (if fst ?l then DirIn else DirOut),
          up_status = st, up_ctx = fst ?c, up_sender = None, up_origRecipient = dl_origTo d,
          up_relay = (if dl_relay d = ''none'' then None else Some (dl_relay d)), up_dsn = Some (dl_dsn d),
          up_detail = dl_detail d, up_source = None, up_clientHost = None, up_clientIp = None, up_at = t\<rparr>"])
      (simp add: apply_delivery_def that Let_def case_prod_unfold)
  have none: "apply_delivery d t now s = s" if "deliveryStatus (dl_status d) (dl_transport d) = None"
    by (simp add: apply_delivery_def that)
  show "book_of (ms_rows (apply_delivery d t now s)) = book_step (EvDelivery d) (book_of (ms_rows s))"
    using form none by (cases "deliveryStatus (dl_status d) (dl_transport d)") (force simp: book_step_def book_upsert kept)+
  show "log_ok s \<Longrightarrow> log_ok (apply_delivery d t now s)"
    using form none log_ok_upsert log_ok_cong [OF kept]
    by (cases "deliveryStatus (dl_status d) (dl_transport d)") force+
qed

lemma reject_refines:
  "book_of (ms_rows (apply_reject r t now n s)) = book_step (EvReject r) (book_of (ms_rows s))"
  "log_ok s \<Longrightarrow> log_ok (apply_reject r t now n s)"
  by (cases "rj_qid r"; simp add: apply_reject_def Let_def case_prod_unfold book_upsert book_step_def)
    (simp add: apply_reject_def Let_def case_prod_unfold log_ok_upsert)

lemma event_refines:
  "book_of (ms_rows (apply_event decode e t n now s)) = book_step e (book_of (ms_rows s))"
  "log_ok s \<Longrightarrow> log_ok (apply_event decode e t n now s)"
proof -
  show "book_of (ms_rows (apply_event decode e t n now s)) = book_step e (book_of (ms_rows s))"
    by (cases e) (simp_all add: apply_event_def delivery_refines(1) reject_refines(1) book_set_status, simp_all add: book_step_def Let_def)
  assume "log_ok s"
  then show "log_ok (apply_event decode e t n now s)"
    by (cases e) (simp_all add: apply_event_def delivery_refines(2) reject_refines(2) log_ok_set_status Let_def)
qed

definition empty_log :: mail_srv where
  "empty_log = \<lparr>ms_rows = [], ms_nextRow = 1, ms_contexts = (\<lambda>_. None), ms_local = ([], 0), ms_domains = [],
     ms_bans = \<lparr>bs_rows = [], bs_nextId = 1, bs_allowSetting = Missing, bs_allowCache = None,
       bs_banCache = None, bs_evaluating = [], bs_online = True\<rparr>\<rparr>"

text \<open>What the lines stand for, in order, and reading them one after the other.\<close>

definition line_event :: "zone \<Rightarrow> time \<times> string \<Rightarrow> postfix_event option" where
  "line_event Z = (\<lambda>(now, line). Option.bind (parseLine Z line now) parseEvent)"

definition ingest_all ::
    "zone \<Rightarrow> (string \<Rightarrow> string option) \<Rightarrow> pg_inet_ops \<Rightarrow> (time \<times> string) list \<Rightarrow> mail_srv \<Rightarrow> mail_srv" where
  "ingest_all Z decode PG lines s = foldl (\<lambda>s (now, line). ingestPostfixLine Z decode PG line now s) s lines"

lemma ingest_refines:
  "book_of (ms_rows (ingestPostfixLine Z decode PG line now s)) =
     (case line_event Z (now, line) of None \<Rightarrow> book_of (ms_rows s) | Some e \<Rightarrow> book_step e (book_of (ms_rows s)))"
  "log_ok s \<Longrightarrow> log_ok (ingestPostfixLine Z decode PG line now s)"
  by (auto simp: ingestPostfixLine_def line_event_def Let_def event_refines
      split: option.split)

subsection \<open>A restart between two deliveries\<close>

definition forget_contexts :: "mail_srv \<Rightarrow> mail_srv" where
  "forget_contexts s = s\<lparr>ms_contexts := (\<lambda>_. None)\<rparr>"

definition delivery_upsert :: "delivery \<Rightarrow> mail_log_status \<Rightarrow> time \<Rightarrow> message_context option \<Rightarrow> bool \<Rightarrow> upsert" where
  "delivery_upsert d st t ctx loc = \<lparr>up_queueId = Some (dl_qid d), up_recipient = dl_to d, up_direction = (if loc then DirIn else DirOut),
     up_status = st, up_ctx = ctx, up_sender = None, up_origRecipient = dl_origTo d,
     up_relay = (if dl_relay d = ''none'' then None else Some (dl_relay d)), up_dsn = Some (dl_dsn d),
     up_detail = dl_detail d, up_source = None, up_clientHost = None, up_clientIp = None, up_at = t\<rparr>"

abbreviation delivered_here :: "delivery \<Rightarrow> time \<Rightarrow> mail_srv \<Rightarrow> bool \<times> mail_srv" where
  "delivered_here d now s \<equiv> (if dl_transport d = ''lmtp'' then (True, s) else isLocalAddress (dl_to d) now s)"

lemma apply_delivery_context:
  "deliveryStatus (dl_status d) (dl_transport d) = Some st \<Longrightarrow> ms_contexts s (dl_qid d) = Some c \<Longrightarrow>
    apply_delivery d t now s = upsert_row (delivery_upsert d st t (Some c) (fst (delivered_here d now s))) (snd (delivered_here d now s))"
  by (simp add: apply_delivery_def delivery_upsert_def Let_def case_prod_unfold)

lemma apply_delivery_db:
  "deliveryStatus (dl_status d) (dl_transport d) = Some st \<Longrightarrow> ms_contexts s (dl_qid d) = None \<Longrightarrow>
    contextFromDb (dl_qid d) t s = (Some c, s1) \<Longrightarrow>
    apply_delivery d t now s = upsert_row (delivery_upsert d st t (Some c) (fst (delivered_here d now s1))) (snd (delivered_here d now s1))"
  by (simp add: apply_delivery_def delivery_upsert_def Let_def case_prod_unfold)

lemma isLocalAddress_frame:
  "fst (isLocalAddress a now (s\<lparr>ms_contexts := m\<rparr>)) = fst (isLocalAddress a now s)"
  "ms_contexts (snd (isLocalAddress a now s)) = ms_contexts s"
  by (simp_all add: isLocalAddress_def Let_def)

lemma upsert_rows_cong:
  "ms_rows s = ms_rows s' \<Longrightarrow> ms_nextRow s = ms_nextRow s' \<Longrightarrow> excluded u (ms_nextRow s) = excluded u' (ms_nextRow s) \<Longrightarrow>
    ms_rows (upsert_row u s) = ms_rows (upsert_row u' s')"
  by (simp add: upsert_row_def Let_def)

lemma restart_rows:
  assumes c: "ms_contexts s q = Some c" and new: "\<forall>r \<in> set (ms_rows s). ml_queueId r \<noteq> Some q"
    and d: "dl_qid d1 = q" "dl_qid d2 = q" "deliveryStatus (dl_status d1) (dl_transport d1) \<noteq> None"
  shows "ms_rows (apply_delivery d2 t2 now2 (forget_contexts (apply_delivery d1 t1 now1 s))) =
    ms_rows (apply_delivery d2 t2 now2 (apply_delivery d1 t1 now1 s))"
proof (cases "deliveryStatus (dl_status d2) (dl_transport d2)")
  case None
  then show ?thesis by (simp add: apply_delivery_def forget_contexts_def)
next
  case st2: (Some st2)
  from d(3) obtain st1 where st1: "deliveryStatus (dl_status d1) (dl_transport d1) = Some st1" by auto
  obtain l1 s0 where h1: "delivered_here d1 now1 s = (l1, s0)" by (cases "delivered_here d1 now1 s")
  have "ms_rows (snd (delivered_here d1 now1 s)) = ms_rows s" "ms_contexts (snd (delivered_here d1 now1 s)) = ms_contexts s"
    by (simp_all add: isLocalAddress_frame)
  then have s0: "ms_rows s0 = ms_rows s" "ms_contexts s0 = ms_contexts s" unfolding h1 by simp_all
  let ?x = "excluded (delivery_upsert d1 st1 t1 (Some c) l1) (ms_nextRow s0)"
  define s1 where "s1 = apply_delivery d1 t1 now1 s"
  have s1: "s1 = upsert_row (delivery_upsert d1 st1 t1 (Some c) l1) s0"
    using apply_delivery_context [OF st1, of s c t1 now1] c d(1) unfolding s1_def h1 by simp
  have rows: "ms_rows s1 = ms_rows s @ [?x]"
  proof -
    have "\<not> list_ex (same_delivery ?x) (ms_rows s)"
      using new d(1) by (auto simp: list_ex_iff same_delivery_def delivery_upsert_def)
    then show ?thesis by (simp add: s1 s0 upsert_row_def Let_def)
  qed
  have c1: "ms_contexts s1 q = Some c" using c by (simp add: s1 s0 upsert_row_def Let_def)
  have "find (\<lambda>r. ml_queueId r = Some q) (ms_rows s1) = Some ?x"
    using new d(1) by (auto simp: rows find_append delivery_upsert_def find_None_iff split: option.split dest: find_SomeD)
  then obtain c' m where db: "contextFromDb q t2 (forget_contexts s1) = (Some c', (forget_contexts s1)\<lparr>ms_contexts := m\<rparr>)"
    and c': "mc_receivedAt c' = ml_createdAt ?x" "mc_sender c' = Some (ml_sender ?x)" "mc_size c' = ml_size ?x" "mc_messageId c' = ml_messageId ?x"
      "mc_subject c' = ml_subject ?x" "mc_clientHost c' = ml_clientHost ?x" "mc_clientIp c' = ml_clientIp ?x"
      "mc_source c' = ml_source ?x" "mc_saslUser c' = ml_saslUser ?x"
    by (force simp: contextFromDb_def forget_contexts_def put_context_def Let_def)
  let ?f = "(forget_contexts s1)\<lparr>ms_contexts := m\<rparr>"
  have after: "apply_delivery d2 t2 now2 (forget_contexts s1) =
      upsert_row (delivery_upsert d2 st2 t2 (Some c') (fst (delivered_here d2 now2 ?f))) (snd (delivered_here d2 now2 ?f))"
    using st2 d(2) db by (intro apply_delivery_db) (simp_all add: forget_contexts_def)
  have without: "apply_delivery d2 t2 now2 s1 =
      upsert_row (delivery_upsert d2 st2 t2 (Some c) (fst (delivered_here d2 now2 s1))) (snd (delivered_here d2 now2 s1))"
    using st2 d(2) c1 by (intro apply_delivery_context) simp_all
  have here: "fst (delivered_here d2 now2 ?f) = fst (delivered_here d2 now2 s1)"
    by (simp add: forget_contexts_def isLocalAddress_frame)
  have "excluded (delivery_upsert d2 st2 t2 (Some c') l) i = excluded (delivery_upsert d2 st2 t2 (Some c) l) i" for l i
    by (simp add: excluded_def delivery_upsert_def c' ctx_field_def cut_opt_def coalesce_def Let_def option.map_comp comp_def
        split: option.split)
  then show ?thesis
    unfolding s1_def [symmetric] after without here by (intro upsert_rows_cong) (simp_all add: forget_contexts_def)
qed

subsection \<open>Properties\<close>

text \<open>
  C6: the mail log is the book of deliveries. However many lines are read, and whatever is known of
  the messages' contexts at the time, each message and recipient has the status of its last event
  and as many attempts as Postfix made, a deferred message that expires or is deleted gets that
  status, lines that say nothing of a delivery change nothing, and no two rows are of the same
  message and recipient.
\<close>

theorem mail_log_refines:
  assumes "log_ok s"
  shows "book_of (ms_rows (ingest_all Z decode PG lines s)) =
      fold book_step (List.map_filter (line_event Z) lines) (book_of (ms_rows s)) \<and>
    log_ok (ingest_all Z decode PG lines s)"
  using assms
proof (induction lines arbitrary: s)
  case (Cons l lines)
  obtain now line where l: "l = (now, line)" by (cases l)
  from Cons.IH [OF ingest_refines(2) [OF Cons.prems]] show ?case
    using ingest_refines(1) [of Z decode PG line now s]
    by (cases "line_event Z (now, line)") (simp_all add: l ingest_all_def map_filter_simps)
qed (simp add: ingest_all_def map_filter_simps)

definition ex_lines :: "(time \<times> string) list" where
  "ex_lines = [
     (1767216606000, ''Dec 31 23:30:05 h postfix/smtp[7]: 4A5B6C: to=<b@c>, relay=none, delay=1, delays=1, dsn=4.4.1, status=deferred''),
     (1767216607000, ''Dec 31 23:30:06 h postfix/postsuper[8]: 4A5B6C: removed'')]"

definition ex_deferred :: delivery where
  "ex_deferred = \<lparr>dl_qid = ''4A5B6C'', dl_transport = ''smtp'', dl_to = ''b@c'', dl_origTo = None, dl_relay = ''none'',
     dl_dsn = ''4.4.1'', dl_status = ''deferred'', dl_detail = None\<rparr>"

lemma ex_line_events:
  "line_event ex_zone (hd ex_lines) = Some (EvDelivery ex_deferred)"
  "line_event ex_zone (ex_lines ! 1) = Some (EvDeleted ''4A5B6C'')"
  by code_simp+

theorem mail_log_refines_witness:
  "book_of (ms_rows (ingest_all ex_zone Some mem_pg ex_lines empty_log)) (''4A5B6C'', ''b@c'') = Some (Deleted, 1)"
proof -
  have ok: "log_ok empty_log" by (simp add: log_ok_def empty_log_def)
  have "List.map_filter (line_event ex_zone) ex_lines = [EvDelivery ex_deferred, EvDeleted ''4A5B6C'']"
    using ex_line_events by (simp add: ex_lines_def map_filter_simps)
  moreover have "fold book_step [EvDelivery ex_deferred, EvDeleted ''4A5B6C''] (book_of (ms_rows empty_log)) (''4A5B6C'', ''b@c'') = Some (Deleted, 1)"
    by code_simp
  ultimately show ?thesis using mail_log_refines [OF ok, of ex_zone Some mem_pg ex_lines] by simp
qed

text \<open>
  C26: a restart costs the log nothing. The server keeps what it knows of a queued message in memory
  only; when it forgets that after the first delivery of the message was logged, the next delivery,
  to the same or another recipient, still leaves exactly the rows it would have left.
\<close>

theorem restart_loses_nothing:
  assumes "ms_contexts s q = Some c" and "\<forall>r \<in> set (ms_rows s). ml_queueId r \<noteq> Some q"
    and "dl_qid d1 = q" and "dl_qid d2 = q" and "deliveryStatus (dl_status d1) (dl_transport d1) \<noteq> None"
  shows "ms_rows (apply_delivery d2 t2 now2 (forget_contexts (apply_delivery d1 t1 now1 s))) =
    ms_rows (apply_delivery d2 t2 now2 (apply_delivery d1 t1 now1 s))"
  by (rule restart_rows [OF assms])

definition ex_queued :: mail_srv where
  "ex_queued = put_context (dl_qid ex_delivery) ((new_context 5 6)\<lparr>mc_sender := Some ''ann@example.org'', mc_subject := Some ''Hi''\<rparr>) empty_log"

theorem restart_loses_nothing_witness:
  "map (\<lambda>r. (ml_recipient r, ml_sender r, ml_subject r, ml_createdAt r))
     (ms_rows (apply_delivery (ex_delivery\<lparr>dl_to := ''eve@example.net''\<rparr>) 9 10 (forget_contexts (apply_delivery ex_delivery 7 8 ex_queued)))) =
   [(''bob@example.net'', ''ann@example.org'', Some ''Hi'', 5), (''eve@example.net'', ''ann@example.org'', Some ''Hi'', 5)]"
proof -
  have "map (\<lambda>r. (ml_recipient r, ml_sender r, ml_subject r, ml_createdAt r))
      (ms_rows (apply_delivery (ex_delivery\<lparr>dl_to := ''eve@example.net''\<rparr>) 9 10 (apply_delivery ex_delivery 7 8 ex_queued))) =
    [(''bob@example.net'', ''ann@example.org'', Some ''Hi'', 5), (''eve@example.net'', ''ann@example.org'', Some ''Hi'', 5)]"
    by code_simp
  moreover have "deliveryStatus (dl_status ex_delivery) (dl_transport ex_delivery) \<noteq> None" by code_simp
  ultimately show ?thesis
    using restart_loses_nothing [of ex_queued "dl_qid ex_delivery" _ ex_delivery "ex_delivery\<lparr>dl_to := ''eve@example.net''\<rparr>" 9 10 7 8]
    by (simp add: ex_queued_def put_context_def empty_log_def)
qed

end
