(* ===== verification/Forest.thy ===== *)
theory Forest
  imports Prelude
begin

text \<open>
  The union-find forest that \<open>groupThreads\<close> of \<open>apps/server/src/mail/threads.ts\<close> keeps in the
  \<open>Map\<close> \<open>parent\<close>: \<open>root_loop\<close>, \<open>uf_find\<close> and \<open>uf_union\<close> are its closures
  \<open>find\<close> and \<open>union\<close>, with the path compression and JavaScript's reading of the empty string as
  false. The loop is a partial function: None is a loop that never ends. \<open>forest\<close> is the invariant
  under which it ends, \<open>together\<close> the abstraction: two keys have the same root. \<open>joined\<close> is the
  reference, the equivalence closure of the pairs that were united.
\<close>

type_synonym parents = "string \<rightharpoonup> string"

partial_function (option) root_loop :: "parents \<Rightarrow> string \<Rightarrow> string option" where
  "root_loop p r = (case p r of None \<Rightarrow> Some r | Some q \<Rightarrow> if q = [] \<or> q = r then Some r else root_loop p q)"

declare root_loop.simps [code]

definition uf_find :: "parents \<Rightarrow> string \<Rightarrow> (string \<times> parents) option" where
  "uf_find p x = map_option (\<lambda>r. (r, p(x \<mapsto> r))) (root_loop p x)"

definition uf_union :: "parents \<Rightarrow> string \<Rightarrow> string \<Rightarrow> parents option" where
  "uf_union p a b =
     Option.bind (uf_find p a) (\<lambda>(ra, p1). Option.bind (uf_find p1 b) (\<lambda>(rb, p2).
       Some (if ra \<noteq> rb then p2(ra \<mapsto> rb) else p2)))"

definition uf_add :: "parents \<Rightarrow> string \<Rightarrow> parents" where
  "uf_add p x = p(x \<mapsto> (case p x of None \<Rightarrow> x | Some v \<Rightarrow> v))"

subsection \<open>Roots\<close>

definition is_root :: "parents \<Rightarrow> string \<Rightarrow> bool" where
  "is_root p r \<longleftrightarrow> (case p r of None \<Rightarrow> True | Some q \<Rightarrow> q = [] \<or> q = r)"

inductive climbs :: "parents \<Rightarrow> string \<Rightarrow> string \<Rightarrow> bool" for p where
  climbs_root: "is_root p r \<Longrightarrow> climbs p r r"
| climbs_up: "p x = Some y \<Longrightarrow> y \<noteq> [] \<Longrightarrow> y \<noteq> x \<Longrightarrow> climbs p y r \<Longrightarrow> climbs p x r"

inductive_cases climbsE: "climbs p x r"

definition forest :: "parents \<Rightarrow> bool" where
  "forest p \<longleftrightarrow> (\<forall>x. \<exists>r. climbs p x r)"

definition together :: "parents \<Rightarrow> string \<Rightarrow> string \<Rightarrow> bool" where
  "together p x y \<longleftrightarrow> (\<exists>r. climbs p x r \<and> climbs p y r)"

lemma climbs_is_root: "climbs p x r \<Longrightarrow> is_root p r"
  by (induction rule: climbs.induct)

lemma climbs_nonempty: "climbs p x r \<Longrightarrow> x \<noteq> [] \<Longrightarrow> r \<noteq> []"
  by (induction rule: climbs.induct) auto

lemma climbs_root_iff: "is_root p x \<Longrightarrow> climbs p x r \<longleftrightarrow> r = x"
proof
  assume root: "is_root p x" and "climbs p x r"
  from this(2) show "r = x" by (cases rule: climbs.cases) (use root in \<open>simp_all add: is_root_def\<close>)
qed (simp add: climbs.climbs_root)

lemma climbs_step: "climbs p y r \<Longrightarrow> p x = Some y \<Longrightarrow> y \<noteq> [] \<Longrightarrow> y \<noteq> x \<Longrightarrow> climbs p x r"
  by (rule climbs_up)

lemma climbs_unique: "climbs p x r \<Longrightarrow> climbs p x s \<Longrightarrow> r = s"
proof (induction arbitrary: s rule: climbs.induct)
  case (climbs_root r)
  then show ?case by (simp add: climbs_root_iff)
next
  case (climbs_up x y r)
  from climbs_up.prems have "climbs p y s"
    by (cases rule: climbs.cases) (use climbs_up.hyps in \<open>simp_all add: is_root_def\<close>)
  then show ?case by (rule climbs_up.IH)
qed

lemma root_loop_climbs: "climbs p x r \<Longrightarrow> root_loop p x = Some r"
proof (induction rule: climbs.induct)
  case (climbs_root r)
  then show ?case by (subst root_loop.simps) (auto simp: is_root_def split: option.splits)
next
  case (climbs_up x y r)
  then show ?case by (subst root_loop.simps) simp
qed

lemma forest_root: "forest p \<Longrightarrow> \<exists>r. root_loop p x = Some r \<and> climbs p x r"
  by (meson forest_def root_loop_climbs)

lemma together_refl: "forest p \<Longrightarrow> together p x x"
  by (auto simp: forest_def together_def)

lemma together_sym: "together p x y \<Longrightarrow> together p y x"
  by (auto simp: together_def)

lemma together_trans: "together p x y \<Longrightarrow> together p y z \<Longrightarrow> together p x z"
  by (auto simp: together_def dest: climbs_unique)

text \<open>Path compression changes no root; a link joins two trees.\<close>

lemma climbs_compress: "climbs p z s \<Longrightarrow> climbs p x r \<Longrightarrow> x \<noteq> [] \<Longrightarrow> climbs (p(x \<mapsto> r)) z s"
proof (induction rule: climbs.induct)
  case (climbs_root s)
  show ?case
  proof (cases "s = x")
    case True
    with climbs_root have "r = x" by (simp add: climbs_root_iff)
    with True show ?thesis by (auto intro: climbs.climbs_root simp: is_root_def)
  qed (use climbs_root in \<open>auto intro: climbs.climbs_root simp: is_root_def\<close>)
next
  case (climbs_up z y s)
  show ?case
  proof (cases "z = x")
    case True
    have "climbs p x s" using climbs_up.hyps True by (blast intro: climbs.climbs_up)
    then have "s = r" using climbs_up.prems(1) by (rule climbs_unique)
    have "is_root p r" using climbs_up.prems(1) by (rule climbs_is_root)
    moreover have "r \<noteq> x" using climbs_up.hyps True \<open>is_root p r\<close> by (auto simp: is_root_def)
    ultimately have "climbs (p(x \<mapsto> r)) r r" by (auto intro: climbs.climbs_root simp: is_root_def)
    then have "climbs (p(x \<mapsto> r)) x r"
      by (rule climbs_step) (use climbs_nonempty [OF climbs_up.prems] \<open>r \<noteq> x\<close> in simp_all)
    then show ?thesis by (simp only: True \<open>s = r\<close>)
  next
    case False
    then have "(p(x \<mapsto> r)) z = Some y" using climbs_up.hyps(1) by simp
    then show ?thesis using climbs_up.hyps(2,3) climbs_up.IH [OF climbs_up.prems] by (rule climbs.climbs_up)
  qed
qed

lemma climbs_link:
  "climbs p z s \<Longrightarrow> is_root p a \<Longrightarrow> is_root p b \<Longrightarrow> a \<noteq> b \<Longrightarrow> b \<noteq> [] \<Longrightarrow> climbs (p(a \<mapsto> b)) z (if s = a then b else s)"
proof (induction rule: climbs.induct)
  case (climbs_root s)
  have "climbs (p(a \<mapsto> b)) b b" using climbs_root by (auto intro: climbs.climbs_root simp: is_root_def)
  then have link: "climbs (p(a \<mapsto> b)) a b" by (rule climbs_step) (use climbs_root in simp_all)
  show ?case
  proof (cases "s = a")
    case False
    with climbs_root have "is_root (p(a \<mapsto> b)) s" by (simp add: is_root_def)
    with False show ?thesis by (simp only: if_False climbs.climbs_root)
  qed (use link in \<open>simp only: if_True simp_thms\<close>)
next
  case (climbs_up z y s)
  then have "z \<noteq> a" by (auto simp: is_root_def)
  then have "(p(a \<mapsto> b)) z = Some y" using climbs_up.hyps(1) by simp
  then show ?case using climbs_up.hyps(2,3) climbs_up.IH [OF climbs_up.prems] by (rule climbs.climbs_up)
qed

lemma climbs_same:
  assumes "forest p" "\<And>z s. climbs p z s \<Longrightarrow> climbs q z (f s)"
  shows "climbs q z t \<longleftrightarrow> (\<exists>s. climbs p z s \<and> t = f s)"
  using assms by (metis climbs_unique forest_def)

lemma climbs_compress_iff: "forest p \<Longrightarrow> climbs p x r \<Longrightarrow> x \<noteq> [] \<Longrightarrow> climbs (p(x \<mapsto> r)) z s \<longleftrightarrow> climbs p z s"
  using climbs_same [where f = id and q = "p(x \<mapsto> r)" and p = p] climbs_compress [of p _ _ x r] by (metis id_apply)

subsection \<open>The abstraction\<close>

definition joined :: "(string \<times> string) set \<Rightarrow> string \<Rightarrow> string \<Rightarrow> bool" where
  "joined L x y \<longleftrightarrow> (x, y) \<in> (L \<union> L\<inverse>)\<^sup>*"

lemma joined_refl [simp]: "joined L x x"
  by (simp add: joined_def)

lemma joined_trans: "joined L x y \<Longrightarrow> joined L y z \<Longrightarrow> joined L x z"
  by (simp add: joined_def)

lemma joined_sym: "joined L x y \<Longrightarrow> joined L y x"
  unfolding joined_def by (rule symD [OF sym_rtrancl]) (auto simp: sym_def)

lemma joined_mono: "joined L x y \<Longrightarrow> L \<subseteq> M \<Longrightarrow> joined M x y"
  unfolding joined_def by (rule subsetD [OF rtrancl_mono, rotated]) auto

lemma joined_edge: "(x, y) \<in> L \<Longrightarrow> joined L x y"
  unfolding joined_def by auto

lemma joined_edges:
  assumes "joined L x y" "\<And>u v. (u, v) \<in> L \<Longrightarrow> joined M u v"
  shows "joined M x y"
  using assms(1) unfolding joined_def [of L]
proof (induction rule: rtrancl_induct)
  case (step y z)
  then have "joined M y z" using assms(2) joined_sym by blast
  with step.IH show ?case by (rule joined_trans)
qed simp

lemma joined_insert:
  "joined (insert (a, b) L) x y \<longleftrightarrow>
     joined L x y \<or> (joined L x a \<and> joined L b y) \<or> (joined L x b \<and> joined L a y)"
    (is "_ \<longleftrightarrow> ?R x y")
proof
  assume "joined (insert (a, b) L) x y"
  then show "?R x y"
    unfolding joined_def [of "insert _ _"]
  proof (induction rule: rtrancl_induct)
    case (step y z)
    then consider "joined L y z" | "y = a" "z = b" | "y = b" "z = a"
      using joined_edge joined_sym by blast
    then show ?case
    proof cases
      case 1
      with step.IH show ?thesis using joined_trans by blast
    qed (use step.IH joined_sym joined_trans joined_refl in metis)+
  qed simp
next
  assume "?R x y"
  moreover have "joined (insert (a, b) L) u v" if "joined L u v" for u v
    using that by (rule joined_mono) auto
  moreover have "joined (insert (a, b) L) a b" by (rule joined_edge) simp
  ultimately show "joined (insert (a, b) L) x y" by (metis joined_trans joined_sym)
qed

definition uf_ok :: "parents \<Rightarrow> (string \<times> string) set \<Rightarrow> bool" where
  "uf_ok p L \<longleftrightarrow> forest p \<and> (\<forall>x y. together p x y \<longleftrightarrow> joined L x y)"

lemma uf_ok_empty: "uf_ok Map.empty {}"
proof -
  have "climbs Map.empty x r \<longleftrightarrow> r = x" for x r by (rule climbs_root_iff) (simp add: is_root_def)
  then show ?thesis by (auto simp: uf_ok_def forest_def together_def joined_def)
qed

lemma uf_ok_cong: "(\<And>z s. climbs q z s \<longleftrightarrow> climbs p z s) \<Longrightarrow> uf_ok p L \<Longrightarrow> uf_ok q L"
  by (simp add: uf_ok_def forest_def together_def)

lemma uf_add_ok: "uf_ok p L \<Longrightarrow> x \<noteq> [] \<Longrightarrow> uf_ok (uf_add p x) L"
proof (cases "p x")
  case None
  assume ok: "uf_ok p L" and "x \<noteq> []"
  have "climbs p x x" using None by (simp add: climbs_root_iff is_root_def)
  then have "climbs (p(x \<mapsto> x)) z s \<longleftrightarrow> climbs p z s" for z s
    using ok \<open>x \<noteq> []\<close> by (simp add: climbs_compress_iff uf_ok_def)
  then show ?thesis using ok by (auto simp: uf_add_def None intro: uf_ok_cong)
next
  case (Some v)
  then show "uf_ok p L \<Longrightarrow> uf_ok (uf_add p x) L" by (simp add: uf_add_def fun_upd_idem)
qed

lemma uf_find_ok:
  assumes "uf_ok p L" "x \<noteq> []"
  obtains r q where "uf_find p x = Some (r, q)" "climbs p x r" "uf_ok q L" "\<And>z s. climbs q z s \<longleftrightarrow> climbs p z s"
proof -
  have f: "forest p" using assms by (simp add: uf_ok_def)
  then obtain r where r: "root_loop p x = Some r" "climbs p x r" using forest_root by blast
  have same: "climbs (p(x \<mapsto> r)) z s \<longleftrightarrow> climbs p z s" for z s
    using f r assms(2) by (simp add: climbs_compress_iff)
  then have "uf_ok (p(x \<mapsto> r)) L" by (rule uf_ok_cong) (rule assms(1))
  then show thesis using that r same by (auto simp: uf_find_def)
qed

lemma uf_union_ok:
  assumes ok: "uf_ok p L" and ne: "a \<noteq> []" "b \<noteq> []"
  obtains q where "uf_union p a b = Some q" "uf_ok q (insert (a, b) L)"
proof -
  obtain ra p1 where 1: "uf_find p a = Some (ra, p1)" "climbs p a ra" "uf_ok p1 L" "\<And>z s. climbs p1 z s \<longleftrightarrow> climbs p z s"
    using ok ne(1) by (rule uf_find_ok) (rule that)
  obtain rb p2 where 2: "uf_find p1 b = Some (rb, p2)" "climbs p1 b rb" "uf_ok p2 L" "\<And>z s. climbs p2 z s \<longleftrightarrow> climbs p1 z s"
    using 1(3) ne(2) by (rule uf_find_ok) (rule that)
  have ra: "climbs p2 a ra" and rb: "climbs p2 b rb" using 1 2 by simp_all
  show thesis
  proof (cases "ra = rb")
    case True
    then have "joined L a b" using ra rb 2(3) by (auto simp: uf_ok_def together_def)
    then have "uf_ok p2 (insert (a, b) L)"
      using 2(3) unfolding uf_ok_def joined_insert by (metis joined_trans joined_sym)
    then show thesis using that 1 2 True by (simp add: uf_union_def)
  next
    case False
    let ?q = "p2(ra \<mapsto> rb)" and ?f = "\<lambda>s. if s = ra then rb else s"
    have f: "forest p2" using 2(3) by (simp add: uf_ok_def)
    have "climbs ?q z (?f s)" if "climbs p2 z s" for z s
      using that climbs_is_root [OF ra] climbs_is_root [OF rb] False climbs_nonempty [OF rb ne(2)] by (rule climbs_link)
    then have q: "climbs ?q z t \<longleftrightarrow> (\<exists>s. climbs p2 z s \<and> t = ?f s)" for z t
      by (rule climbs_same [OF f])
    have root: "climbs p2 z r \<longleftrightarrow> together p2 z x" if "climbs p2 x r" for z r x
      using that by (auto simp: together_def dest: climbs_unique)
    have "together ?q x y \<longleftrightarrow> joined (insert (a, b) L) x y" for x y
    proof -
      obtain sx sy where s: "climbs p2 x sx" "climbs p2 y sy" using f by (meson forest_def)
      have "together ?q x y \<longleftrightarrow> ?f sx = ?f sy"
        using s by (auto simp: together_def q dest: climbs_unique)
      also have "\<dots> \<longleftrightarrow> sx = sy \<or> (sx = ra \<and> sy = rb) \<or> (sx = rb \<and> sy = ra)" using False by auto
      also have "sx = sy \<longleftrightarrow> together p2 x y" using s by (auto simp: together_def dest: climbs_unique)
      also have "sx = ra \<longleftrightarrow> together p2 x a" using s ra by (auto simp: together_def dest: climbs_unique)
      also have "sy = ra \<longleftrightarrow> together p2 a y" using s ra by (auto simp: together_def dest: climbs_unique)
      also have "sx = rb \<longleftrightarrow> together p2 x b" using s rb by (auto simp: together_def dest: climbs_unique)
      also have "sy = rb \<longleftrightarrow> together p2 b y" using s rb by (auto simp: together_def dest: climbs_unique)
      finally show ?thesis using 2(3) unfolding uf_ok_def joined_insert by blast
    qed
    moreover have "forest ?q" using f q by (auto simp: forest_def)
    ultimately show thesis using that 1 2 False by (auto simp: uf_union_def uf_ok_def)
  qed
qed

end
