(* ===== verification/Bytes.thy ===== *)
theory Bytes
  imports Password
begin

text \<open>
  Node's \<open>Buffer\<close> as far as the source uses it: base64 and base64url in both directions and the
  reading of UTF-8. \<open>from_base64\<close> accepts both alphabets and skips every other character, as
  \<open>Buffer.from(s, "base64")\<close> does. \<open>utf8_text\<close> is exact on the characters of the model, code units
  below 256; None stands for a text with other characters.
\<close>

definition B64URL :: string where
  "B64URL = ''ABCDEFGHIJKLMNOPQRSTUVWXYZabcdefghijklmnopqrstuvwxyz0123456789-_''"

definition sextet :: "char \<Rightarrow> nat option" where
  "sextet c =
     (let n = code_unit c
      in if 65 \<le> n \<and> n \<le> 90 then Some (n - 65)
         else if 97 \<le> n \<and> n \<le> 122 then Some (n - 71)
         else if 48 \<le> n \<and> n \<le> 57 then Some (n + 4)
         else if n = 43 \<or> n = 45 then Some 62
         else if n = 47 \<or> n = 95 then Some 63
         else None)"

fun to_sextets :: "nat list \<Rightarrow> nat list" where
  "to_sextets (a # b # c # bs) = a div 4 # (a mod 4 * 16 + b div 16) # (b mod 16 * 4 + c div 64) # c mod 64 # to_sextets bs"
| "to_sextets [a, b] = [a div 4, a mod 4 * 16 + b div 16, b mod 16 * 4]"
| "to_sextets [a] = [a div 4, a mod 4 * 16]"
| "to_sextets [] = []"

fun from_sextets :: "nat list \<Rightarrow> nat list" where
  "from_sextets (p # q # r # s # xs) = (p * 4 + q div 16) # (q mod 16 * 16 + r div 4) # (r mod 4 * 64 + s) # from_sextets xs"
| "from_sextets [p, q, r] = [p * 4 + q div 16, q mod 16 * 16 + r div 4]"
| "from_sextets [p, q] = [p * 4 + q div 16]"
| "from_sextets [p] = []"
| "from_sextets [] = []"

definition to_base64url :: "nat list \<Rightarrow> string" where
  \<comment> \<open>\<open>buffer.toString("base64url")\<close>: no padding\<close>
  "to_base64url bs = map (\<lambda>n. B64URL ! n) (to_sextets bs)"

definition from_base64 :: "string \<Rightarrow> nat list" where
  "from_base64 s = from_sextets (List.map_filter sextet s)"

fun utf8_text :: "nat list \<Rightarrow> string option" where
  "utf8_text [] = Some []"
| "utf8_text (b # bs) =
     (if b < 128 then map_option ((#) (char_of b)) (utf8_text bs)
      else if b = 194 \<or> b = 195 then
        (case bs of
           d # ds \<Rightarrow> if 128 \<le> d \<and> d < 192 then map_option ((#) (char_of ((b - 192) * 64 + (d - 128)))) (utf8_text ds) else None
         | [] \<Rightarrow> None)
      else None)"

lemma sextet_B64URL: "n < 64 \<Longrightarrow> sextet (B64URL ! n) = Some n"
proof -
  have "list_all (\<lambda>n. sextet (B64URL ! n) = Some n) [0..<64]" by code_simp
  then show "n < 64 \<Longrightarrow> sextet (B64URL ! n) = Some n" by (simp add: list_all_iff)
qed

lemma to_sextets_less: "list_all (\<lambda>b. b < 256) bs \<Longrightarrow> list_all (\<lambda>n. n < 64) (to_sextets bs)"
  by (induction bs rule: to_sextets.induct) (auto simp: less_mult_imp_div_less)

lemma from_to_sextets: "list_all (\<lambda>b. b < 256) bs \<Longrightarrow> from_sextets (to_sextets bs) = bs"
  by (induction bs rule: to_sextets.induct) auto

lemma map_filter_sextet: "list_all (\<lambda>n. n < 64) ns \<Longrightarrow> List.map_filter sextet (map (\<lambda>n. B64URL ! n) ns) = ns"
  by (induction ns) (simp_all add: List.map_filter_simps sextet_B64URL)

lemma from_to_base64: "list_all (\<lambda>b. b < 256) bs \<Longrightarrow> from_base64 (to_base64url bs) = bs"
  by (simp add: from_base64_def to_base64url_def map_filter_sextet to_sextets_less from_to_sextets)

lemma utf8_bytes: "list_all (\<lambda>b. b < 256) (utf8 s)"
proof (induction s)
  case (Cons c s)
  have "code_unit c < 256" by (rule code_unit_less)
  then have "code_unit c div 64 < 4" by (simp add: less_mult_imp_div_less)
  then have "192 + code_unit c div 64 < 256" "128 + code_unit c mod 64 < 256"
    using mod_less_divisor [of 64 "code_unit c"] by (linarith, linarith)
  with Cons show ?case by (auto simp: utf8_def)
qed (simp add: utf8_def)

lemma utf8_text_utf8: "utf8_text (utf8 s) = Some s"
proof (induction s)
  case (Cons c s)
  show ?case
  proof (cases "code_unit c < 128")
    case True
    with Cons show ?thesis by (simp add: utf8_def)
  next
    case False
    define n where "n = code_unit c"
    have n: "128 \<le> n" "n < 256" using False code_unit_less [of c] by (simp_all add: n_def)
    then have "2 \<le> n div 64" "n div 64 < 4" by (simp_all add: less_eq_div_iff_mult_less_eq less_mult_imp_div_less)
    then have d: "n div 64 = 2 \<or> n div 64 = 3" by linarith
    have "n div 64 * 64 + n mod 64 = n" by (rule div_mult_mod_eq)
    moreover have "n mod 64 < 64" by simp
    ultimately have "utf8_text ((192 + n div 64) # (128 + n mod 64) # utf8 s) = Some (char_of n # s)"
      using Cons d by auto
    then show ?thesis using False by (simp add: utf8_def n_def)
  qed
qed (simp add: utf8_def)

end
