(* ===== verification/Threads.thy ===== *)
theory Threads
  imports Forest Bytes JsRegex "HOL-Library.AList" "HOL-Library.Multiset"
begin

text \<open>
  Conversations, \<open>apps/server/src/mail/threads.ts\<close>: messages fetched from the IMAP server become
  envelopes, \<open>groupThreads\<close> joins them into threads by their ids and, failing those, by subject and
  sender, and \<open>listThreads\<close> and \<open>threadUids\<close> are the two ways the client asks for them. The IMAP
  server is a parameter, the record \<open>imap\<close>. A \<open>Map\<close> is the list of its entries in insertion order.
\<close>

subsection \<open>Maps in insertion order\<close>

definition push_to :: "'k \<Rightarrow> 'v \<Rightarrow> ('k \<times> 'v list) list \<Rightarrow> ('k \<times> 'v list) list" where
  \<comment> \<open>\<open>m.set(k, [...(m.get(k) ?? []), v])\<close>\<close>
  "push_to k v m = AList.update k ((case map_of m k of None \<Rightarrow> [] | Some vs \<Rightarrow> vs) @ [v]) m"

definition groups_by :: "('v \<Rightarrow> 'k) \<Rightarrow> 'v list \<Rightarrow> ('k \<times> 'v list) list" where
  "groups_by f xs = fold (\<lambda>x. push_to (f x) x) xs []"

lemma groups_by_snoc: "groups_by f (xs @ [x]) = push_to (f x) x (groups_by f xs)"
  by (simp add: groups_by_def)

lemma map_of_groups_by: "map_of (groups_by f xs) k = (let g = filter (\<lambda>x. f x = k) xs in if g = [] then None else Some g)"
proof (induction xs rule: rev_induct)
  case (snoc x xs)
  then show ?case by (auto simp: groups_by_snoc push_to_def AList.update_conv Let_def split: option.splits if_splits)
qed (simp add: groups_by_def)

lemma distinct_groups_by: "distinct (map fst (groups_by f xs))"
  by (induction xs rule: rev_induct) (simp_all add: groups_by_def push_to_def distinct_update)

lemma groups_by_elem:
  assumes "(k, g) \<in> set (groups_by f xs)"
  shows "g = filter (\<lambda>x. f x = k) xs" and "g \<noteq> []"
proof -
  have "map_of (groups_by f xs) k = Some g" using assms distinct_groups_by by (rule map_of_is_SomeI [rotated])
  then show "g = filter (\<lambda>x. f x = k) xs" "g \<noteq> []" by (auto simp: map_of_groups_by Let_def split: if_splits)
qed

lemma groups_by_mem: "x \<in> set xs \<Longrightarrow> (f x, filter (\<lambda>y. f y = f x) xs) \<in> set (groups_by f xs)"
  by (rule map_of_SomeD) (auto simp: map_of_groups_by Let_def filter_empty_conv)

fun foldo :: "('s \<Rightarrow> 'a \<Rightarrow> 's option) \<Rightarrow> 's \<Rightarrow> 'a list \<Rightarrow> 's option" where
  \<comment> \<open>a loop whose body may not return\<close>
  "foldo f s [] = Some s"
| "foldo f s (x # xs) = Option.bind (f s x) (\<lambda>t. foldo f t xs)"

lemma foldo_append: "foldo f s (xs @ ys) = Option.bind (foldo f s xs) (\<lambda>t. foldo f t ys)"
  by (induction xs arbitrary: s) (auto split: Option.bind_splits)

subsection \<open>Envelopes\<close>

record raw_address =
  ra_name :: "string option"
  ra_address :: "string option"

record address =
  ad_name :: string
  ad_address :: string

datatype body_structure = Structure
  (st_type: string) (st_disposition: "string option") (st_part: "string option") (st_encoding: "string option")
  (st_charset: "string option") (st_childNodes: "body_structure list")

record fetch_message =
  fm_uid :: nat
  fm_messageId :: "string option"
  fm_inReplyTo :: "string option"
  fm_subject :: "string option"
  fm_date :: "time option option" \<comment> \<open>\<open>Some None\<close>: a date that is not valid\<close>
  fm_from :: "raw_address list"
  fm_to :: "raw_address list"
  fm_flags :: "string list"
  fm_bodyStructure :: "body_structure option"
  fm_internalDate :: "time option option"
  fm_headers :: "string option"

record envelope =
  ev_uid :: nat
  ev_messageId :: string
  ev_inReplyTo :: string
  ev_references :: "string list"
  ev_subject :: string
  ev_date :: time
  ev_from :: "address option"
  ev_to :: "address list"
  ev_flags :: "string list"
  ev_hasAttachments :: bool
  ev_snippet :: string

definition reply_prefix_re :: re where
  "reply_prefix_re = Seqs [AtStart, Star (Chr js_space),
     Plus (Seqs [Alts [LitI ''re'', Seqs [LitI ''fw'', Opt (LitI ''d'')], LitI ''aw'', LitI ''wg'', LitI ''sv'', LitI ''vs''],
       Star (Chr js_space), Lit '':'', Star (Chr js_space)])]"

definition normalizeSubject :: "string \<Rightarrow> string" where
  "normalizeSubject s = js_lower (js_trim (re_replace_all (Plus (Chr js_space)) (\<lambda>_ _. '' '') (re_replace reply_prefix_re [] s)))"

definition tidy :: "string option \<Rightarrow> string" where
  "tidy i = js_trim (case i of None \<Rightarrow> [] | Some s \<Rightarrow> s)"

definition threadIdFor :: "string \<Rightarrow> string" where
  "threadIdFor root = to_base64url (utf8 root)"

definition rootFromThreadId :: "string \<Rightarrow> string option" where
  "rootFromThreadId i = utf8_text (from_base64 i)"

fun hasAttachment_node :: "body_structure \<Rightarrow> bool" where
  "hasAttachment_node (Structure ty d p e c kids) =
     (if kids \<noteq> [] then list_ex hasAttachment_node kids
      else if map_option js_lower d = Some ''attachment'' then True
      else (let t = js_lower ty
            in \<not> starts_with t ''text/'' \<and> \<not> starts_with t ''multipart/'' \<and> map_option js_lower d \<noteq> Some ''inline''))"

definition hasAttachment :: "body_structure option \<Rightarrow> bool" where
  "hasAttachment n = (case n of None \<Rightarrow> False | Some s \<Rightarrow> hasAttachment_node s)"

definition addr :: "raw_address \<Rightarrow> address option" where
  "addr a = (case ra_address a of None \<Rightarrow> None
     | Some x \<Rightarrow> if x = [] then None
         else Some \<lparr>ad_name = (case ra_name a of None \<Rightarrow> [] | Some n \<Rightarrow> n), ad_address = x\<rparr>)"

definition validDate :: "time option option \<Rightarrow> time option" where
  "validDate d = (case d of None \<Rightarrow> None | Some t \<Rightarrow> t)"

definition stand_in :: "nat \<Rightarrow> string" where
  "stand_in uid = ''<uid-'' @ show_nat uid @ ''@local>''"

definition toEnvelope :: "fetch_message \<Rightarrow> string list \<Rightarrow> envelope" where
  "toEnvelope m refs =
     \<lparr>ev_uid = fm_uid m,
      ev_messageId = (let i = tidy (fm_messageId m) in if i = [] then stand_in (fm_uid m) else i),
      ev_inReplyTo = tidy (fm_inReplyTo m),
      ev_references = refs,
      ev_subject = (case fm_subject m of None \<Rightarrow> [] | Some s \<Rightarrow> s),
      ev_date = (case validDate (fm_internalDate m) of Some t \<Rightarrow> t
        | None \<Rightarrow> (case validDate (fm_date m) of Some t \<Rightarrow> t | None \<Rightarrow> 0)),
      ev_from = (case fm_from m of [] \<Rightarrow> None | a # _ \<Rightarrow> addr a),
      ev_to = List.map_filter addr (fm_to m),
      ev_flags = fm_flags m,
      ev_hasAttachments = hasAttachment (fm_bodyStructure m),
      ev_snippet = []\<rparr>"

text \<open>\<open>text.split(/\r?\n/)\<close>: a carriage return right before the line feed belongs to the separator.\<close>

definition js_lines :: "string \<Rightarrow> string list" where
  "js_lines s = (let ls = split_on (CHR 0x0A) s in map drop_cr (butlast ls) @ [last ls])"

definition folding_re :: re where
  "folding_re = Seqs [Opt (Lit [CHR 0x0D]), Lit [CHR 0x0A], Plus (OneOf [CHR '' '', CHR 0x09])]"

definition references_re :: re where
  "references_re = Seqs [AtStart, LitI ''references'', Lit '':'']"

definition angle_re :: re where
  "angle_re = Seqs [OneOf ''<'', Plus (NotIn ''>''), OneOf ''>'']"

definition parseReferencesHeader :: "string option \<Rightarrow> string list" where
  "parseReferencesHeader headers = (case headers of None \<Rightarrow> []
     | Some h \<Rightarrow>
        (case find (re_test references_re) (js_lines (re_replace_all folding_re (\<lambda>_ _. '' '') h)) of
           None \<Rightarrow> []
         | Some line \<Rightarrow> re_match_all angle_re line))"

subsection \<open>Grouping\<close>

definition SUBJECT_FALLBACK_GAP_MS :: int where
  "SUBJECT_FALLBACK_GAP_MS = 14 * 24 * 60 * 60 * 1000"

definition isLinked :: "envelope \<Rightarrow> bool" where
  "isLinked e \<longleftrightarrow> ev_references e \<noteq> [] \<or> ev_inReplyTo e \<noteq> []"

definition subjectKey :: "envelope \<Rightarrow> string option" where
  "subjectKey e =
     (if isLinked e then None
      else (let s = normalizeSubject (ev_subject e)
            in if s = [] then None
               else Some (s @ [CHR 0x0A] @ (case ev_from e of None \<Rightarrow> [] | Some a \<Rightarrow> js_lower (ad_address a)))))"

record thread_summary =
  th_id :: string
  th_folder :: string
  th_subject :: string
  th_participants :: "address list"
  th_snippet :: string
  th_date :: time
  th_unread :: bool
  th_flagged :: bool
  th_answered :: bool
  th_hasAttachments :: bool
  th_messageCount :: nat
  th_uids :: "nat list"

definition link_ref :: "string \<Rightarrow> parents \<Rightarrow> string \<Rightarrow> parents option" where
  "link_ref m p r = uf_union (uf_add p r) m r"

definition named_ids :: "envelope \<Rightarrow> string list" where
  \<comment> \<open>\<open>[...e.references, e.inReplyTo].filter(Boolean)\<close>\<close>
  "named_ids e = filter (\<lambda>i. i \<noteq> []) (ev_references e @ [ev_inReplyTo e])"

definition link_ids :: "parents \<Rightarrow> envelope \<Rightarrow> parents option" where
  "link_ids p e = foldo (link_ref (ev_messageId e)) (uf_add p (ev_messageId e)) (named_ids e)"

definition link_subject :: "parents \<times> (string \<rightharpoonup> envelope) \<Rightarrow> envelope \<Rightarrow> (parents \<times> (string \<rightharpoonup> envelope)) option" where
  "link_subject st e = (case st of (p, lastBySubject) \<Rightarrow>
     (case subjectKey e of
        None \<Rightarrow> Some (p, lastBySubject)
      | Some key \<Rightarrow>
          Option.bind
            (case lastBySubject key of
               None \<Rightarrow> Some p
             | Some prev \<Rightarrow>
                 if ev_date e - ev_date prev \<le> SUBJECT_FALLBACK_GAP_MS
                 then uf_union p (ev_messageId e) (ev_messageId prev) else Some p)
            (\<lambda>q. Some (q, lastBySubject(key \<mapsto> e)))))"

definition put_group :: "parents \<times> (string \<times> envelope list) list \<Rightarrow> envelope \<Rightarrow> (parents \<times> (string \<times> envelope list) list) option" where
  "put_group st e = (case st of (p, groups) \<Rightarrow>
     Option.bind (uf_find p (ev_messageId e)) (\<lambda>(root, q). Some (q, push_to root e groups)))"

definition summarise :: "string \<Rightarrow> envelope list \<Rightarrow> thread_summary" where
  \<comment> \<open>of a group, which is not empty\<close>
  "summarise folder members =
     (let list = sort_key ev_date members;
          newest = last list;
          oldest = hd list
      in \<lparr>th_id = threadIdFor (case ev_references oldest of [] \<Rightarrow> ev_messageId oldest | r # _ \<Rightarrow> r),
          th_folder = folder,
          th_subject = (if ev_subject newest \<noteq> [] then ev_subject newest
            else if ev_subject oldest \<noteq> [] then ev_subject oldest else ''(no subject)''),
          th_participants = first_by (\<lambda>a. js_lower (ad_address a)) []
            (concat (map (\<lambda>e. (case ev_from e of None \<Rightarrow> [] | Some a \<Rightarrow> [a]) @ ev_to e) (rev list))),
          th_snippet = ev_snippet newest,
          th_date = ev_date newest,
          th_unread = list_ex (\<lambda>e. [CHR 0x5C] @ ''Seen'' \<notin> set (ev_flags e)) list,
          th_flagged = list_ex (\<lambda>e. [CHR 0x5C] @ ''Flagged'' \<in> set (ev_flags e)) list,
          th_answered = [CHR 0x5C] @ ''Answered'' \<in> set (ev_flags newest),
          th_hasAttachments = list_ex ev_hasAttachments list,
          th_messageCount = length list,
          th_uids = map ev_uid list\<rparr>)"

definition groupThreads :: "envelope list \<Rightarrow> string \<Rightarrow> thread_summary list option" where
  \<comment> \<open>newest first: ISO dates of the years 0 to 9999 compare as the times they stand for\<close>
  "groupThreads envs folder =
     Option.bind (foldo link_ids Map.empty envs) (\<lambda>p.
       Option.bind (foldo link_subject (p, Map.empty) (sort_key ev_date envs)) (\<lambda>(q, _).
         Option.bind (foldo put_group (q, []) envs) (\<lambda>(_, groups).
           Some (sort_key (\<lambda>t. - th_date t) (map (summarise folder \<circ> snd) groups)))))"

subsection \<open>What belongs together\<close>

text \<open>
  The reference: two ids are linked when a message has one and names the other, or when they are ids of
  two messages without any link, of the same subject and sender, at most the gap apart.
\<close>

definition id_links :: "envelope list \<Rightarrow> (string \<times> string) set" where
  "id_links envs = {(ev_messageId e, r) | e r. e \<in> set envs \<and> r \<in> set (named_ids e)}"

definition same_subject :: "envelope \<Rightarrow> envelope \<Rightarrow> bool" where
  "same_subject e f \<longleftrightarrow> subjectKey e \<noteq> None \<and> subjectKey e = subjectKey f \<and>
     \<bar>ev_date e - ev_date f\<bar> \<le> SUBJECT_FALLBACK_GAP_MS"

definition subject_links :: "envelope list \<Rightarrow> (string \<times> string) set" where
  "subject_links envs = {(ev_messageId e, ev_messageId f) | e f. e \<in> set envs \<and> f \<in> set envs \<and> same_subject e f}"

definition links :: "envelope list \<Rightarrow> (string \<times> string) set" where
  "links envs = id_links envs \<union> subject_links envs"

lemma links_mono: "set envs \<subseteq> set others \<Longrightarrow> links envs \<subseteq> links others"
  unfolding links_def id_links_def subject_links_def by blast

lemma uf_ok_joined: "uf_ok p L \<Longrightarrow> (\<And>x y. joined L x y \<longleftrightarrow> joined M x y) \<Longrightarrow> uf_ok p M"
  by (simp add: uf_ok_def)

lemma named_ids_nonempty: "r \<in> set (named_ids e) \<Longrightarrow> r \<noteq> []"
  unfolding named_ids_def set_filter by blast

lemma link_refs_ok:
  assumes "uf_ok p L" "m \<noteq> []" "\<And>r. r \<in> set rs \<Longrightarrow> r \<noteq> []"
  shows "\<exists>q. foldo (link_ref m) p rs = Some q \<and> uf_ok q (L \<union> {(m, r) | r. r \<in> set rs})"
  using assms
proof (induction rs arbitrary: p L)
  case (Cons r rs)
  have "uf_ok (uf_add p r) L" using Cons.prems(1,3) by (simp add: uf_add_ok)
  moreover have "r \<noteq> []" using Cons.prems(3) by simp
  ultimately obtain q where q: "link_ref m p r = Some q" "uf_ok q (insert (m, r) L)"
    using uf_union_ok [of "uf_add p r" L m r] Cons.prems(2) by (metis link_ref_def)
  have "insert (m, r) L \<union> {(m, r) | r. r \<in> set rs} = L \<union> {(m, r') | r'. r' \<in> set (r # rs)}" by auto
  with Cons.IH [OF q(2) Cons.prems(2)] Cons.prems(3) q(1) show ?case by auto
qed simp

lemma link_ids_ok:
  assumes "uf_ok p L" "\<And>e. e \<in> set envs \<Longrightarrow> ev_messageId e \<noteq> []"
  shows "\<exists>q. foldo link_ids p envs = Some q \<and> uf_ok q (L \<union> id_links envs)"
  using assms
proof (induction envs arbitrary: p L)
  case Nil
  then show ?case by (simp add: id_links_def)
next
  case (Cons e envs)
  have m: "ev_messageId e \<noteq> []" using Cons.prems by simp
  then obtain q where q: "link_ids p e = Some q" "uf_ok q (L \<union> {(ev_messageId e, r) | r. r \<in> set (named_ids e)})"
    using link_refs_ok [OF uf_add_ok [OF Cons.prems(1) m] m, of "named_ids e"] named_ids_nonempty [of _ e]
    unfolding link_ids_def by blast
  have "L \<union> {(ev_messageId e, r) | r. r \<in> set (named_ids e)} \<union> id_links envs = L \<union> id_links (e # envs)"
    by (auto simp: id_links_def)
  with Cons.IH [OF q(2)] Cons.prems(2) q(1) show ?case by auto
qed

definition last_of_key :: "envelope list \<Rightarrow> (string \<rightharpoonup> envelope) \<Rightarrow> bool" where
  "last_of_key xs m \<longleftrightarrow> (\<forall>k. case m k of
      None \<Rightarrow> (\<forall>f\<in>set xs. subjectKey f \<noteq> Some k)
    | Some e \<Rightarrow> e \<in> set xs \<and> subjectKey e = Some k \<and> (\<forall>f\<in>set xs. subjectKey f = Some k \<longrightarrow> ev_date f \<le> ev_date e))"

lemma subject_linksI: "e \<in> set envs \<Longrightarrow> f \<in> set envs \<Longrightarrow> same_subject e f \<Longrightarrow> (ev_messageId e, ev_messageId f) \<in> subject_links envs"
  unfolding subject_links_def by blast

lemma same_subject_sym: "same_subject e f \<Longrightarrow> same_subject f e"
  by (auto simp: same_subject_def abs_minus_commute)

lemma subject_link_last:
  assumes "last_of_key xs m" "\<And>f. f \<in> set xs \<Longrightarrow> ev_date f \<le> ev_date e" "subjectKey e = Some k"
  shows "joined (I \<union> subject_links (xs @ [e])) x y \<longleftrightarrow>
    joined (case m k of None \<Rightarrow> I \<union> subject_links xs
      | Some prev \<Rightarrow> if ev_date e - ev_date prev \<le> SUBJECT_FALLBACK_GAP_MS
          then insert (ev_messageId e, ev_messageId prev) (I \<union> subject_links xs) else I \<union> subject_links xs) x y"
    (is "_ \<longleftrightarrow> joined ?N x y")
proof
  have sub: "I \<union> subject_links xs \<subseteq> ?N" by (auto split: option.splits)
  have old: "joined ?N (ev_messageId f) (ev_messageId e)"
    if f: "f \<in> set xs" "same_subject e f" for f
  proof -
    obtain prev where prev: "m k = Some prev" "prev \<in> set xs" "subjectKey prev = Some k" "ev_date f \<le> ev_date prev"
      using assms(1,3) f by (force simp: last_of_key_def same_subject_def split: option.splits)
    have le: "ev_date prev \<le> ev_date e" using assms(2) prev(2) by blast
    have "same_subject f prev" using f prev le assms(3) by (auto simp: same_subject_def) metis
    then have "(ev_messageId f, ev_messageId prev) \<in> subject_links xs"
      using f(1) prev(2) by (intro subject_linksI)
    then have "joined ?N (ev_messageId f) (ev_messageId prev)" using sub by (blast intro: joined_edge)
    moreover have "(ev_messageId e, ev_messageId prev) \<in> ?N" using f prev le by (simp add: same_subject_def)
    ultimately show ?thesis by (blast intro: joined_trans joined_sym joined_edge)
  qed
  assume "joined (I \<union> subject_links (xs @ [e])) x y"
  then show "joined ?N x y"
  proof (rule joined_edges)
    fix u v
    assume "(u, v) \<in> I \<union> subject_links (xs @ [e])"
    then consider "(u, v) \<in> I"
      | f g where "u = ev_messageId f" "v = ev_messageId g" "f \<in> set xs \<union> {e}" "g \<in> set xs \<union> {e}" "same_subject f g"
      by (auto simp: subject_links_def)
    then show "joined ?N u v"
    proof cases
      case 1
      then show ?thesis using sub by (blast intro: joined_edge)
    next
      case (2 f g)
      consider "f \<in> set xs" "g \<in> set xs" | "f = e" "g = e" | "f = e" "g \<in> set xs" | "f \<in> set xs" "g = e"
        using 2(3,4) by blast
      then show ?thesis
      proof cases
        case 1
        then show ?thesis using 2 sub by (blast intro: joined_edge subject_linksI)
      next
        case 3
        then show ?thesis using old [of g] 2 by (blast intro: joined_sym)
      next
        case 4
        then show ?thesis using old [of f] 2 by (blast intro: same_subject_sym)
      qed (simp add: 2)
    qed
  qed
next
  assume "joined ?N x y"
  then show "joined (I \<union> subject_links (xs @ [e])) x y"
  proof (rule joined_mono)
    have "(ev_messageId e, ev_messageId prev) \<in> subject_links (xs @ [e])"
      if "m k = Some prev" "ev_date e - ev_date prev \<le> SUBJECT_FALLBACK_GAP_MS" for prev
    proof -
      have "prev \<in> set xs" "subjectKey prev = Some k"
        using assms(1) that(1) by (auto simp: last_of_key_def split: option.splits dest: spec [of _ k])
      moreover from this have "ev_date prev \<le> ev_date e" using assms(2) by blast
      ultimately show ?thesis using assms(3) that(2) by (intro subject_linksI) (auto simp: same_subject_def)
    qed
    moreover have "subject_links xs \<subseteq> subject_links (xs @ [e])" by (auto simp: subject_links_def)
    ultimately show "?N \<subseteq> I \<union> subject_links (xs @ [e])" by (auto split: option.splits if_splits)
  qed
qed

lemma link_subjects_ok:
  assumes "uf_ok p I" "sorted (map ev_date es)" "\<And>e. e \<in> set es \<Longrightarrow> ev_messageId e \<noteq> []"
  shows "\<exists>q m. foldo link_subject (p, Map.empty) es = Some (q, m) \<and> uf_ok q (I \<union> subject_links es) \<and> last_of_key es m"
  using assms(2,3)
proof (induction es rule: rev_induct)
  case Nil
  then show ?case using assms(1) by (simp add: subject_links_def last_of_key_def)
next
  case (snoc e es)
  then obtain q m where 1: "foldo link_subject (p, Map.empty) es = Some (q, m)" and q: "uf_ok q (I \<union> subject_links es)"
      and m: "last_of_key es m"
    by (auto simp: sorted_append)
  have later: "ev_date f \<le> ev_date e" if "f \<in> set es" for f using snoc.prems that by (auto simp: sorted_append)
  show ?case
  proof (cases "subjectKey e")
    case None
    have "subject_links (es @ [e]) = subject_links es"
      using None unfolding subject_links_def same_subject_def by fastforce
    moreover have "last_of_key (es @ [e]) m" using m None unfolding last_of_key_def by (auto split: option.split_asm option.split) force
    moreover have "link_subject (q, m) e = Some (q, m)" using None by (simp add: link_subject_def)
    ultimately show ?thesis using 1 q by (simp add: foldo_append)
  next
    case (Some k)
    let ?N = "case m k of None \<Rightarrow> I \<union> subject_links es
      | Some prev \<Rightarrow> if ev_date e - ev_date prev \<le> SUBJECT_FALLBACK_GAP_MS
          then insert (ev_messageId e, ev_messageId prev) (I \<union> subject_links es) else I \<union> subject_links es"
    have "\<exists>q'. (case m k of None \<Rightarrow> Some q | Some prev \<Rightarrow>
        if ev_date e - ev_date prev \<le> SUBJECT_FALLBACK_GAP_MS then uf_union q (ev_messageId e) (ev_messageId prev) else Some q) = Some q'
        \<and> uf_ok q' ?N"
    proof (cases "m k")
      case (Some prev)
      then have "prev \<in> set es" using m by (auto simp: last_of_key_def split: option.splits dest: spec [of _ k])
      then have "ev_messageId prev \<noteq> []" "ev_messageId e \<noteq> []" using snoc.prems(2) by auto
      then show ?thesis using q Some uf_union_ok [OF q, of "ev_messageId e" "ev_messageId prev"] by auto
    qed (use q in simp)
    then obtain q' where q': "link_subject (q, m) e = Some (q', m(k \<mapsto> e))" "uf_ok q' ?N"
      using Some by (auto simp: link_subject_def)
    have "uf_ok q' (I \<union> subject_links (es @ [e]))"
      by (rule uf_ok_joined [OF q'(2)], rule subject_link_last [OF m later Some, symmetric])
    moreover have "last_of_key (es @ [e]) (m(k \<mapsto> e))"
      using m later Some unfolding last_of_key_def by (auto split: option.split_asm option.split) force
    ultimately show ?thesis using 1 q'(1) by (simp add: foldo_append)
  qed
qed

lemma subject_links_sort: "subject_links (sort_key k es) = subject_links es"
  by (simp add: subject_links_def)

lemma put_groups_ok:
  assumes "uf_ok p L" "\<And>e. e \<in> set es \<Longrightarrow> ev_messageId e \<noteq> []" "\<And>x. climbs p x (R x)"
  shows "\<exists>q. foldo put_group (p, []) es = Some (q, groups_by (\<lambda>e. R (ev_messageId e)) es) \<and> uf_ok q L \<and> (\<forall>x. climbs q x (R x))"
  using assms(2)
proof (induction es rule: rev_induct)
  case Nil
  then show ?case using assms by (simp add: groups_by_def)
next
  case (snoc e es)
  then obtain q where q: "foldo put_group (p, []) es = Some (q, groups_by (\<lambda>e. R (ev_messageId e)) es)" "uf_ok q L" "\<And>x. climbs q x (R x)"
    by (metis in_set_butlastD butlast_snoc)
  have "ev_messageId e \<noteq> []" using snoc.prems by simp
  with q(2) obtain r q' where f: "uf_find q (ev_messageId e) = Some (r, q')" "climbs q (ev_messageId e) r" "uf_ok q' L"
      "\<And>z s. climbs q' z s \<longleftrightarrow> climbs q z s"
    by (rule uf_find_ok) (rule that)
  have "r = R (ev_messageId e)" using f(2) q(3) by (rule climbs_unique)
  then have "put_group (q, gs) e = Some (q', push_to (R (ev_messageId e)) e gs)" for gs
    using f(1) by (simp add: put_group_def)
  then show ?case using q f by (simp add: foldo_append groups_by_snoc)
qed

text \<open>A root function names the classes; the groups are the messages of one class each.\<close>

lemma groupThreads_groups:
  assumes "\<And>e. e \<in> set envs \<Longrightarrow> ev_messageId e \<noteq> []"
  obtains R :: "string \<Rightarrow> string" where "\<And>x y. R x = R y \<longleftrightarrow> joined (links envs) x y"
    and "groupThreads envs folder =
      Some (sort_key (\<lambda>t. - th_date t) (map (summarise folder \<circ> snd) (groups_by (\<lambda>e. R (ev_messageId e)) envs)))"
proof -
  obtain p where p: "foldo link_ids Map.empty envs = Some p" "uf_ok p ({} \<union> id_links envs)"
    using link_ids_ok [OF uf_ok_empty assms] by blast
  obtain q m where q: "foldo link_subject (p, Map.empty) (sort_key ev_date envs) = Some (q, m)"
      "uf_ok q ({} \<union> id_links envs \<union> subject_links (sort_key ev_date envs))"
    using link_subjects_ok [OF p(2), of "sort_key ev_date envs"] assms by auto
  then have ok: "uf_ok q (links envs)" by (simp add: links_def subject_links_sort)
  then have "\<forall>x. \<exists>r. climbs q x r" by (simp add: uf_ok_def forest_def)
  then obtain R where R: "\<And>x. climbs q x (R x)" by metis
  obtain q' where "foldo put_group (q, []) envs = Some (q', groups_by (\<lambda>e. R (ev_messageId e)) envs)"
    using put_groups_ok [OF ok assms R] by blast
  then have eq: "groupThreads envs folder =
      Some (sort_key (\<lambda>t. - th_date t) (map (summarise folder \<circ> snd) (groups_by (\<lambda>e. R (ev_messageId e)) envs)))"
    using p(1) q(1) by (simp add: groupThreads_def)
  have "R x = R y \<longleftrightarrow> joined (links envs) x y" for x y
  proof -
    have "together q x y \<longleftrightarrow> R x = R y"
    proof
      show "together q x y \<Longrightarrow> R x = R y" unfolding together_def by (elim exE conjE) (simp add: climbs_unique [OF R])
      show "R x = R y \<Longrightarrow> together q x y" unfolding together_def using R [of x] R [of y] by auto
    qed
    with ok show ?thesis by (simp add: uf_ok_def)
  qed
  then show thesis using eq by (rule that [of R])
qed

lemma mset_push_to: "mset (concat (map snd (push_to k v m))) = add_mset v (mset (concat (map snd m)))"
  by (induction m) (auto simp: push_to_def)

lemma mset_groups_by: "mset (concat (map snd (groups_by f xs))) = mset xs"
proof (induction xs rule: rev_induct)
  case (snoc x xs)
  then show ?case unfolding groups_by_snoc by (simp add: mset_push_to)
qed (simp add: groups_by_def)

lemma th_uids_summarise [simp]: "th_uids (summarise folder g) = map ev_uid (sort_key ev_date g)"
  by (simp add: summarise_def Let_def)

lemma mset_thread_uids:
  "mset (concat (map th_uids (sort_key k (map (summarise folder \<circ> snd) gs)))) = mset (map ev_uid (concat (map snd gs)))"
proof -
  have "mset (concat (map th_uids (sort_key k ts))) = mset (concat (map th_uids ts))" for ts
    by (simp add: mset_concat flip: sum_mset_sum_list)
  moreover have "mset (concat (map th_uids (map (summarise folder \<circ> snd) gs))) = mset (map ev_uid (concat (map snd gs)))"
    by (induction gs) simp_all
  ultimately show ?thesis by simp
qed

lemma group_uids:
  assumes "inj_on ev_uid (set envs)" "e \<in> set envs" "(k, g) \<in> set (groups_by f envs)"
  shows "ev_uid e \<in> set (th_uids (summarise folder g)) \<longleftrightarrow> f e = k"
  using assms groups_by_elem(1) [OF assms(3)] by (auto simp: inj_on_def)

lemma groupThreads_spec:
  assumes "\<And>e. e \<in> set envs \<Longrightarrow> ev_messageId e \<noteq> []" and "distinct (map ev_uid envs)"
  obtains ts where "groupThreads envs folder = Some ts"
    and "mset (concat (map th_uids ts)) = mset (map ev_uid envs)"
    and "\<And>e f. e \<in> set envs \<Longrightarrow> f \<in> set envs \<Longrightarrow>
       (\<exists>t\<in>set ts. ev_uid e \<in> set (th_uids t) \<and> ev_uid f \<in> set (th_uids t)) \<longleftrightarrow>
       joined (links envs) (ev_messageId e) (ev_messageId f)"
    and "sorted_wrt (\<lambda>s t. th_date t \<le> th_date s) ts"
proof -
  obtain R :: "string \<Rightarrow> string" where R: "\<And>x y. R x = R y \<longleftrightarrow> joined (links envs) x y"
    and ts: "groupThreads envs folder =
      Some (sort_key (\<lambda>t. - th_date t) (map (summarise folder \<circ> snd) (groups_by (\<lambda>e. R (ev_messageId e)) envs)))"
    using groupThreads_groups [of envs folder] assms(1) by blast
  let ?key = "\<lambda>e. R (ev_messageId e)"
  let ?ts = "sort_key (\<lambda>t. - th_date t) (map (summarise folder \<circ> snd) (groups_by ?key envs))"
  have inj: "inj_on ev_uid (set envs)" using assms(2) by (simp add: distinct_map)
  have "(\<exists>t\<in>set ?ts. ev_uid e \<in> set (th_uids t) \<and> ev_uid f \<in> set (th_uids t)) \<longleftrightarrow>
      joined (links envs) (ev_messageId e) (ev_messageId f)"
    if ef: "e \<in> set envs" "f \<in> set envs" for e f
  proof -
    have "set ?ts = (\<lambda>(k, g). summarise folder g) ` set (groups_by ?key envs)" by (auto simp: split_beta)
    then have "(\<exists>t\<in>set ?ts. ev_uid e \<in> set (th_uids t) \<and> ev_uid f \<in> set (th_uids t)) \<longleftrightarrow>
        (\<exists>(k, g)\<in>set (groups_by ?key envs). ?key e = k \<and> ?key f = k)"
      by (simp only: bex_simps split_beta) (rule bex_cong [OF refl],
        auto simp: group_uids [OF inj ef(1)] group_uids [OF inj ef(2)] simp del: th_uids_summarise)
    also have "\<dots> \<longleftrightarrow> ?key e = ?key f" using groups_by_mem [OF ef(1), of ?key] by force
    finally show ?thesis unfolding R .
  qed
  moreover have "sorted_wrt (\<lambda>s t. th_date t \<le> th_date s) ?ts"
    using sorted_sort_key [of "\<lambda>t. - th_date t"] by (simp add: sorted_map)
  moreover have "mset (concat (map th_uids ?ts)) = mset (map ev_uid envs)"
    by (simp add: mset_thread_uids mset_groups_by)
  ultimately show thesis using that ts by blast
qed

text \<open>
  C3: Whatever messages a folder holds, the grouping of the thread list returns: every message is in
  exactly one thread, two messages share a thread exactly when a chain of links (Message-ID, References,
  In-Reply-To, or the same subject and sender close in time) leads from one to the other, and the
  threads are listed newest first.
\<close>

theorem threads_are_components:
  assumes "\<forall>e\<in>set envs. ev_messageId e \<noteq> []" and "distinct (map ev_uid envs)"
  shows "\<exists>ts. groupThreads envs folder = Some ts \<and>
    mset (concat (map th_uids ts)) = mset (map ev_uid envs) \<and>
    (\<forall>e\<in>set envs. \<forall>f\<in>set envs.
       (\<exists>t\<in>set ts. ev_uid e \<in> set (th_uids t) \<and> ev_uid f \<in> set (th_uids t)) \<longleftrightarrow>
       joined (links envs) (ev_messageId e) (ev_messageId f)) \<and>
    sorted_wrt (\<lambda>s t. th_date t \<le> th_date s) ts"
  using groupThreads_spec [of envs folder] assms by metis

definition mail_of :: "nat \<Rightarrow> string \<Rightarrow> string list \<Rightarrow> string \<Rightarrow> time \<Rightarrow> envelope" where
  "mail_of uid i refs subject date = \<lparr>ev_uid = uid, ev_messageId = i, ev_inReplyTo = [], ev_references = refs,
     ev_subject = subject, ev_date = date, ev_from = Some \<lparr>ad_name = [], ad_address = ''ann@x.org''\<rparr>, ev_to = [],
     ev_flags = [], ev_hasAttachments = False, ev_snippet = []\<rparr>"

definition ex_mails :: "envelope list" where
  "ex_mails = [mail_of 1 ''<a>'' [] ''Plans'' 10, mail_of 2 ''<b>'' [''<a>''] ''Re: Plans'' 20, mail_of 3 ''<c>'' [] ''Re: plans'' 30]"

theorem threads_are_components_witness:
  "\<exists>ts t. groupThreads ex_mails ''INBOX'' = Some ts \<and> t \<in> set ts \<and> {1, 2} \<subseteq> set (th_uids t)"
proof -
  have ok: "\<forall>e\<in>set ex_mails. ev_messageId e \<noteq> []" "distinct (map ev_uid ex_mails)"
    by (simp_all add: ex_mails_def mail_of_def)
  let ?a = "mail_of 1 ''<a>'' [] ''Plans'' 10" and ?b = "mail_of 2 ''<b>'' [''<a>''] ''Re: Plans'' 20"
  have "''<a>'' \<in> set (named_ids ?b)" by (simp add: named_ids_def mail_of_def)
  then have "(''<b>'', ''<a>'') \<in> links ex_mails"
    unfolding links_def id_links_def ex_mails_def by (force simp: mail_of_def)
  then have l: "joined (links ex_mails) ''<a>'' ''<b>''" by (blast intro: joined_edge joined_sym)
  have m: "?a \<in> set ex_mails" "?b \<in> set ex_mails" by (simp_all add: ex_mails_def)
  obtain ts where ts: "groupThreads ex_mails ''INBOX'' = Some ts"
    and share: "\<forall>e\<in>set ex_mails. \<forall>f\<in>set ex_mails.
      (\<exists>t\<in>set ts. ev_uid e \<in> set (th_uids t) \<and> ev_uid f \<in> set (th_uids t)) \<longleftrightarrow>
      joined (links ex_mails) (ev_messageId e) (ev_messageId f)"
    using threads_are_components [OF ok, of "''INBOX''"] by blast
  have "ev_uid ?a = 1" "ev_uid ?b = 2" "ev_messageId ?a = ''<a>''" "ev_messageId ?b = ''<b>''" by (simp_all add: mail_of_def)
  then obtain t where "t \<in> set ts" "1 \<in> set (th_uids t)" "2 \<in> set (th_uids t)"
    using share [rule_format, OF m] l by auto
  with ts show ?thesis by auto
qed

end
