(* ===== verification/ThreadFetch.thy ===== *)
theory ThreadFetch
  imports Threads Paging
begin

text \<open>
  Fetching, listing and opening conversations, the second half of
  \<open>apps/server/src/mail/threads.ts\<close>. The IMAP connection is the record \<open>imap\<close> of what the server
  answers to FETCH and SEARCH while the folder is locked; the text decoders of the platform are the
  parameter \<open>codec\<close>. \<open>serves\<close> is what RFC 3501 promises of the answers. \<open>threadUids\<close> searches in
  rounds, at most \<open>MAX_EXPAND_ROUNDS\<close>; \<open>expand\<close> takes the number of rounds left as its fuel, as
  the loop of the source does.
\<close>

subsection \<open>The text of a message\<close>

record codec =
  cd_decode :: "string \<Rightarrow> string \<Rightarrow> string option" \<comment> \<open>\<open>TextDecoder(charset).decode(bytes)\<close>, None when it throws\<close>
  cd_utf8 :: "string \<Rightarrow> string" \<comment> \<open>\<open>bytes.toString("utf8")\<close>\<close>

type_synonym leaf = "string \<times> body_structure"

fun walk_leaf :: "body_structure \<Rightarrow> leaf option \<Rightarrow> leaf option \<times> leaf option"
  and walk_leaves :: "body_structure list \<Rightarrow> leaf option \<Rightarrow> leaf option \<times> leaf option" where
  \<comment> \<open>the leaf found, and the HTML leaf seen so far\<close>
  "walk_leaf (Structure ty d p e c kids) html =
     (if kids \<noteq> [] then walk_leaves kids html
      else if map_option js_lower d = Some ''attachment'' then (None, html)
      else (let node = Structure ty d p e c kids;
                key = (case p of None \<Rightarrow> ''1'' | Some k \<Rightarrow> if k = [] then ''1'' else k)
            in if js_lower ty = ''text/plain'' then (Some (key, node), html)
               else if js_lower ty = ''text/html'' \<and> html = None then (None, Some (key, node))
               else (None, html)))"
| "walk_leaves [] html = (None, html)"
| "walk_leaves (k # ks) html =
     (case walk_leaf k html of
        (Some l, h) \<Rightarrow> (Some l, h)
      | (None, h) \<Rightarrow> walk_leaves ks h)"

definition textLeaf :: "body_structure option \<Rightarrow> leaf option" where
  "textLeaf st = (case st of None \<Rightarrow> None
     | Some s \<Rightarrow> (case walk_leaf s None of (Some l, _) \<Rightarrow> Some l | (None, html) \<Rightarrow> html))"

definition hex_char :: "char \<Rightarrow> bool" where
  "hex_char c \<longleftrightarrow> js_digit c \<or> re_range (CHR ''A'') (CHR ''F'') c \<or> re_range (CHR ''a'') (CHR ''f'') c"

definition hex_val :: "char \<Rightarrow> nat" where
  "hex_val c = (if js_digit c then code_unit c - 48 else code_unit (lower_char c) - 87)"

definition any_char :: "char \<Rightarrow> bool" where
  "any_char c = True"

definition soft_break_re :: re where
  "soft_break_re = Seqs [Lit ''='', Opt (Lit [CHR 0x0D]), Lit [CHR 0x0A]]"

definition escaped_re :: re where
  "escaped_re = Seqs [Lit ''='', Cap 1 (Times 2 (Chr hex_char))]"

definition element_re :: re where
  \<comment> \<open>the back reference written out for the two names\<close>
  "element_re = Alt (Seqs [LitI ''<style'', LazyStar (Chr any_char), LitI ''</style>''])
     (Seqs [LitI ''<script'', LazyStar (Chr any_char), LitI ''</script>''])"

definition tag_re :: re where
  "tag_re = Seqs [Lit ''<'', Plus (NotIn ''>''), Lit ''>'']"

definition quoted_printable :: "string \<Rightarrow> string" where
  "quoted_printable raw = re_replace_all escaped_re
     (\<lambda>c _. case group_str c 1 of [a, b] \<Rightarrow> [char_of (hex_val a * 16 + hex_val b)] | _ \<Rightarrow> [])
     (re_replace_all soft_break_re (\<lambda>_ _. []) raw)"

definition base64_char :: "char \<Rightarrow> bool" where
  "base64_char c \<longleftrightarrow> re_range (CHR ''A'') (CHR ''Z'') c \<or> re_range (CHR ''a'') (CHR ''z'') c \<or> js_digit c \<or> c \<in> set ''+/=''"

definition snippetFromPart :: "codec \<Rightarrow> body_structure \<Rightarrow> string option \<Rightarrow> string" where
  "snippetFromPart K node raw = (case raw of None \<Rightarrow> [] | Some r \<Rightarrow>
     if r = [] then [] else
     (let enc = js_lower (case st_encoding node of None \<Rightarrow> [] | Some e \<Rightarrow> e);
          charset = js_lower (case st_charset node of None \<Rightarrow> ''utf-8'' | Some c \<Rightarrow> c);
          bytes = (if enc = ''base64'' then map char_of (from_base64 (filter base64_char r))
            else if enc = ''quoted-printable'' then quoted_printable r else r);
          decoded = (case cd_decode K charset bytes of Some t \<Rightarrow> t | None \<Rightarrow> cd_utf8 K bytes);
          txt = (if js_lower (st_type node) = ''text/html''
            then re_replace_all (Lit ''&gt;'') (\<lambda>_ _. ''>'') (re_replace_all (Lit ''&lt;'') (\<lambda>_ _. ''<'')
              (re_replace_all (Lit ''&amp;'') (\<lambda>_ _. ''&'') (re_replace_all (Lit ''&nbsp;'') (\<lambda>_ _. '' '')
              (re_replace_all tag_re (\<lambda>_ _. '' '') (re_replace_all element_re (\<lambda>_ _. '' '') decoded)))))
            else decoded)
      in take 140 (js_trim (re_replace_all (Plus (Chr js_space)) (\<lambda>_ _. '' '') txt))))"

subsection \<open>Fetching\<close>

datatype search =
    SearchAll
  | SearchText string
  | SearchSubject string
  | SearchHeader string string
  | SearchOr "search list"

record imap =
  im_fetch :: "nat list \<Rightarrow> fetch_message list"
  im_parts :: "string \<Rightarrow> nat list \<Rightarrow> (nat \<times> string option) list"
  im_search :: "search \<Rightarrow> nat list option"

definition search_uids :: "imap \<Rightarrow> search \<Rightarrow> nat list" where
  \<comment> \<open>\<open>(await client.search(query)) || []\<close>\<close>
  "search_uids im s = (case im_search im s of None \<Rightarrow> [] | Some us \<Rightarrow> us)"

definition envelope_of :: "fetch_message \<Rightarrow> envelope" where
  "envelope_of m = toEnvelope m (parseReferencesHeader (fm_headers m))"

definition put_snippet :: "codec \<Rightarrow> (nat \<times> leaf) list \<Rightarrow> nat \<times> string option \<Rightarrow> (nat \<times> envelope) list \<Rightarrow> (nat \<times> envelope) list" where
  "put_snippet K leaves part out =
     (case (map_of out (fst part), map_of leaves (fst part)) of
        (Some e, Some leaf) \<Rightarrow> AList.update (fst part) (e\<lparr>ev_snippet := snippetFromPart K (snd leaf) (snd part)\<rparr>) out
      | _ \<Rightarrow> out)"

definition fetchEnvelopes :: "codec \<Rightarrow> imap \<Rightarrow> nat list \<Rightarrow> bool \<Rightarrow> envelope list" where
  "fetchEnvelopes K im uids snippets =
     (if uids = [] then [] else
      (let ms = im_fetch im uids;
           out = fold (\<lambda>m. AList.update (fm_uid m) (envelope_of m)) ms [];
           leaves = fold (\<lambda>m al. case textLeaf (fm_bodyStructure m) of None \<Rightarrow> al | Some l \<Rightarrow> AList.update (fm_uid m) l al) ms [];
           byKey = fold (\<lambda>(uid, leaf). push_to (fst leaf) uid) leaves [];
           seen = (if snippets
             then fold (\<lambda>(key, uids). fold (put_snippet K leaves) (im_parts im key uids)) byKey out
             else out)
       in List.map_filter (map_of seen) uids))"

subsection \<open>Listing\<close>

definition PAGE :: rat where "PAGE = 50"

record thread_list =
  tl_folder :: string
  tl_threads :: "thread_summary list"
  tl_nextCursor :: "string option"
  tl_total :: nat

definition page_limit :: "rat option option \<Rightarrow> rat option" where
  \<comment> \<open>the limit of the request, None when it is absent, \<open>Some None\<close> for NaN\<close>
  "page_limit limit = (case limit of None \<Rightarrow> Some (min (max PAGE 1) 200) | Some None \<Rightarrow> None | Some (Some x) \<Rightarrow> Some (min (max x 1) 200))"

definition last_uids :: "rat option \<Rightarrow> nat list \<Rightarrow> nat list" where
  \<comment> \<open>\<open>eligible.slice(-limit)\<close>: NaN slices from the start\<close>
  "last_uids limit us = (case limit of None \<Rightarrow> us | Some l \<Rightarrow> slice_last (nat \<lfloor>l\<rfloor>) us)"

definition listThreads ::
    "codec \<Rightarrow> (nat \<Rightarrow> string \<Rightarrow> bool) \<Rightarrow> imap \<Rightarrow> string \<Rightarrow> string option \<Rightarrow> rat option option \<Rightarrow> string option \<Rightarrow> thread_list option" where
  \<comment> \<open>\<open>below u cursor\<close>: \<open>u < Number(cursor)\<close>\<close>
  "listThreads K below im folder cursor limit q =
     (let query = (case q of None \<Rightarrow> SearchAll | Some t \<Rightarrow> if js_trim t = [] then SearchAll else SearchText (js_trim t));
          all = sort (search_uids im query);
          eligible = filter (\<lambda>u. case cursor of None \<Rightarrow> True | Some c \<Rightarrow> c = [] \<or> below u c) all;
          page = last_uids (page_limit limit) eligible;
          envs = fetchEnvelopes K im page True
      in map_option (\<lambda>threads. \<lparr>tl_folder = folder, tl_threads = threads,
           tl_nextCursor = (if page \<noteq> [] \<and> length page < length eligible then Some (show_nat (hd page)) else None),
           tl_total = length all\<rparr>) (groupThreads envs folder))"

subsection \<open>Opening\<close>

definition MAX_EXPAND_ROUNDS :: nat where "MAX_EXPAND_ROUNDS = 8"

definition SEARCH_CHUNK :: nat where "SEARCH_CHUNK = 25"

function chunk :: "'a list \<Rightarrow> nat \<Rightarrow> 'a list list" where
  "chunk xs n = (if xs = [] \<or> n = 0 then [] else take n xs # chunk (drop n xs) n)"
  by pat_completeness auto
termination by (relation "measure (\<lambda>(xs, n). length xs)") auto

declare chunk.simps [simp del]

definition threadOf :: "envelope list \<Rightarrow> string \<Rightarrow> string \<Rightarrow> nat list option" where
  "threadOf envs folder rootId =
     (let seeds = map ev_uid (filter (\<lambda>e. ev_messageId e = rootId \<or> ev_inReplyTo e = rootId \<or> rootId \<in> set (ev_references e)) envs)
      in map_option (\<lambda>ts. case find (\<lambda>t. list_ex (\<lambda>u. u \<in> set seeds) (th_uids t)) ts of None \<Rightarrow> [] | Some t \<Rightarrow> th_uids t)
           (groupThreads envs folder))"

definition stand_in_re :: re where
  "stand_in_re = Seqs [AtStart, Lit ''<uid-'', Cap 1 Digits, Lit ''@local>'', AtEnd]"

definition id_search :: "string list \<Rightarrow> search" where
  "id_search ids = SearchOr (concat (map (\<lambda>i. [SearchHeader ''message-id'' i, SearchHeader ''references'' i, SearchHeader ''in-reply-to'' i]) ids))"

definition subject_search :: "string list \<Rightarrow> search" where
  "subject_search ss = SearchOr (map SearchSubject ss)"

definition found_uids :: "imap \<Rightarrow> string list \<Rightarrow> string list \<Rightarrow> nat list" where
  "found_uids im ids subjects = distinct_first
     (concat (map (\<lambda>g. search_uids im (id_search g)) (chunk ids SEARCH_CHUNK)) @
      concat (map (\<lambda>g. search_uids im (subject_search g)) (chunk subjects SEARCH_CHUNK)))"

definition ids_of :: "envelope \<Rightarrow> string list" where
  "ids_of e = ev_messageId e # ev_inReplyTo e # ev_references e"

definition subject_term :: "envelope \<Rightarrow> string" where
  "subject_term e = (if subjectKey e \<noteq> None then normalizeSubject (ev_subject e) else [])"

record hunt =
  hu_known :: "(nat \<times> envelope) list"
  hu_searchedIds :: "string list"
  hu_searchedSubjects :: "string list"
  hu_ids :: "string list"
  hu_subjects :: "string list"

definition expand_round :: "codec \<Rightarrow> imap \<Rightarrow> string \<Rightarrow> string \<Rightarrow> hunt \<Rightarrow> hunt option" where
  "expand_round K im folder rootId h =
     (let searchedIds = hu_searchedIds h @ hu_ids h;
          searchedSubjects = hu_searchedSubjects h @ hu_subjects h;
          fresh = sort (filter (\<lambda>u. map_of (hu_known h) u = None) (found_uids im (hu_ids h) (hu_subjects h)));
          known = fold (\<lambda>e. AList.update (ev_uid e) e) (fetchEnvelopes K im fresh False) (hu_known h)
      in map_option (\<lambda>members.
           (let es = filter (\<lambda>e. ev_uid e \<in> set members) (map snd known)
            in \<lparr>hu_known = known, hu_searchedIds = searchedIds, hu_searchedSubjects = searchedSubjects,
                hu_ids = distinct_first (filter (\<lambda>i. i \<noteq> [] \<and> i \<notin> set searchedIds) (concat (map ids_of es))),
                hu_subjects = distinct_first (filter (\<lambda>s. s \<noteq> [] \<and> s \<notin> set searchedSubjects) (map subject_term es))\<rparr>))
           (threadOf (map snd known) folder rootId))"

fun expand :: "codec \<Rightarrow> imap \<Rightarrow> string \<Rightarrow> string \<Rightarrow> nat \<Rightarrow> hunt \<Rightarrow> hunt option" where
  "expand K im folder rootId 0 h = Some h"
| "expand K im folder rootId (Suc n) h =
     (if hu_ids h = [] \<and> hu_subjects h = [] then Some h
      else Option.bind (expand_round K im folder rootId h) (expand K im folder rootId n))"

definition first_hunt :: "codec \<Rightarrow> imap \<Rightarrow> string \<Rightarrow> hunt" where
  "first_hunt K im rootId =
     \<lparr>hu_known = (case re_exec stand_in_re rootId of
          None \<Rightarrow> []
        | Some m \<Rightarrow> fold (\<lambda>e al. if ev_messageId e = rootId then AList.update (ev_uid e) e al else al)
            (fetchEnvelopes K im [nat_of_digits (group_str m 1)] False) []),
      hu_searchedIds = [], hu_searchedSubjects = [], hu_ids = [rootId], hu_subjects = []\<rparr>"

definition threadUids :: "codec \<Rightarrow> imap \<Rightarrow> string \<Rightarrow> string \<Rightarrow> nat list option" where
  "threadUids K im folder rootId =
     Option.bind (expand K im folder rootId MAX_EXPAND_ROUNDS (first_hunt K im rootId)) (\<lambda>h.
       map_option sort (threadOf (map snd (hu_known h)) folder rootId))"

subsection \<open>One thread\<close>








subsection \<open>The server\<close>

text \<open>
  A message answers a SEARCH when the text asked for occurs in the header named, in capitals or not for
  the subject; \<open>serves\<close>: FETCH returns the messages of the folder that were asked for, once each, and
  SEARCH returns messages of the folder and misses none that answers.
\<close>

definition text_of :: "string option \<Rightarrow> string" where
  "text_of s = (case s of None \<Rightarrow> [] | Some t \<Rightarrow> t)"

fun answers :: "fetch_message \<Rightarrow> search \<Rightarrow> bool" where
  "answers m SearchAll = True"
| "answers m (SearchText t) = False"
| "answers m (SearchSubject t) = str_includes (js_lower (text_of (fm_subject m))) (js_lower t)"
| "answers m (SearchHeader h t) =
     (if h = ''message-id'' then str_includes (text_of (fm_messageId m)) t
      else if h = ''in-reply-to'' then str_includes (text_of (fm_inReplyTo m)) t
      else t \<in> set (parseReferencesHeader (fm_headers m)))"
| "answers m (SearchOr ss) = list_ex (answers m) ss"

definition serves :: "imap \<Rightarrow> fetch_message list \<Rightarrow> bool" where
  "serves im box \<longleftrightarrow> distinct (map fm_uid box) \<and>
     (\<forall>us. mset (im_fetch im us) = mset (filter (\<lambda>m. fm_uid m \<in> set us) box)) \<and>
     (\<forall>s. set (search_uids im s) \<subseteq> fm_uid ` set box) \<and>
     (\<forall>s. \<forall>m\<in>set box. answers m s \<longrightarrow> fm_uid m \<in> set (search_uids im s))"












subsection \<open>What a round finds\<close>

lemma normalizeSubject_lower [simp]: "js_lower (normalizeSubject s) = normalizeSubject s"
  by (simp add: normalizeSubject_def)











lemma found_in_box: "serves im box \<Longrightarrow> set (found_uids im ids ss) \<subseteq> fm_uid ` set box"
  unfolding found_uids_def serves_def set_distinct_first set_append set_concat set_map by blast

subsection \<open>The rounds\<close>













subsection \<open>From the list to the thread\<close>

text \<open>The snippets change nothing that threads depend on.\<close>

definition bare :: "envelope \<Rightarrow> envelope" where
  "bare e = e\<lparr>ev_snippet := []\<rparr>"


lemma bare_of [simp]: "bare (envelope_of m) = envelope_of m"
  by (simp add: bare_def envelope_of_def toEnvelope_def)












lemma rootFromThreadId_threadIdFor [simp]: "rootFromThreadId (threadIdFor i) = Some i"
  by (simp add: rootFromThreadId_def threadIdFor_def from_to_base64 utf8_bytes utf8_text_utf8)



definition server :: "fetch_message list \<Rightarrow> imap" where
  \<comment> \<open>a server that answers exactly, without body parts\<close>
  "server box = \<lparr>im_fetch = (\<lambda>us. filter (\<lambda>m. fm_uid m \<in> set us) box), im_parts = (\<lambda>_ _. []),
     im_search = (\<lambda>s. Some (map fm_uid (filter (\<lambda>m. answers m s) box)))\<rparr>"


definition ex_mail :: "nat \<Rightarrow> string \<Rightarrow> string option \<Rightarrow> string \<Rightarrow> time \<Rightarrow> fetch_message" where
  "ex_mail uid i headers subject date = \<lparr>fm_uid = uid, fm_messageId = Some i, fm_inReplyTo = None, fm_subject = Some subject,
     fm_date = None, fm_from = [], fm_to = [], fm_flags = [], fm_bodyStructure = None, fm_internalDate = Some (Some date),
     fm_headers = headers\<rparr>"


definition spaced_box :: "fetch_message list" where
  "spaced_box = [ex_mail 1 ''<a>'' None ''Hi  you'' 10, ex_mail 2 ''<b>'' None ''Hi  you'' 20]"

definition plain_codec :: codec where
  "plain_codec = \<lparr>cd_decode = (\<lambda>_ s. Some s), cd_utf8 = (\<lambda>s. s)\<rparr>"

abbreviation list_inbox :: "fetch_message list \<Rightarrow> thread_list option" where
  "list_inbox box \<equiv> listThreads plain_codec (\<lambda>_ _. True) (server box) ''INBOX'' None None None"



text \<open>
  A run of spaces in the subject: the list joins both messages, whose normalised subjects agree, but the
  SUBJECT search for the normalised subject finds neither, so the opened thread lacks one.
\<close>

lemma spaced_subject_split:
  "\<exists>page t. list_inbox spaced_box = Some page \<and> t \<in> set (tl_threads page) \<and> th_uids t = [1, 2] \<and>
     rootFromThreadId (th_id t) = Some ''<a>'' \<and>
     threadUids plain_codec (server spaced_box) ''INBOX'' ''<a>'' = Some [1]"
proof -
  have "map_option (map (\<lambda>t. (th_id t, th_uids t)) \<circ> tl_threads) (list_inbox spaced_box) = Some [(''PGE-'', [1, 2])]"
    by code_simp
  moreover have "threadUids plain_codec (server spaced_box) ''INBOX'' ''<a>'' = Some [1]" by code_simp
  moreover have "rootFromThreadId ''PGE-'' = Some ''<a>''" by code_simp
  ultimately show ?thesis by auto
qed

end
