(* ===== verification/LogTail.thy ===== *)
theory LogTail
  imports Prelude
begin

text \<open>
  Following a log file, \<open>apps/server/src/activity/log-tail.ts\<close>: \<open>tailer\<close> holds the fields of
  \<open>LogTailer\<close>, \<open>tail_sys\<close> adds the files (a file's index is its inode, the path leads to the last
  one), the position saved in the settings and the lines handed to \<open>onLine\<close> so far. \<open>follows\<close> is the
  step relation of what can happen between two ticks: the log grows, is rotated, or the app restarts.
  \<open>lines_of\<close> is the specification: the complete lines of a file that are not empty.
\<close>

definition CHUNK :: nat where "CHUNK = 256 * 1024"

definition SAVE_MS :: int where "SAVE_MS = 5000"

record tailer =
  tr_open :: bool
  tr_ino :: nat
  tr_pos :: nat
  tr_partial :: string
  tr_savedPos :: "nat option" \<comment> \<open>None for the initial -1\<close>
  tr_lastSave :: time

record tail_sys =
  ts_files :: "string list"
  ts_tailer :: tailer
  ts_setting :: "(nat \<times> nat) option"
  ts_out :: "string list"

definition new_tailer :: tailer where
  "new_tailer = \<lparr>tr_open = False, tr_ino = 0, tr_pos = 0, tr_partial = [], tr_savedPos = None, tr_lastSave = 0\<rparr>"

definition hand_over :: "string \<Rightarrow> string list" where
  \<comment> \<open>what \<open>onLine\<close> gets of the bytes before a line feed; whether it throws makes no difference\<close>
  "hand_over raw = (let line = drop_cr raw in if line = [] then [] else [line])"

definition lines_of :: "string \<Rightarrow> string list" where
  "lines_of s = concat (map hand_over (butlast (split_on (CHR 0x0A) s)))"

definition tail_rest :: "string \<Rightarrow> string" where
  "tail_rest s = last (split_on (CHR 0x0A) s)"

definition read_chunk :: "string \<Rightarrow> tailer \<Rightarrow> string" where
  "read_chunk file t = take CHUNK (drop (tr_pos t) file)"

definition take_chunk :: "string \<Rightarrow> tailer \<Rightarrow> tailer \<times> string list" where
  "take_chunk chunk t =
     (let data = tr_partial t @ chunk
      in (t\<lparr>tr_pos := tr_pos t + length chunk, tr_partial := tail_rest data\<rparr>, lines_of data))"

function drain :: "string \<Rightarrow> tailer \<Rightarrow> tailer \<times> string list" where
  "drain file t =
     (let chunk = read_chunk file t
      in if chunk = [] then (t, [])
         else (let (t1, out1) = take_chunk chunk t; (t2, out2) = drain file t1 in (t2, out1 @ out2)))"
  by pat_completeness auto
termination
  by (relation "measure (\<lambda>(file, t). length file - tr_pos t)")
    (auto simp: read_chunk_def take_chunk_def Let_def CHUNK_def)

declare drain.simps [simp del]

definition openFile :: "nat \<Rightarrow> nat \<Rightarrow> tailer \<Rightarrow> tailer" where
  "openFile ino pos t = t\<lparr>tr_open := True, tr_ino := ino, tr_pos := pos, tr_partial := []\<rparr>"

definition done_pos :: "tailer \<Rightarrow> nat" where
  \<comment> \<open>the end of the last complete line\<close>
  "done_pos t = tr_pos t - length (tr_partial t)"

definition save :: "bool \<Rightarrow> time \<Rightarrow> tail_sys \<Rightarrow> tail_sys" where
  "save force now s =
     (let t = ts_tailer s; d = done_pos t
      in if \<not> tr_open t then s
         else if tr_savedPos t = Some d \<or> (\<not> force \<and> now - tr_lastSave t < SAVE_MS) then s
         else s\<lparr>ts_setting := Some (tr_ino t, d), ts_tailer := t\<lparr>tr_savedPos := Some d, tr_lastSave := now\<rparr>\<rparr>)"

definition drain_open :: "tail_sys \<Rightarrow> tail_sys" where
  "drain_open s = (let (t, out) = drain (ts_files s ! tr_ino (ts_tailer s)) (ts_tailer s)
     in s\<lparr>ts_tailer := t, ts_out := ts_out s @ out\<rparr>)"

definition turn_to :: "nat \<Rightarrow> nat \<Rightarrow> tail_sys \<Rightarrow> tail_sys" where
  "turn_to ino pos s = s\<lparr>ts_tailer := openFile ino pos (ts_tailer s)\<rparr>"

definition find_place :: "tail_sys \<Rightarrow> tail_sys" where
  \<comment> \<open>the branches of \<open>tick\<close> before the last \<open>drain\<close>, for a path that exists\<close>
  "find_place s =
     (let t = ts_tailer s; ino = length (ts_files s) - 1; size = length (last (ts_files s))
      in if \<not> tr_open t then
           turn_to ino (case ts_setting s of None \<Rightarrow> 0 | Some (i, p) \<Rightarrow> if i = ino \<and> p \<le> size then p else 0) s
         else if ino \<noteq> tr_ino t then turn_to ino 0 (drain_open s)
         else if size < tr_pos t then s\<lparr>ts_tailer := t\<lparr>tr_pos := 0, tr_partial := []\<rparr>\<rparr>
         else s)"

definition tick :: "time \<Rightarrow> tail_sys \<Rightarrow> tail_sys" where
  "tick now s = (if ts_files s = [] then s else save False now (drain_open (find_place s)))"

definition stop_tail :: "time \<Rightarrow> tail_sys \<Rightarrow> tail_sys" where
  "stop_tail now s = (let s1 = save True now s in s1\<lparr>ts_tailer := (ts_tailer s1)\<lparr>tr_open := False\<rparr>\<rparr>)"

definition restart :: "time \<Rightarrow> tail_sys \<Rightarrow> tail_sys" where
  \<comment> \<open>\<open>stop\<close>, then a new process whose \<open>start\<close> ticks at once\<close>
  "restart now s = tick now ((stop_tail now s)\<lparr>ts_tailer := new_tailer\<rparr>)"

subsection \<open>Lines of a file that grows\<close>


lemma tail_rest_no_lf: "CHR 0x0A \<notin> set (tail_rest s)"
  unfolding tail_rest_def by (rule split_on_parts [of _ _ s]) simp

lemma lines_of_rest [simp]: "lines_of (tail_rest s) = []" "tail_rest (tail_rest s) = tail_rest s"
  using split_on_no_sep [OF tail_rest_no_lf, of s] by (simp_all add: lines_of_def tail_rest_def [of "tail_rest s"])





subsection \<open>Reading\<close>

text \<open>What the tailer holds of its file: the bytes after the last line feed it has read.\<close>

definition in_step :: "string \<Rightarrow> tailer \<Rightarrow> bool" where
  "in_step src t \<longleftrightarrow> tr_pos t \<le> length src \<and> tr_partial t = tail_rest (take (tr_pos t) src)"



subsection \<open>What can happen\<close>







lemma in_step_cong: "tr_pos t = tr_pos t' \<Longrightarrow> tr_partial t = tr_partial t' \<Longrightarrow> in_step src t = in_step src t'"
  by (simp add: in_step_def)









definition nl :: string where "nl = [CHR 0x0A]"

definition ex_log :: "string list \<Rightarrow> tail_sys" where
  "ex_log files = \<lparr>ts_files = files, ts_tailer = new_tailer, ts_setting = None, ts_out = []\<rparr>"


subsection \<open>Where a restart is not exact\<close>

text \<open>
  The position is not written when it equals the one written last, even if that one belongs to the file
  before the rotation: after a restart the lines of the new file are read again.
\<close>

definition rotated_log :: tail_sys where
  "rotated_log = tick 7000 ((tick 6000 (ex_log [''ab'' @ nl]))\<lparr>ts_files := [''ab'' @ nl, ''cd'' @ nl]\<rparr>)"

lemma stale_restart_repeats:
  "ts_out rotated_log = [''ab'', ''cd''] \<and> ts_out (restart 20000 rotated_log) = [''ab'', ''cd'', ''cd'']"
  by code_simp

text \<open>
  \<open>stop_during k\<close>: \<open>stop\<close> runs while a chunk is being handed over, after \<open>k\<close> of its lines, and the
  process ends. \<open>pos\<close> is already past the chunk, \<open>partial\<close> not yet what is left of it.
\<close>

definition stop_during :: "nat \<Rightarrow> time \<Rightarrow> tail_sys \<Rightarrow> tail_sys" where
  "stop_during k now s =
     (let t = ts_tailer s; chunk = read_chunk (ts_files s ! tr_ino t) t
      in stop_tail now (s\<lparr>ts_tailer := t\<lparr>tr_pos := tr_pos t + length chunk\<rparr>,
           ts_out := ts_out s @ take k (lines_of (tr_partial t @ chunk))\<rparr>))"

definition busy_log :: tail_sys where
  "busy_log = (tick 1000 (ex_log [[]]))\<lparr>ts_files := [''ab'' @ nl @ ''cd'' @ nl]\<rparr>"

lemma stop_during_skips:
  "ts_out (tick 30000 ((stop_during 1 20000 busy_log)\<lparr>ts_tailer := new_tailer\<rparr>)) = [''ab'']"
  by code_simp

end
