(* ===== verification/Dns.thy ===== *)
theory Dns
  imports Postfix Models
begin

text \<open>
  DNS: the records a domain should have (\<open>apps/server/src/dns/records.ts\<close>) and the check of what the
  world answers for them (\<open>dns/check.ts\<close>, with \<open>resolver.ts\<close> and \<open>publicip.ts\<close>). What public
  resolvers answer is the record \<open>dns_view\<close>, None for a query that fails; \<open>lookups\<close> are the answers of
  the two services that tell the server its own address.
\<close>

subsection \<open>The records to publish\<close>

datatype dns_type = TypeA | TypeAAAA | TypeMX | TypeTXT | TypeSRV | TypeCNAME | TypePTR

datatype dns_group = Required | Recommended | Optional

datatype dns_match = MatchExact | MatchContains | MatchMx | MatchSrv | MatchDkim | MatchAny

record record_spec =
  rs_key :: string
  rs_group :: dns_group
  rs_title :: string
  rs_description :: string
  rs_type :: dns_type
  rs_name :: string
  rs_value :: string
  rs_priority :: "nat option"
  rs_ttl :: "nat option"
  rs_hint :: "string option"
  rs_expect :: string
  rs_match :: dns_match

definition TTL :: nat where "TTL = 3600"

definition REPORT_dmarc :: string where "REPORT_dmarc = ''dmarc''"

definition REPORT_tlsrpt :: string where "REPORT_tlsrpt = ''tlsrpt''"

function txt_parts :: "nat \<Rightarrow> string \<Rightarrow> string list" where
  "txt_parts n s = (if s = [] \<or> n = 0 then [] else take n s # txt_parts n (drop n s))"
  by pat_completeness auto
termination by (relation "measure (\<lambda>(n, s). length s)") auto

declare txt_parts.simps [simp del]

definition quote :: "string \<Rightarrow> string" where "quote s = CHR 0x22 # s @ [CHR 0x22]"

definition splitTxt :: "string \<Rightarrow> nat \<Rightarrow> string" where
  "splitTxt value n = join_with '' '' (map quote (txt_parts n value))"

definition padded :: "nat \<Rightarrow> int \<Rightarrow> string" where
  "padded w n = (let s = show_nat (nat n) in replicate (w - length s) (CHR ''0'') @ s)"

definition toISOString :: "time \<Rightarrow> string" where
  \<comment> \<open>of a time between the years 0 and 9999\<close>
  "toISOString t =
     (let d = t div 86400000; ms = t mod 86400000
      in padded 4 (year_of_day d) @ ''-'' @ padded 2 (int (month_of_day d) + 1) @ ''-'' @ padded 2 (date_of_day d) @ ''T'' @
         padded 2 (ms div 3600000) @ '':'' @ padded 2 (ms div 60000 mod 60) @ '':'' @ padded 2 (ms div 1000 mod 60) @ ''.'' @
         padded 3 (ms mod 1000) @ ''Z'')"

definition mtaStsId :: "time \<Rightarrow> string" where
  "mtaStsId now = take 12 (re_replace_all (OneOf ''-:T'') (\<lambda>_ _. []) (toISOString now))"

definition own_ip :: "string option \<Rightarrow> string" where
  "own_ip publicIp = (case publicIp of None \<Rightarrow> ''<this server's public IP>'' | Some ip \<Rightarrow> ip)"

definition dkim_value :: "domain_row \<Rightarrow> string" where
  "dkim_value d = ''v=DKIM1; k=rsa; p='' @ dom_dkimPublicKeyB64 d"

definition host_spec :: "string \<Rightarrow> string option \<Rightarrow> record_spec" where
  "host_spec hostname publicIp = \<lparr>rs_key = ''host-a'', rs_group = Required, rs_title = ''Mail server address'',
     rs_description = ''Points '' @ hostname @ '' at this server so other mail servers can reach it.'',
     rs_type = TypeA, rs_name = hostname, rs_value = own_ip publicIp, rs_priority = None, rs_ttl = Some TTL, rs_hint = None,
     rs_expect = (case publicIp of None \<Rightarrow> [] | Some ip \<Rightarrow> ip),
     rs_match = (if publicIp \<noteq> None \<and> publicIp \<noteq> Some [] then MatchExact else MatchAny)\<rparr>"

definition mx_spec :: "string \<Rightarrow> string \<Rightarrow> record_spec" where
  "mx_spec d hostname = \<lparr>rs_key = ''mx'', rs_group = Required, rs_title = ''MX record'',
     rs_description = ''Tells the world that mail for this domain is delivered to this server.'',
     rs_type = TypeMX, rs_name = d, rs_value = hostname @ ''.'', rs_priority = Some 10, rs_ttl = Some TTL, rs_hint = None,
     rs_expect = hostname, rs_match = MatchMx\<rparr>"

definition spf_spec :: "string \<Rightarrow> record_spec" where
  "spf_spec d = \<lparr>rs_key = ''spf'', rs_group = Required, rs_title = ''SPF'',
     rs_description = ''Authorizes this server (via the MX record) to send mail for the domain.'',
     rs_type = TypeTXT, rs_name = d, rs_value = ''v=spf1 mx -all'', rs_priority = None, rs_ttl = Some TTL, rs_hint = None,
     rs_expect = ''v=spf1 mx -all'', rs_match = MatchExact\<rparr>"

definition dkim_spec :: "domain_row \<Rightarrow> record_spec" where
  "dkim_spec d = \<lparr>rs_key = ''dkim'', rs_group = Required, rs_title = ''DKIM public key'',
     rs_description = ''Lets receivers verify the cryptographic signature added to every outgoing message.'',
     rs_type = TypeTXT, rs_name = dom_dkimSelector d @ ''._domainkey.'' @ dom_name d, rs_value = splitTxt (dkim_value d) 255,
     rs_priority = None, rs_ttl = Some TTL,
     rs_hint = Some ''Long TXT values are entered as several quoted strings; most DNS providers accept the single long value as-is.'',
     rs_expect = dkim_value d, rs_match = MatchDkim\<rparr>"

definition dmarc_spec :: "string \<Rightarrow> record_spec" where
  "dmarc_spec d = \<lparr>rs_key = ''dmarc'', rs_group = Required, rs_title = ''DMARC policy'',
     rs_description = ''Tells receivers what to do with mail that fails SPF/DKIM and where to send reports. Start with p=none, move to p=quarantine once everything passes.'',
     rs_type = TypeTXT, rs_name = ''_dmarc.'' @ d,
     rs_value = ''v=DMARC1; p=none; rua=mailto:'' @ REPORT_dmarc @ ''@'' @ d @ ''; adkim=s; aspf=s'',
     rs_priority = None, rs_ttl = Some TTL, rs_hint = None, rs_expect = ''v=DMARC1;'', rs_match = MatchContains\<rparr>"

definition ptr_spec :: "string \<Rightarrow> string option \<Rightarrow> record_spec" where
  "ptr_spec hostname publicIp = \<lparr>rs_key = ''ptr'', rs_group = Required, rs_title = ''Reverse DNS (PTR)'',
     rs_description = ''Set at your VPS provider, not in your domain's DNS: the server IP must resolve back to '' @ hostname @ ''.'',
     rs_type = TypePTR, rs_name = own_ip publicIp, rs_value = hostname @ ''.'', rs_priority = None, rs_ttl = None, rs_hint = None,
     rs_expect = hostname, rs_match = MatchExact\<rparr>"

definition autoconfig_spec :: "string \<Rightarrow> string \<Rightarrow> record_spec" where
  "autoconfig_spec d hostname = \<lparr>rs_key = ''autoconfig'', rs_group = Recommended, rs_title = ''Autoconfig hostname'',
     rs_description = ''Lets Thunderbird and other clients configure themselves from just the email address.'',
     rs_type = TypeCNAME, rs_name = ''autoconfig.'' @ d, rs_value = hostname @ ''.'', rs_priority = None, rs_ttl = Some TTL, rs_hint = None,
     rs_expect = hostname, rs_match = MatchExact\<rparr>"

definition sts_host_spec :: "string \<Rightarrow> string \<Rightarrow> record_spec" where
  "sts_host_spec d hostname = \<lparr>rs_key = ''mta-sts-host'', rs_group = Recommended, rs_title = ''MTA-STS policy host'',
     rs_description = ''Serves the MTA-STS policy over HTTPS (handled automatically by this server).'',
     rs_type = TypeCNAME, rs_name = ''mta-sts.'' @ d, rs_value = hostname @ ''.'', rs_priority = None, rs_ttl = Some TTL, rs_hint = None,
     rs_expect = hostname, rs_match = MatchExact\<rparr>"

definition sts_txt_spec :: "string \<Rightarrow> time \<Rightarrow> record_spec" where
  "sts_txt_spec d now = \<lparr>rs_key = ''mta-sts-txt'', rs_group = Recommended, rs_title = ''MTA-STS record'',
     rs_description = ''Announces that a transport security policy exists. Bump the id whenever the policy changes.'',
     rs_type = TypeTXT, rs_name = ''_mta-sts.'' @ d, rs_value = ''v=STSv1; id='' @ mtaStsId now, rs_priority = None, rs_ttl = Some TTL,
     rs_hint = None, rs_expect = ''v=STSv1;'', rs_match = MatchContains\<rparr>"

definition tlsrpt_spec :: "string \<Rightarrow> record_spec" where
  "tlsrpt_spec d = \<lparr>rs_key = ''tlsrpt'', rs_group = Recommended, rs_title = ''TLS reporting'',
     rs_description = ''Receive reports about TLS delivery problems.'',
     rs_type = TypeTXT, rs_name = ''_smtp._tls.'' @ d, rs_value = ''v=TLSRPTv1; rua=mailto:'' @ REPORT_tlsrpt @ ''@'' @ d,
     rs_priority = None, rs_ttl = Some TTL, rs_hint = None, rs_expect = ''v=TLSRPTv1;'', rs_match = MatchContains\<rparr>"

definition srv_services :: "(string \<times> nat) list" where
  "srv_services = [(''_imaps._tcp'', 993), (''_submission._tcp'', 587), (''_submissions._tcp'', 465), (''_pop3s._tcp'', 995)]"

definition srv_key_re :: re where
  "srv_key_re = Alt (Seq AtStart (Lit ''_'')) (Seq (Lit ''._tcp'') AtEnd)"

definition srv_spec :: "string \<Rightarrow> string \<Rightarrow> string \<times> nat \<Rightarrow> record_spec" where
  "srv_spec d hostname s = \<lparr>rs_key = ''srv-'' @ re_replace_all srv_key_re (\<lambda>_ _. []) (fst s), rs_group = Optional,
     rs_title = ''Service discovery '' @ fst s,
     rs_description = ''SRV record advertising '' @ show_nat (snd s) @ '' on '' @ hostname @ '' for client auto-setup.'',
     rs_type = TypeSRV, rs_name = fst s @ ''.'' @ d, rs_value = ''0 1 '' @ show_nat (snd s) @ '' '' @ hostname @ ''.'',
     rs_priority = Some 0, rs_ttl = Some TTL, rs_hint = None, rs_expect = show_nat (snd s) @ '' '' @ hostname, rs_match = MatchSrv\<rparr>"

definition buildRecordSpecs :: "domain_row \<Rightarrow> string \<Rightarrow> string option \<Rightarrow> time \<Rightarrow> record_spec list" where
  "buildRecordSpecs domain hostname publicIp now =
     (let d = dom_name domain
      in (if hostname = d \<or> ends_with hostname (''.'' @ d) then [host_spec hostname publicIp] else []) @
         [mx_spec d hostname, spf_spec d, dkim_spec domain, dmarc_spec d, ptr_spec hostname publicIp,
          autoconfig_spec d hostname, sts_host_spec d hostname, sts_txt_spec d now, tlsrpt_spec d] @
         map (srv_spec d hostname) srv_services)"

subsection \<open>This server's own address\<close>

definition PUBLIC_IP_TTL :: int where "PUBLIC_IP_TTL = 3600000"

record public_ip =
  pi_ip :: "string option"
  pi_at :: time

fun first_answer :: "string option list \<Rightarrow> string option" where
  \<comment> \<open>the services in order; None for one that cannot be reached, answers an error or no address\<close>
  "first_answer [] = None"
| "first_answer (a # as) = (case a of None \<Rightarrow> first_answer as | Some ip \<Rightarrow> if ip = [] then first_answer as else Some ip)"

definition getPublicIp :: "bool \<Rightarrow> string option list \<Rightarrow> time \<Rightarrow> public_ip \<Rightarrow> string option \<times> public_ip" where
  "getPublicIp force lookups now cached =
     (if \<not> force \<and> pi_ip cached \<noteq> None \<and> pi_ip cached \<noteq> Some [] \<and> now - pi_at cached < PUBLIC_IP_TTL then (pi_ip cached, cached)
      else (case first_answer lookups of
              Some ip \<Rightarrow> (Some ip, \<lparr>pi_ip = Some ip, pi_at = now\<rparr>)
            | None \<Rightarrow> (pi_ip cached, cached)))"

subsection \<open>The check\<close>

record dns_view =
  resolve4 :: "string \<Rightarrow> string list option"
  resolve6 :: "string \<Rightarrow> string list option"
  resolveMx :: "string \<Rightarrow> (nat \<times> string) list option"
  resolveTxt :: "string \<Rightarrow> string list list option"
  resolveSrv :: "string \<Rightarrow> (nat \<times> nat \<times> nat \<times> string) list option"
  resolveCname :: "string \<Rightarrow> string list option"
  reverse_dns :: "string \<Rightarrow> string list option"

definition safe :: "'a option \<Rightarrow> 'a \<Rightarrow> 'a" where
  "safe p fallback = (case p of None \<Rightarrow> fallback | Some x \<Rightarrow> x)"

definition txt_of :: "dns_view \<Rightarrow> string \<Rightarrow> string list" where
  "txt_of v name = map concat (safe (resolveTxt v name) [])"

definition drop_dot :: "string \<Rightarrow> string" where
  "drop_dot s = (if s \<noteq> [] \<and> last s = CHR ''.'' then butlast s else s)"

definition squeeze :: "string \<Rightarrow> string" where
  "squeeze s = re_replace_all (Plus (Chr js_space)) (\<lambda>_ _. '' '') s"

definition norm :: "string \<Rightarrow> string" where
  "norm s = drop_dot (squeeze (js_lower (js_trim s)))"

definition truthy :: "string option \<Rightarrow> bool" where
  "truthy x \<longleftrightarrow> x \<noteq> None \<and> x \<noteq> Some []"

definition lookup_spec :: "dns_view \<Rightarrow> record_spec \<Rightarrow> string option \<Rightarrow> string list" where
  "lookup_spec v spec publicIp = (case rs_type spec of
     TypeA \<Rightarrow> safe (resolve4 v (rs_name spec)) []
   | TypeAAAA \<Rightarrow> safe (resolve6 v (rs_name spec)) []
   | TypeMX \<Rightarrow> map (\<lambda>(p, e). show_nat p @ '' '' @ e) (safe (resolveMx v (rs_name spec)) [])
   | TypeTXT \<Rightarrow> txt_of v (rs_name spec)
   | TypeSRV \<Rightarrow> map (\<lambda>(p, w, port, n). show_nat p @ '' '' @ show_nat w @ '' '' @ show_nat port @ '' '' @ n)
       (safe (resolveSrv v (rs_name spec)) [])
   | TypeCNAME \<Rightarrow>
       (let cname = safe (resolveCname v (rs_name spec)) []
        in if cname \<noteq> [] then cname
           else map (\<lambda>ip. if truthy publicIp \<and> Some ip = publicIp then rs_expect spec else ip) (safe (resolve4 v (rs_name spec)) []))
   | TypePTR \<Rightarrow> if truthy publicIp then safe (reverse_dns v (the publicIp)) [] else [])"

definition dkim_key_re :: re where
  \<comment> \<open>\<open>/(?:^|;)\s*p=([^;]*)/i\<close>\<close>
  "dkim_key_re = Seqs [Alt AtStart (Lit '';''), Star (Chr js_space), LitI ''p='', Cap 1 (Star (NotIn '';''))]"

definition dkim_key :: "string \<Rightarrow> string" where
  "dkim_key txt = (case re_exec dkim_key_re txt of
     None \<Rightarrow> [] | Some m \<Rightarrow> re_replace_all (Plus (Chr js_space)) (\<lambda>_ _. []) (group_str m 1))"

datatype dns_status = DnsOk | DnsMissing | DnsMismatch

definition ok_if :: "bool \<Rightarrow> dns_status" where "ok_if b = (if b then DnsOk else DnsMismatch)"

definition evaluate :: "record_spec \<Rightarrow> string list \<Rightarrow> dns_status" where
  "evaluate spec found =
     (if rs_match spec = MatchAny then (if found \<noteq> [] then DnsOk else DnsMissing)
      else if found = [] then DnsMissing
      else (let want = norm (rs_expect spec); hits = map norm found
            in case rs_match spec of
                 MatchExact \<Rightarrow> ok_if (list_ex (\<lambda>h. h = want) hits)
               | MatchContains \<Rightarrow> ok_if (list_ex (\<lambda>h. starts_with h want \<or> str_includes h want) hits)
               | MatchMx \<Rightarrow> ok_if (list_ex (\<lambda>h. last (split_on (CHR '' '') h) = want) hits)
               | MatchSrv \<Rightarrow> ok_if (list_ex (\<lambda>h. ends_with h want) hits)
               | MatchDkim \<Rightarrow> (let wanted = dkim_key (rs_expect spec)
                   in ok_if (wanted \<noteq> [] \<and> list_ex (\<lambda>f. dkim_key f = wanted) found))))"

record dns_record =
  dr_spec :: record_spec
  dr_found :: "string list"
  dr_status :: dns_status

record dns_check =
  dc_domain :: string
  dc_hostname :: string
  dc_checkedAt :: time
  dc_allRequiredOk :: bool
  dc_records :: "dns_record list"

definition check_record :: "dns_view \<Rightarrow> string option \<Rightarrow> record_spec \<Rightarrow> dns_record" where
  "check_record v publicIp spec =
     (let found = lookup_spec v spec publicIp in \<lparr>dr_spec = spec, dr_found = found, dr_status = evaluate spec found\<rparr>)"

definition checkDomainDns :: "config \<Rightarrow> dns_view \<Rightarrow> string option \<Rightarrow> domain_row \<Rightarrow> time \<Rightarrow> dns_check" where
  \<comment> \<open>\<open>publicIp\<close> is what \<open>getPublicIp\<close> answers\<close>
  "checkDomainDns C v publicIp domain now =
     (let records = map (check_record v publicIp) (buildRecordSpecs domain (cfg_MAIL_HOSTNAME C) publicIp now)
      in \<lparr>dc_domain = dom_name domain, dc_hostname = cfg_MAIL_HOSTNAME C, dc_checkedAt = now,
          dc_allRequiredOk = list_all (\<lambda>r. dr_status r = DnsOk) (filter (\<lambda>r. rs_group (dr_spec r) = Required) records),
          dc_records = records\<rparr>)"

definition DNS_CACHE_MS :: int where "DNS_CACHE_MS = 600000"

definition cachedDomainDns ::
    "config \<Rightarrow> dns_view \<Rightarrow> string option \<Rightarrow> domain_row \<Rightarrow> bool \<Rightarrow> time \<Rightarrow> (string \<rightharpoonup> dns_check \<times> time)
      \<Rightarrow> dns_check \<times> (string \<rightharpoonup> dns_check \<times> time)" where
  \<comment> \<open>the table \<open>dns_checks\<close> by domain\<close>
  "cachedDomainDns C v publicIp domain refresh now rows =
     (let fetch = (let result = checkDomainDns C v publicIp domain now in (result, rows(dom_id domain \<mapsto> (result, now))))
      in if refresh then fetch
         else case rows (dom_id domain) of
                None \<Rightarrow> fetch
              | Some (result, checked) \<Rightarrow> if now - checked < DNS_CACHE_MS then (result, rows) else fetch)"

record hostname_check =
  hc_hostname :: string
  hc_publicIp :: "string option"
  hc_aRecords :: "string list"
  hc_aMatches :: bool
  hc_ptr :: "string list"
  hc_ptrMatches :: bool
  hc_warnings :: "string list"

definition warn_if :: "bool \<Rightarrow> string \<Rightarrow> string list" where "warn_if b w = (if b then [w] else [])"

definition checkHostname :: "dns_view \<Rightarrow> string option \<Rightarrow> string \<Rightarrow> hostname_check" where
  "checkHostname v publicIp hostname =
     (let a4 = safe (resolve4 v hostname) []; a6 = safe (resolve6 v hostname) []; aRecords = a4 @ a6;
          ptr = (if truthy publicIp then safe (reverse_dns v (the publicIp)) [] else []);
          aMatches = (truthy publicIp \<and> the publicIp \<in> set a4);
          ptrMatches = (norm hostname \<in> set (map norm ptr));
          ip = (case publicIp of None \<Rightarrow> ''unknown'' | Some x \<Rightarrow> x)
      in \<lparr>hc_hostname = hostname, hc_publicIp = publicIp, hc_aRecords = aRecords, hc_aMatches = aMatches, hc_ptr = ptr,
          hc_ptrMatches = ptrMatches, hc_warnings =
            warn_if (\<not> truthy publicIp) ''Could not determine this server's public IP address (no outbound internet access?).'' @
            warn_if (aRecords = []) (''No A/AAAA record found for '' @ hostname @ ''. Create one pointing at this server.'') @
            warn_if (aRecords \<noteq> [] \<and> \<not> aMatches)
              (hostname @ '' resolves to '' @ join_with '', '' aRecords @ '', which is not this server ('' @ ip @ '').'') @
            warn_if (truthy publicIp \<and> \<not> ptrMatches)
              (''Reverse DNS for '' @ ip @ '' is '' @ (if ptr \<noteq> [] then join_with '', '' ptr else ''not set'') @ ''; set it to '' @
               hostname @ '' at your hosting provider or most providers will reject your mail.'') @
            warn_if (a6 \<noteq> []) ''An AAAA record exists. Outbound mail uses IPv4 only; remove the AAAA record or configure an IPv6 PTR as well.''\<rparr>)"

subsection \<open>Comparing text\<close>

lemma search_skip:
  "list_all (\<lambda>c. \<not> p c) u \<Longrightarrow> re_search (Plus (Chr p)) b (u @ s) =
    map_option (\<lambda>(skip, st). (u @ skip, st)) (re_search (Plus (Chr p)) (rev u @ b) s)"
proof (induction u arbitrary: b)
  case Nil
  then show ?case by (simp add: option.map_ident prod.case_eq_if)
next
  case (Cons x u)
  have "re_search (Plus (Chr p)) b (x # u @ s) = map_option (\<lambda>(skip, st). (x # skip, st)) (re_search (Plus (Chr p)) (x # b) (u @ s))"
    using Cons.prems by (simp add: re_match_Plus_Chr del: re_match.simps)
  with Cons show ?case by (simp add: option.map_comp comp_def prod.case_eq_if)
qed

lemma replace_skip:
  assumes "list_all (\<lambda>c. \<not> p c) u"
  shows "re_replace_from (Plus (Chr p)) f b (u @ s) = u @ re_replace_from (Plus (Chr p)) f (rev u @ b) s"
proof (cases "re_search (Plus (Chr p)) (rev u @ b) s")
  case None
  then show ?thesis using search_skip [OF assms, of b s] by (simp add: re_replace_from.simps [of _ _ b] re_replace_from.simps [of _ _ "rev u @ b"])
next
  case (Some r)
  obtain skip b' rest c where r: "r = (skip, (b', rest, c))" by (cases r) auto
  define w where "w = drop (length skip) (take (length s - length rest) s)"
  have "length rest \<le> length s" using re_search_advances [OF Some [unfolded r]] by auto
  then have d: "drop (length (u @ skip)) (take (length (u @ s) - length rest) (u @ s)) = w"
    by (simp add: Nat.add_diff_assoc w_def)
  have "re_search (Plus (Chr p)) b (u @ s) = Some (u @ skip, (b', rest, c))"
    using search_skip [OF assms, of b s] Some r by simp
  then have "re_replace_from (Plus (Chr p)) f b (u @ s) = (u @ skip) @ f c w @
      (if w = [] then (case rest of [] \<Rightarrow> [] | x # rest' \<Rightarrow> x # re_replace_from (Plus (Chr p)) f (x # b') rest')
       else re_replace_from (Plus (Chr p)) f b' rest)"
    unfolding re_replace_from.simps [of _ _ b] by (simp only: option.case prod.case Let_def d)
  also have "\<dots> = u @ re_replace_from (Plus (Chr p)) f (rev u @ b) s"
    unfolding re_replace_from.simps [of _ _ "rev u @ b"] by (simp only: Some r option.case prod.case Let_def w_def append_assoc)
  finally show ?thesis .
qed

lemma replace_none: "list_all (\<lambda>c. \<not> p c) u \<Longrightarrow> re_replace_from (Plus (Chr p)) f b u = u"
  using replace_skip [of p u f b "[]"] by (simp add: re_replace_from.simps [of _ _ "rev u @ b"] Plus_def)

lemma replace_one:
  assumes "p x" "s = [] \<or> \<not> p (hd s)"
  shows "re_replace_from (Plus (Chr p)) (\<lambda>_ _. w) b (x # s) = w @ re_replace_from (Plus (Chr p)) (\<lambda>_ _. w) (x # b) s"
proof -
  have "first_match (Plus (Chr p)) (b, [x] @ s, []) (rev [x] @ b, s, [])"
    by (rule first_plus) (use assms in auto)
  then have "re_search (Plus (Chr p)) b (x # s) = Some ([], (x # b, s, []))" by (auto simp: first_match_def)
  then show ?thesis by (simp add: re_replace_from.simps [of _ _ b])
qed

abbreviation spaceless :: "string \<Rightarrow> bool" where
  "spaceless u \<equiv> list_all (\<lambda>c. \<not> js_space c) u"

lemma spaceless_lower [simp]: "spaceless (js_lower u) = spaceless u"
  by (simp add: js_lower_def list_all_iff)

lemma squeeze_word: "spaceless u \<Longrightarrow> squeeze (u @ s) = u @ re_replace_from (Plus (Chr js_space)) (\<lambda>_ _. '' '') (rev u) s"
  using replace_skip [of js_space u "\<lambda>_ _. '' ''" "[]" s] by (simp add: squeeze_def re_replace_all_def)

text \<open>Words set apart by one space each: comparing changes only case and a final dot.\<close>

lemma squeeze_words:
  "ws \<noteq> [] \<Longrightarrow> list_all (\<lambda>w. spaceless w \<and> w \<noteq> []) ws \<Longrightarrow>
    re_replace_from (Plus (Chr js_space)) (\<lambda>_ _. '' '') b (join_with '' '' ws) = join_with '' '' ws"
proof (induction "'' ''" ws arbitrary: b rule: join_with.induct)
  case (2 w)
  then show ?case by (simp add: replace_none)
next
  case (3 w v ws)
  obtain x xs where v: "v = x # xs" "\<not> js_space x" using 3(3) by (cases v) auto
  then have h: "join_with '' '' (v # ws) = [] \<or> \<not> js_space (hd (join_with '' '' (v # ws)))" by (cases ws) auto
  have "re_replace_from (Plus (Chr js_space)) (\<lambda>_ _. '' '') b (w @ CHR '' '' # join_with '' '' (v # ws)) =
      w @ '' '' @ join_with '' '' (v # ws)"
    using 3 replace_skip [of js_space w "\<lambda>_ _. '' ''" b "CHR '' '' # join_with '' '' (v # ws)"]
      replace_one [of js_space "CHR '' ''" "join_with '' '' (v # ws)" "'' ''" "rev w @ b", OF _ h]
    by (simp add: js_space_def)
  then show ?case by simp
qed simp

lemma join_word_ends:
  "ws \<noteq> [] \<Longrightarrow> list_all (\<lambda>w. spaceless w \<and> w \<noteq> []) ws \<Longrightarrow>
    join_with '' '' ws \<noteq> [] \<and> hd (join_with '' '' ws) = hd (hd ws) \<and> last (join_with '' '' ws) = last (last ws)"
proof (induction "'' ''" ws rule: join_with.induct)
  case (3 w v ws)
  then show ?case by (cases w) auto
qed auto

lemma norm_words:
  assumes "ws \<noteq> []" "list_all (\<lambda>w. spaceless w \<and> w \<noteq> []) ws"
  shows "norm (join_with '' '' ws) = drop_dot (join_with '' '' (map js_lower ws))"
proof -
  have low: "js_lower (join_with '' '' ws) = join_with '' '' (map js_lower ws)"
  proof (induction "'' ''" ws rule: join_with.induct)
    case (3 w v ws)
    have "lower_char (CHR '' '') = CHR '' ''" by code_simp
    with 3 show ?case by (simp add: js_lower_def)
  qed (simp_all add: js_lower_def)
  have ends: "spaceless (hd ws) \<and> hd ws \<noteq> []" "spaceless (last ws) \<and> last ws \<noteq> []"
    using assms hd_in_set [OF assms(1)] last_in_set [OF assms(1)] by (auto simp: list_all_iff)
  have "js_trim (join_with '' '' ws) = join_with '' '' ws"
    using join_word_ends [OF assms] ends by (intro js_trim_id) (auto simp: list_all_iff)
  moreover have "squeeze (join_with '' '' (map js_lower ws)) = join_with '' '' (map js_lower ws)"
    unfolding squeeze_def re_replace_all_def using assms by (intro squeeze_words) (simp_all add: list.pred_map comp_def)
  ultimately show ?thesis by (simp add: norm_def low)
qed

lemma drop_dot_append: "b \<noteq> [] \<Longrightarrow> drop_dot (a @ b) = a @ drop_dot b"
  by (simp add: drop_dot_def butlast_append)

lemma js_trim_word:
  assumes "spaceless u" "u \<noteq> []"
  shows "\<exists>s'. js_trim (u @ s) = u @ s'"
proof -
  have l: "trim_left (u @ s) = u @ s" using assms by (intro trim_left_id) (cases u; simp)
  have r: "trim_left (rev u) = rev u" using assms by (intro trim_left_id) (simp add: hd_rev list_all_iff)
  show ?thesis
  proof (cases "\<forall>c \<in> set s. js_space c")
    case True
    then have "trim_left (rev s @ rev u) = trim_left (rev u)"
      unfolding trim_left_def by (intro dropWhile_append2) simp
    with l r have "js_trim (u @ s) = u @ []" by (simp add: js_trim_def)
    then show ?thesis by blast
  next
    case False
    then have "trim_left (rev s @ rev u) = trim_left (rev s) @ rev u" by (auto simp: trim_left_def dropWhile_append)
    with l have "js_trim (u @ s) = u @ rev (trim_left (rev s))" by (simp add: js_trim_def)
    then show ?thesis by blast
  qed
qed

lemma norm_prefix:
  assumes "spaceless u" "u \<noteq> []" "last (js_lower u) \<noteq> CHR ''.''"
  shows "prefix (js_lower u) (norm (u @ s))"
proof -
  obtain s' where t: "js_trim (u @ s) = u @ s'" using js_trim_word assms by blast
  obtain x where x: "squeeze (js_lower (u @ s')) = js_lower u @ x"
    using assms squeeze_word [of "js_lower u"] by (auto simp: js_lower_append)
  show ?thesis
  proof (cases x)
    case Nil
    with assms show ?thesis by (simp add: norm_def t x drop_dot_def)
  next
    case (Cons c y)
    with drop_dot_append [of x "js_lower u"] show ?thesis by (simp add: norm_def t x)
  qed
qed

subsection \<open>The key in a DKIM record\<close>

lemma dkim_no_start: "b \<noteq> [] \<Longrightarrow> x \<noteq> CHR '';'' \<Longrightarrow> re_match dkim_key_re (b, x # s, []) = []"
  by (simp add: dkim_key_re_def)

lemma dkim_search_skip:
  "b \<noteq> [] \<Longrightarrow> x \<noteq> CHR '';'' \<Longrightarrow> re_search dkim_key_re b (x # s) =
    map_option (\<lambda>(skip, st). (x # skip, st)) (re_search dkim_key_re (x # b) s)"
  by (simp add: dkim_no_start)

lemma dkim_here:
  assumes "list_all (\<lambda>c. c \<noteq> CHR '';'') k" "b \<noteq> []"
  shows "first_match dkim_key_re (b, CHR '';'' # CHR '' '' # CHR ''p'' # CHR ''='' # k, [])
    (rev k @ ''=p ;'' @ b, [], [(1, k)])"
proof -
  have "first_match (Alt AtStart (Lit '';'')) (b, CHR '';'' # CHR '' '' # CHR ''p'' # CHR ''='' # k, [])
      (CHR '';'' # b, CHR '' '' # CHR ''p'' # CHR ''='' # k, [])"
    using assms(2) by (simp add: first_match_def)
  moreover have "first_match (Star (Chr js_space)) (CHR '';'' # b, '' '' @ CHR ''p'' # CHR ''='' # k, [])
      (rev '' '' @ CHR '';'' # b, CHR ''p'' # CHR ''='' # k, [])"
    by (rule first_star) (simp_all add: js_space_def)
  moreover have "first_match (LitI ''p='') ('' ;'' @ b, CHR ''p'' # CHR ''='' # k, []) (''=p ;'' @ b, k, [])"
    by (simp add: first_match_def)
  moreover have "first_match (Cap 1 (Star (NotIn '';''))) (''=p ;'' @ b, k @ [], []) (rev k @ ''=p ;'' @ b, [], [(1, k)])"
    by (rule first_Cap, rule first_star) (use assms(1) in simp_all)
  ultimately show ?thesis
    unfolding dkim_key_re_def by (intro first_Seqs first_Seqs_last) simp_all
qed

lemma dkim_at_v: "re_match dkim_key_re ([], CHR ''v'' # s, []) = []"
proof -
  have "js_space (CHR ''v'') = False" "lower_char (CHR ''v'') = CHR ''v''" "lower_char (CHR ''p'') = CHR ''p''" by code_simp+
  then show ?thesis by (simp add: dkim_key_re_def)
qed

lemma dkim_at_k: "b \<noteq> [] \<Longrightarrow> re_match dkim_key_re (b, CHR '';'' # CHR '' '' # CHR ''k'' # s, []) = []"
proof -
  have "js_space (CHR ''k'') = False" "lower_char (CHR ''k'') = CHR ''k''" "lower_char (CHR ''p'') = CHR ''p''"
    "lower_char (CHR '' '') = CHR '' ''" "js_space (CHR '' '')" by code_simp+
  then show "b \<noteq> [] \<Longrightarrow> ?thesis" by (simp add: dkim_key_re_def)
qed

lemma dkim_key_value:
  assumes "list_all (\<lambda>c. c \<noteq> CHR '';'') k"
  shows "dkim_key (''v=DKIM1; k=rsa; p='' @ k) = re_replace_all (Plus (Chr js_space)) (\<lambda>_ _. []) k"
proof -
  let ?b = "rev ''v=DKIM1; k=rsa''"
  obtain xs where "re_match dkim_key_re (?b, CHR '';'' # CHR '' '' # CHR ''p'' # CHR ''='' # k, []) =
      (rev k @ ''=p ;'' @ ?b, [], [(1, k)]) # xs"
    using dkim_here [OF assms, of ?b] unfolding first_match_def by auto
  then have "re_search dkim_key_re ?b (CHR '';'' # CHR '' '' # CHR ''p'' # CHR ''='' # k) =
      Some ([], (rev k @ ''=p ;'' @ ?b, [], [(1, k)]))" by simp
  then have "re_search dkim_key_re [] (''v=DKIM1; k=rsa; p='' @ k) =
      Some (''v=DKIM1; k=rsa'', (rev k @ ''=p ;'' @ ?b, [], [(1, k)]))"
    by (simp add: dkim_at_v dkim_at_k dkim_no_start)
  then show ?thesis by (simp add: dkim_key_def re_exec_def group_str_def group_def)
qed

subsection \<open>Publishing\<close>

text \<open>
  \<open>publishes v spec\<close>: the world sees the record, entered the way the page shows it. A value in quotes is
  read as the strings of a TXT record, a final dot as the end of a full name.
\<close>

fun every_other :: "'a list \<Rightarrow> 'a list" where
  "every_other (x # y # zs) = y # every_other zs"
| "every_other _ = []"

definition txt_strings :: "string \<Rightarrow> string list" where
  "txt_strings s = (if s \<noteq> [] \<and> hd s = CHR 0x22 then every_other (split_on (CHR 0x22) s) else [s])"

definition has :: "'a list option \<Rightarrow> 'a \<Rightarrow> bool" where "has answers x \<longleftrightarrow> x \<in> set (safe answers [])"

definition publishes :: "dns_view \<Rightarrow> record_spec \<Rightarrow> bool" where
  "publishes v spec = (case rs_type spec of
     TypeA \<Rightarrow> has (resolve4 v (rs_name spec)) (rs_value spec)
   | TypeAAAA \<Rightarrow> has (resolve6 v (rs_name spec)) (rs_value spec)
   | TypeMX \<Rightarrow> has (resolveMx v (rs_name spec)) (safe (rs_priority spec) 0, drop_dot (rs_value spec))
   | TypeTXT \<Rightarrow> has (resolveTxt v (rs_name spec)) (txt_strings (rs_value spec))
   | TypeSRV \<Rightarrow> (case split_on (CHR '' '') (rs_value spec) of
       [p, w, port, target] \<Rightarrow> has (resolveSrv v (rs_name spec)) (nat_of_digits p, nat_of_digits w, nat_of_digits port, drop_dot target)
     | _ \<Rightarrow> False)
   | TypeCNAME \<Rightarrow> has (resolveCname v (rs_name spec)) (drop_dot (rs_value spec))
   | TypePTR \<Rightarrow> has (reverse_dns v (rs_name spec)) (drop_dot (rs_value spec)))"

lemma every_other_first: "every_other (x # zs) = every_other (y # zs)"
  by (cases zs) simp_all

lemma quoted_strings:
  "ps \<noteq> [] \<Longrightarrow> list_all (\<lambda>p. CHR 0x22 \<notin> set p) ps \<Longrightarrow> txt_strings (join_with '' '' (map quote ps)) = ps"
proof (induction "'' ''" ps rule: join_with.induct)
  case (2 p)
  then show ?case by (simp add: txt_strings_def quote_def split_on_append_sep)
next
  case (3 p q ps)
  let ?rest = "join_with '' '' (map quote (q # ps))"
  obtain r where r: "?rest = CHR 0x22 # r" by (cases ps) (auto simp: quote_def)
  have "every_other (split_on (CHR 0x22) ?rest) = q # ps"
    using 3 r by (simp add: txt_strings_def)
  then have rest: "every_other ([] # split_on (CHR 0x22) r) = q # ps" unfolding r by simp
  have "split_on (CHR 0x22) (CHR '' '' # ?rest) = '' '' # split_on (CHR 0x22) r" unfolding r by simp
  then have "split_on (CHR 0x22) (join_with '' '' (map quote (p # q # ps))) = [] # p # '' '' # split_on (CHR 0x22) r"
    using 3(3) by (simp add: quote_def split_on_append_sep)
  moreover have "txt_strings (join_with '' '' (map quote (p # q # ps))) =
      every_other (split_on (CHR 0x22) (join_with '' '' (map quote (p # q # ps))))"
    by (simp add: txt_strings_def quote_def)
  ultimately show ?case using rest every_other_first [of "'' ''" "split_on (CHR 0x22) r" "[]"] by simp
qed simp

lemma txt_parts_concat: "0 < n \<Longrightarrow> concat (txt_parts n s) = s"
  by (induction n s rule: txt_parts.induct) (subst txt_parts.simps, auto)

lemma txt_parts_sub: "p \<in> set (txt_parts n s) \<Longrightarrow> set p \<subseteq> set s"
proof (induction n s rule: txt_parts.induct)
  case (1 n s)
  then show ?case by (subst (asm) (2) txt_parts.simps) (auto split: if_splits dest: in_set_takeD in_set_dropD)
qed

lemma splitTxt_read:
  assumes "s \<noteq> []" "0 < n" "CHR 0x22 \<notin> set s"
  shows "concat (txt_strings (splitTxt s n)) = s"
proof -
  have "txt_parts n s \<noteq> []" using assms(1,2) by (subst txt_parts.simps) simp
  moreover have "list_all (\<lambda>p. CHR 0x22 \<notin> set p) (txt_parts n s)"
    using assms(3) txt_parts_sub [of _ n s] by (auto simp: list_all_iff)
  ultimately show ?thesis using txt_parts_concat [OF assms(2)] by (simp add: splitTxt_def quoted_strings)
qed

definition host_text :: "string \<Rightarrow> bool" where "host_text h \<longleftrightarrow> h \<noteq> [] \<and> spaceless h"

definition key_text :: "string \<Rightarrow> bool" where
  "key_text k \<longleftrightarrow> k \<noteq> [] \<and> list_all (\<lambda>c. \<not> js_space c \<and> c \<noteq> CHR '';'' \<and> c \<noteq> CHR 0x22) k"

lemma js_space_blank: "js_space (CHR '' '')"
  by code_simp

lemma digits_spaceless: "spaceless (show_nat n)"
proof -
  have "\<not> js_space c" if "c \<in> set (show_nat n)" for c
    using show_nat_digit [OF that] by (auto simp: js_digit_def js_space_def)
  then show ?thesis by (simp add: list_all_iff)
qed

lemma spaceless_no_blank: "spaceless u \<Longrightarrow> CHR '' '' \<notin> set u"
  using js_space_blank by (auto simp: list_all_iff)

lemma evaluate_exact: "rs_match spec = MatchExact \<Longrightarrow> rs_expect spec \<in> set found \<Longrightarrow> evaluate spec found = DnsOk"
  by (auto simp: evaluate_def Let_def ok_if_def list_ex_iff)

lemma evaluate_contains:
  assumes "rs_match spec = MatchContains" "f \<in> set found" "prefix (norm (rs_expect spec)) (norm f)"
  shows "evaluate spec found = DnsOk"
  using assms by (auto simp: evaluate_def Let_def ok_if_def list_ex_iff starts_with_def)

lemma norm_last_word:
  assumes "host_text h" "ws \<noteq> []" "list_all (\<lambda>w. spaceless w \<and> w \<noteq> []) ws"
  shows "norm (join_with '' '' ws @ '' '' @ h) = join_with '' '' (map js_lower ws) @ '' '' @ norm h"
proof -
  have j: "join_with '' '' (us @ [w]) = join_with '' '' us @ '' '' @ w" if "us \<noteq> []" for us w
    using that by (induction "'' ''" us rule: join_with.induct) auto
  have "norm h = drop_dot (js_lower h)" using norm_words [of "[h]"] assms(1) by (simp add: host_text_def)
  moreover have "norm (join_with '' '' (ws @ [h])) = drop_dot (join_with '' '' (map js_lower ws) @ '' '' @ js_lower h)"
    using norm_words [of "ws @ [h]"] assms j [of "map js_lower ws"] by (simp add: host_text_def)
  moreover have "\<dots> = join_with '' '' (map js_lower ws) @ '' '' @ drop_dot (js_lower h)"
    using drop_dot_append [of "js_lower h" "join_with '' '' (map js_lower ws) @ '' ''"] assms(1) by (simp add: host_text_def)
  ultimately show ?thesis using j [OF assms(2), of h] by simp
qed

lemma norm_host_word: "host_text h \<Longrightarrow> spaceless (norm h)"
  using norm_words [of "[h]"] spaceless_lower [of h]
  by (simp add: host_text_def drop_dot_def list_all_iff del: spaceless_lower) (meson in_set_butlastD)

lemma evaluate_mx:
  assumes "rs_match spec = MatchMx" "host_text (rs_expect spec)" "show_nat p @ '' '' @ rs_expect spec \<in> set found"
  shows "evaluate spec found = DnsOk"
proof -
  let ?h = "rs_expect spec"
  have n: "norm (show_nat p @ '' '' @ ?h) = js_lower (show_nat p) @ CHR '' '' # norm ?h"
    using norm_last_word [OF assms(2), of "[show_nat p]"] digits_spaceless by simp
  have "CHR '' '' \<notin> set (js_lower (show_nat p))" "CHR '' '' \<notin> set (norm ?h)"
    using spaceless_no_blank digits_spaceless norm_host_word [OF assms(2)] by simp_all
  then have "last (split_on (CHR '' '') (norm (show_nat p @ '' '' @ ?h))) = norm ?h"
    unfolding n by (simp add: split_on_append_sep split_on_no_sep)
  with assms(1,3) show ?thesis by (auto simp: evaluate_def Let_def ok_if_def list_ex_iff)
qed

lemma evaluate_srv:
  assumes "rs_match spec = MatchSrv" "rs_expect spec = show_nat port @ '' '' @ h" "host_text h"
    and "show_nat p @ '' '' @ show_nat w @ '' '' @ show_nat port @ '' '' @ h \<in> set found"
  shows "evaluate spec found = DnsOk"
proof -
  have "norm (show_nat port @ '' '' @ h) = js_lower (show_nat port) @ '' '' @ norm h"
    using norm_last_word [OF assms(3), of "[show_nat port]"] digits_spaceless by simp
  moreover have "norm (show_nat p @ '' '' @ show_nat w @ '' '' @ show_nat port @ '' '' @ h) =
      (js_lower (show_nat p) @ '' '' @ js_lower (show_nat w) @ '' '') @ js_lower (show_nat port) @ '' '' @ norm h"
    using norm_last_word [OF assms(3), of "[show_nat p, show_nat w, show_nat port]"] digits_spaceless by simp
  ultimately have "ends_with (norm (show_nat p @ '' '' @ show_nat w @ '' '' @ show_nat port @ '' '' @ h)) (norm (rs_expect spec))"
    by (simp only: ends_with_def suffix_def assms(2)) blast
  with assms(1,4) show ?thesis by (auto simp: evaluate_def Let_def ok_if_def list_ex_iff)
qed

lemma evaluate_dkim:
  assumes "key_text (dom_dkimPublicKeyB64 d)" "dkim_value d \<in> set found"
  shows "evaluate (dkim_spec d) found = DnsOk"
proof -
  let ?k = "dom_dkimPublicKeyB64 d"
  have "dkim_key (dkim_value d) = ?k"
    using dkim_key_value [of ?k] replace_none [of js_space ?k "\<lambda>_ _. []" "[]"] assms(1)
    by (simp add: dkim_value_def key_text_def list_all_iff re_replace_all_def)
  with assms show ?thesis by (auto simp: evaluate_def Let_def ok_if_def list_ex_iff key_text_def dkim_spec_def)
qed

definition tag_text :: "string \<Rightarrow> bool" where
  "tag_text u \<longleftrightarrow> u \<noteq> [] \<and> hd u \<noteq> CHR 0x22 \<and> spaceless u \<and> last (js_lower u) \<noteq> CHR ''.'' \<and> norm u = js_lower u"

lemma tag_texts: "tag_text ''v=DMARC1;''" "tag_text ''v=STSv1;''" "tag_text ''v=TLSRPTv1;''"
  by code_simp+

lemma published_tag:
  assumes "publishes v spec" "rs_type spec = TypeTXT" "rs_match spec = MatchContains"
    and "rs_value spec = rs_expect spec @ s" "tag_text (rs_expect spec)"
  shows "evaluate spec (lookup_spec v spec ip) = DnsOk"
proof -
  have "txt_strings (rs_value spec) = [rs_value spec]"
    using assms(4,5) by (cases "rs_expect spec") (simp_all add: txt_strings_def tag_text_def)
  then have "[rs_value spec] \<in> set (safe (resolveTxt v (rs_name spec)) [])"
    using assms(1,2) by (simp add: publishes_def has_def)
  then have "rs_value spec \<in> set (lookup_spec v spec ip)"
    using assms(2) by (auto simp: lookup_spec_def txt_of_def intro!: rev_image_eqI)
  with assms(3-5) norm_prefix [of "rs_expect spec" s] show ?thesis
    by (intro evaluate_contains) (simp_all add: tag_text_def)
qed

lemma published_found:
  assumes "publishes v spec" "spec \<in> set (buildRecordSpecs d h (Some ip) now)" "ip \<noteq> []" "host_text h"
    and "key_text (dom_dkimPublicKeyB64 d)"
  shows "dr_status (check_record v (Some ip) spec) = DnsOk"
proof -
  let ?l = "lookup_spec v spec (Some ip)"
  have dot: "drop_dot (x @ ''.'') = x" for x by (simp add: drop_dot_def)
  have "evaluate spec ?l = DnsOk"
  proof -
    from assms(2) consider (host) "spec = host_spec h (Some ip)" | (mx) "spec = mx_spec (dom_name d) h"
      | (spf) "spec = spf_spec (dom_name d)" | (dkim) "spec = dkim_spec d" | (dmarc) "spec = dmarc_spec (dom_name d)"
      | (ptr) "spec = ptr_spec h (Some ip)" | (conf) "spec = autoconfig_spec (dom_name d) h" | (stshost) "spec = sts_host_spec (dom_name d) h"
      | (sts) "spec = sts_txt_spec (dom_name d) now" | (tls) "spec = tlsrpt_spec (dom_name d)"
      | (srv) s where "spec = srv_spec (dom_name d) h s"
      unfolding buildRecordSpecs_def Let_def by (auto split: if_splits)
    then show ?thesis
    proof cases
      case host
      with assms(1,3) show ?thesis
        by (intro evaluate_exact) (auto simp: host_spec_def publishes_def lookup_spec_def has_def own_ip_def)
    next
      case mx
      with assms(1) have "(10, h) \<in> set (safe (resolveMx v (dom_name d)) [])"
        by (simp add: mx_spec_def publishes_def has_def safe_def dot)
      with mx assms(4) show ?thesis
        by (intro evaluate_mx [where p = 10]) (auto simp: mx_spec_def lookup_spec_def intro!: rev_image_eqI)
    next
      case spf
      with assms(1) have "[''v=spf1 mx -all''] \<in> set (safe (resolveTxt v (dom_name d)) [])"
        by (simp add: spf_spec_def publishes_def has_def txt_strings_def)
      with spf show ?thesis
        by (intro evaluate_exact) (auto simp: spf_spec_def lookup_spec_def txt_of_def intro!: rev_image_eqI)
    next
      case dkim
      have "CHR 0x22 \<notin> set (dkim_value d)" "dkim_value d \<noteq> []"
        using assms(5) by (auto simp: dkim_value_def key_text_def list_all_iff)
      then have "concat (txt_strings (rs_value spec)) = dkim_value d" using splitTxt_read dkim by (simp add: dkim_spec_def)
      moreover have "concat (txt_strings (rs_value spec)) \<in> set ?l"
        using assms(1) dkim by (simp add: dkim_spec_def publishes_def has_def lookup_spec_def txt_of_def)
      ultimately show ?thesis using evaluate_dkim [OF assms(5)] dkim by simp
    next
      case dmarc
      with assms(1) tag_texts(1) show ?thesis
        by (intro published_tag [where s = "'' p=none; rua=mailto:'' @ REPORT_dmarc @ ''@'' @ dom_name d @ ''; adkim=s; aspf=s''"])
          (simp_all add: dmarc_spec_def)
    next
      case ptr
      with assms(1,3) show ?thesis
        by (intro evaluate_exact) (auto simp: ptr_spec_def publishes_def lookup_spec_def has_def own_ip_def truthy_def dot)
    next
      case conf
      with assms(1) show ?thesis
        by (intro evaluate_exact) (auto simp: autoconfig_spec_def publishes_def lookup_spec_def has_def dot Let_def)
    next
      case stshost
      with assms(1) show ?thesis
        by (intro evaluate_exact) (auto simp: sts_host_spec_def publishes_def lookup_spec_def has_def dot Let_def)
    next
      case sts
      with assms(1) tag_texts(2) show ?thesis
        by (intro published_tag [where s = "'' id='' @ mtaStsId now"]) (simp_all add: sts_txt_spec_def)
    next
      case tls
      with assms(1) tag_texts(3) show ?thesis
        by (intro published_tag [where s = "'' rua=mailto:'' @ REPORT_tlsrpt @ ''@'' @ dom_name d"]) (simp_all add: tlsrpt_spec_def)
    next
      case (srv s)
      have "spaceless h" using assms(4) by (simp add: host_text_def)
      then have "split_on (CHR '' '') (''0 1 '' @ show_nat (snd s) @ '' '' @ h @ ''.'') = [''0'', ''1'', show_nat (snd s), h @ ''.'']"
        using spaceless_no_blank [OF digits_spaceless] spaceless_no_blank [of h] by (simp add: split_on_append_sep split_on_no_sep)
      moreover have "nat_of_digits ''0'' = 0" "nat_of_digits ''1'' = 1" "show_nat 0 = ''0''" "show_nat 1 = ''1''" by code_simp+
      ultimately have "(0, 1, snd s, h) \<in> set (safe (resolveSrv v (fst s @ ''.'' @ dom_name d)) [])"
        using srv assms(1) by (simp add: srv_spec_def publishes_def has_def dot)
      with srv assms(4) show ?thesis
        by (intro evaluate_srv [where p = 0 and w = 1 and port = "snd s" and h = h])
          (auto simp: srv_spec_def lookup_spec_def intro!: rev_image_eqI)
    qed
  qed
  then show ?thesis by (simp add: check_record_def Let_def)
qed

text \<open>
  C28: Whoever enters the records as the page shows them passes the check: when the resolvers answer with
  every shown record, long keys split into strings as the value says, among whatever else they answer, all
  records are found to be right and the domain counts as set up.
\<close>

theorem published_records_pass:
  assumes "list_all (publishes v) (buildRecordSpecs d (cfg_MAIL_HOSTNAME C) (Some ip) now)"
    and "host_text (cfg_MAIL_HOSTNAME C)" and "key_text (dom_dkimPublicKeyB64 d)" and "ip \<noteq> []"
  shows "dc_allRequiredOk (checkDomainDns C v (Some ip) d now) \<and>
    list_all (\<lambda>r. dr_status r = DnsOk) (dc_records (checkDomainDns C v (Some ip) d now))"
proof -
  have "list_all (\<lambda>r. dr_status r = DnsOk) (dc_records (checkDomainDns C v (Some ip) d now))"
    using published_found [OF _ _ assms(4,2,3)] assms(1) by (auto simp: checkDomainDns_def Let_def list_all_iff)
  then show ?thesis by (auto simp: checkDomainDns_def Let_def list_all_iff)
qed

definition ex_dns_domain :: domain_row where
  "ex_dns_domain = \<lparr>dom_id = ''d1'', dom_name = ''a.org'', dom_active = True, dom_dkimSelector = ''mail'',
     dom_dkimPrivateKeyPem = ''pem'', dom_dkimPublicKeyB64 = ''MIIBIjAN'', dom_createdAt = 0\<rparr>"

definition ex_view :: dns_view where
  "ex_view = \<lparr>resolve4 = (\<lambda>_. Some [''192.0.2.7'']), resolve6 = (\<lambda>_. None), resolveMx = (\<lambda>_. Some [(10, ''mail.a.org'')]),
     resolveTxt = (\<lambda>_. Some [[''google-site-verification=x''], [''v=spf1 mx -all''], [''v=DKIM1; k=rsa; p=MIIBIjAN''],
       [''v=DMARC1; p=none; rua=mailto:dmarc@a.org; adkim=s; aspf=s''], [''v=STSv1; id=197001020000''],
       [''v=TLSRPTv1; rua=mailto:tlsrpt@a.org'']]),
     resolveSrv = (\<lambda>_. Some [(0, 1, 993, ''mail.a.org''), (0, 1, 587, ''mail.a.org''), (0, 1, 465, ''mail.a.org''), (0, 1, 995, ''mail.a.org'')]),
     resolveCname = (\<lambda>_. Some [''mail.a.org'']), reverse_dns = (\<lambda>_. Some [''mail.a.org''])\<rparr>"

theorem published_records_pass_witness:
  "dc_allRequiredOk (checkDomainDns (default_config ''mail.a.org'') ex_view (Some ''192.0.2.7'') ex_dns_domain 86400000) \<and>
    list_all (\<lambda>r. dr_status r = DnsOk) (dc_records (checkDomainDns (default_config ''mail.a.org'') ex_view (Some ''192.0.2.7'') ex_dns_domain 86400000))"
proof (rule published_records_pass)
  show "list_all (publishes ex_view) (buildRecordSpecs ex_dns_domain (cfg_MAIL_HOSTNAME (default_config ''mail.a.org'')) (Some ''192.0.2.7'') 86400000)"
    by code_simp
  show "host_text (cfg_MAIL_HOSTNAME (default_config ''mail.a.org''))" by code_simp
  show "key_text (dom_dkimPublicKeyB64 ex_dns_domain)" by code_simp
  show "''192.0.2.7'' \<noteq> []" by simp
qed

lemma required_ok_means:
  assumes "dc_allRequiredOk (checkDomainDns C v publicIp d now)"
  shows "\<exists>(p, e) \<in> set (safe (resolveMx v (dom_name d)) []). last (split_on (CHR '' '') (norm (show_nat p @ '' '' @ e))) = norm (cfg_MAIL_HOSTNAME C)"
    and "\<exists>t \<in> set (txt_of v (dom_name d)). norm t = norm ''v=spf1 mx -all''"
    and "\<exists>t \<in> set (txt_of v (dom_dkimSelector d @ ''._domainkey.'' @ dom_name d)). dkim_key t \<noteq> [] \<and> dkim_key t = dkim_key (dkim_value d)"
    and "truthy publicIp \<and> (\<exists>h \<in> set (safe (reverse_dns v (the publicIp)) []). norm h = norm (cfg_MAIL_HOSTNAME C))"
proof -
  have req: "evaluate s (lookup_spec v s publicIp) = DnsOk"
    if "s \<in> set (buildRecordSpecs d (cfg_MAIL_HOSTNAME C) publicIp now)" "rs_group s = Required" for s
    using assms that by (auto simp: checkDomainDns_def Let_def list_all_iff check_record_def image_iff)
  have ok: "evaluate s (lookup_spec v s publicIp) = DnsOk"
    if "s \<in> {mx_spec (dom_name d) (cfg_MAIL_HOSTNAME C), spf_spec (dom_name d), dkim_spec d, ptr_spec (cfg_MAIL_HOSTNAME C) publicIp}" for s
  proof (rule req)
    show "s \<in> set (buildRecordSpecs d (cfg_MAIL_HOSTNAME C) publicIp now)"
      using that unfolding buildRecordSpecs_def Let_def by auto
    show "rs_group s = Required"
      using that by (elim insertE emptyE) (simp_all add: mx_spec_def spf_spec_def dkim_spec_def ptr_spec_def)
  qed
  show "\<exists>(p, e) \<in> set (safe (resolveMx v (dom_name d)) []). last (split_on (CHR '' '') (norm (show_nat p @ '' '' @ e))) = norm (cfg_MAIL_HOSTNAME C)"
    using ok [of "mx_spec (dom_name d) (cfg_MAIL_HOSTNAME C)"]
    by (auto simp: evaluate_def Let_def ok_if_def list_ex_iff mx_spec_def lookup_spec_def split: if_splits)
  show "\<exists>t \<in> set (txt_of v (dom_name d)). norm t = norm ''v=spf1 mx -all''"
    using ok [of "spf_spec (dom_name d)"]
    by (auto simp: evaluate_def Let_def ok_if_def list_ex_iff spf_spec_def lookup_spec_def split: if_splits)
  show "\<exists>t \<in> set (txt_of v (dom_dkimSelector d @ ''._domainkey.'' @ dom_name d)). dkim_key t \<noteq> [] \<and> dkim_key t = dkim_key (dkim_value d)"
    using ok [of "dkim_spec d"]
    by (simp add: evaluate_def Let_def ok_if_def list_ex_iff dkim_spec_def lookup_spec_def split: if_splits) metis
  show "truthy publicIp \<and> (\<exists>h \<in> set (safe (reverse_dns v (the publicIp)) []). norm h = norm (cfg_MAIL_HOSTNAME C))"
    using ok [of "ptr_spec (cfg_MAIL_HOSTNAME C) publicIp"]
    by (auto simp: evaluate_def Let_def ok_if_def list_ex_iff ptr_spec_def lookup_spec_def split: if_splits)
qed

end
