(* ===== verification/SetupSteps.thy ===== *)
theory SetupSteps
  imports Directory Bans Dns
begin

text \<open>
  The setup steps of \<open>apps/server/src/admin/setup-steps.ts\<close> with their handlers in
  \<open>admin/routes.ts\<close>: the addresses the published DMARC and TLS-RPT records name (\<open>dns/records.ts\<close>),
  whether each of them delivers, and the operation that makes them deliver. \<open>desk\<close> is the office with
  the setting that lists the skipped steps; \<open>mid\<close> and \<open>newId\<close> give the ids of new rows.
\<close>

subsection \<open>Skipped steps\<close>

record desk =
  sd_office :: office
  sd_skipped :: allow_setting

definition skippedSteps :: "allow_setting \<Rightarrow> string list" where
  "skippedSteps v = (case v of Array ks \<Rightarrow> distinct_first (List.map_filter id ks) | _ \<Rightarrow> [])"

definition setStepSkipped :: "string \<Rightarrow> bool \<Rightarrow> desk \<Rightarrow> desk" where
  "setStepSkipped key skip s =
     (let old = skippedSteps (sd_skipped s)
      in s\<lparr>sd_skipped := Array (map Some
           (if skip then (if key \<in> set old then old else old @ [key]) else filter (\<lambda>k. k \<noteq> key) old))\<rparr>)"

subsection \<open>Report addresses\<close>

definition REPORT_LOCAL_PARTS :: "string list" where
  "REPORT_LOCAL_PARTS = [REPORT_dmarc, REPORT_tlsrpt]"

record report_address =
  rp_domain :: domain_row
  rp_localPart :: string
  rp_address :: string
  rp_ok :: bool
  rp_disabledMailbox :: bool
  rp_detail :: string

definition wanted_reports :: "(string \<Rightarrow> string \<Rightarrow> bool) \<Rightarrow> office \<Rightarrow> (domain_row \<times> string) list" where
  "wanted_reports le st =
     concat (map (\<lambda>d. map (Pair d) REPORT_LOCAL_PARTS) (order_by le dom_name (filter dom_active (domains st))))"

definition report_email :: "domain_row \<times> string \<Rightarrow> string" where
  "report_email w = snd w @ ''@'' @ dom_name (fst w)"

definition judge_report :: "mailbox_row list \<Rightarrow> alias_row list \<Rightarrow> domain_row \<times> string \<Rightarrow> report_address" where
  "judge_report ms as w =
     (let address = report_email w;
          mailbox = find (\<lambda>m. mb_email m = address) ms;
          targets = map al_destination (filter (\<lambda>a. al_source a = address) as);
          r = (\<lambda>good off detail. \<lparr>rp_domain = fst w, rp_localPart = snd w, rp_address = address,
                 rp_ok = good, rp_disabledMailbox = off, rp_detail = detail\<rparr>)
      in case mailbox of
           Some m \<Rightarrow>
             if mb_active m \<and> mb_receiveMail m then r True False ''Mailbox''
             else if mb_active m
             then r False True ''Send-only mailbox: turn on receiving, or delete it so an alias can take its place''
             else r False True ''Disabled mailbox: enable it, or delete it so an alias can take its place''
         | None \<Rightarrow>
             if targets \<noteq> [] then r True False (''Forwards to '' @ join_with '', '' targets)
             else r False False ''Missing: reports sent here bounce'')"

definition reportAddresses :: "(string \<Rightarrow> string \<Rightarrow> bool) \<Rightarrow> office \<Rightarrow> report_address list" where
  "reportAddresses le st =
     (let wanted = wanted_reports le st;
          emails = map report_email wanted;
          ms = filter (\<lambda>m. mb_email m \<in> set emails) (mailboxes st);
          as = order_by le al_destination (filter (\<lambda>a. al_source a \<in> set emails \<and> al_active a) (of_aliases st))
      in map (judge_report ms as) wanted)"

definition deliverable :: "string \<Rightarrow> office \<Rightarrow> bool" where
  "deliverable address st \<longleftrightarrow>
     list_ex (\<lambda>m. mb_email m = address \<and> mb_active m \<and> mb_receiveMail m) (mailboxes st) \<or>
     list_ex (\<lambda>a. al_source a = address \<and> al_active a) (of_aliases st)"

datatype report_input =
    Forward string
  | NewMailbox string string string string \<comment> \<open>\<open>domainId\<close>, \<open>localPart\<close>, \<open>displayName\<close>, \<open>password\<close>\<close>

definition forward_refused :: "report_address list \<Rightarrow> string \<Rightarrow> office \<Rightarrow> http_error option" where
  "forward_refused missing x st =
     (if list_ex (\<lambda>r. rp_address r = x) missing
      then Some (badRequest (x @ '' is one of the addresses being created; pick a mailbox that already exists.''))
      else if find_domain (after_last (CHR ''@'') x) st \<noteq> None \<and> \<not> deliverable x st
      then Some (badRequest (x @ '' does not exist on this server.''))
      else None)"

definition report_alias :: "(string \<Rightarrow> string) \<Rightarrow> string \<Rightarrow> time \<Rightarrow> report_address \<Rightarrow> office \<Rightarrow> http_error + office" where
  "report_alias newId x now r st =
     (case find (\<lambda>a. al_source a = rp_address r \<and> al_destination a = x) (of_aliases st) of
        Some a \<Rightarrow> Inr (st\<lparr>of_aliases := update_where (\<lambda>b. al_id b = al_id a) (\<lambda>b. b\<lparr>al_active := True\<rparr>) (of_aliases st)\<rparr>)
      | None \<Rightarrow>
          if length (rp_address r) > 254 then Inl internal_error \<comment> \<open>the width of the column\<close>
          else Inr (st\<lparr>of_aliases := of_aliases st @
                 [new_alias (newId (rp_address r)) (dom_id (rp_domain r)) (rp_address r) x now]\<rparr>))"

fun report_aliases ::
    "(string \<Rightarrow> string) \<Rightarrow> string \<Rightarrow> time \<Rightarrow> report_address list \<Rightarrow> office \<Rightarrow> http_error + string list \<times> office" where
  "report_aliases newId x now [] st = Inr ([], st)"
| "report_aliases newId x now (r # rs) st =
     (if rp_address r = x then report_aliases newId x now rs st
      else case report_alias newId x now r st of
        Inl e \<Rightarrow> Inl e
      | Inr st1 \<Rightarrow> (case report_aliases newId x now rs st1 of
          Inl e \<Rightarrow> Inl e | Inr (ads, st2) \<Rightarrow> Inr (rp_address r # ads, st2)))"

record report_result =
  rr_addresses :: "string list"
  rr_destination :: string
  rr_mailbox :: "mailbox_row option"

definition apply_transaction ::
    "(string \<Rightarrow> string) \<Rightarrow> time \<Rightarrow> report_address list \<Rightarrow> string \<Rightarrow> (http_error + mailbox_row option) \<times> office \<Rightarrow> office
      \<Rightarrow> (http_error + report_result) \<times> office" where
  \<comment> \<open>the second office is the one a rollback returns to\<close>
  "apply_transaction newId now missing x begun st =
     (case begun of
        (Inl e, _) \<Rightarrow> (Inl e, st)
      | (Inr mailbox, st1) \<Rightarrow>
          (case report_aliases newId x now missing st1 of
             Inl e \<Rightarrow> (Inl e, st)
           | Inr (ads, st2) \<Rightarrow> (Inr \<lparr>rr_addresses = ads, rr_destination = x, rr_mailbox = mailbox\<rparr>, st2)))"

definition applyReportAddresses ::
    "(string \<Rightarrow> string \<Rightarrow> bool) \<Rightarrow> (string \<Rightarrow> string) \<Rightarrow> string \<Rightarrow> (string \<Rightarrow> string) \<Rightarrow> report_input \<Rightarrow> time \<Rightarrow> office
      \<Rightarrow> (http_error + report_result) \<times> office" where
  "applyReportAddresses le hash mid newId input now st =
     (let missing = filter (\<lambda>r. \<not> rp_ok r) (reportAddresses le st)
      in case find rp_disabledMailbox missing of
           Some b \<Rightarrow> (Inl (badRequest (rp_address b @
             '' is a mailbox that does not receive mail. Enable it, or delete it so an alias can take its place.'')), st)
         | None \<Rightarrow>
             (case input of
                Forward x \<Rightarrow>
                  (case forward_refused missing x st of
                     Some e \<Rightarrow> (Inl e, st)
                   | None \<Rightarrow> apply_transaction newId now missing x (Inr None, st) st)
              | NewMailbox domainId localPart displayName password \<Rightarrow>
                  (case requireDomain domainId st of
                     Inl e \<Rightarrow> (Inl e, st)
                   | Inr d \<Rightarrow>
                       apply_transaction newId now missing (localPart @ ''@'' @ dom_name d)
                         (case createMailbox hash mid d \<lparr>mc_localPart = localPart, mc_displayName = displayName,
                             mc_password = password, mc_quotaBytes = 0, mc_isAdmin = False, mc_receiveMail = None\<rparr> now st of
                            (Inl e, st1) \<Rightarrow> (Inl e, st1) | (Inr m, st1) \<Rightarrow> (Inr (Some m), st1)) st)))"

subsection \<open>The list of steps and the handlers\<close>

datatype step_state = StepDone | StepTodo | StepSkipped

record step_item =
  it_label :: string
  it_done :: bool
  it_detail :: string

record setup_step =
  sp_key :: string
  sp_title :: string
  sp_description :: string
  sp_state :: step_state
  sp_items :: "step_item list"

record step_def =
  sf_key :: string
  sf_title :: string
  sf_description :: string
  sf_check :: "(string \<Rightarrow> string \<Rightarrow> bool) \<Rightarrow> office \<Rightarrow> step_item list"

definition report_item :: "report_address \<Rightarrow> step_item" where
  "report_item r = \<lparr>it_label = rp_address r, it_done = rp_ok r, it_detail = rp_detail r\<rparr>"

definition STEPS :: "step_def list" where
  "STEPS = [\<lparr>sf_key = ''report-addresses'', sf_title = ''DMARC and TLS report addresses'',
     sf_description = ''Each domain's DMARC and TLS-RPT records ask other providers to send reports to its dmarc@ and tlsrpt@ address. Those addresses have to exist, or the reports bounce. They can forward to a mailbox you already have, or to a separate mailbox just for reports.'',
     sf_check = (\<lambda>le st. map report_item (reportAddresses le st))\<rparr>]"

definition show_step :: "(string \<Rightarrow> string \<Rightarrow> bool) \<Rightarrow> desk \<Rightarrow> step_def \<Rightarrow> setup_step" where
  "show_step le s f =
     (let items = sf_check f le (sd_office s)
      in \<lparr>sp_key = sf_key f, sp_title = sf_title f, sp_description = sf_description f,
          sp_state = (if list_all it_done items then StepDone
                      else if sf_key f \<in> set (skippedSteps (sd_skipped s)) then StepSkipped else StepTodo),
          sp_items = items\<rparr>)"

definition listSetupSteps :: "(string \<Rightarrow> string \<Rightarrow> bool) \<Rightarrow> desk \<Rightarrow> setup_step list" where
  "listSetupSteps le s = map (show_step le s) STEPS"

definition postReportAddresses ::
    "actor \<Rightarrow> (string \<Rightarrow> string \<Rightarrow> bool) \<Rightarrow> (string \<Rightarrow> string) \<Rightarrow> string \<Rightarrow> (string \<Rightarrow> string) \<Rightarrow> report_input \<Rightarrow> time \<Rightarrow> desk
      \<Rightarrow> setup_step list response \<times> desk" where
  "postReportAddresses c le hash mid newId body now s =
     (case applyReportAddresses le hash mid newId body now (sd_office s) of
        (Inl e, st) \<Rightarrow> (Inl e, s\<lparr>sd_office := st\<rparr>)
      | (Inr r, st) \<Rightarrow>
          (let st1 = (case rr_mailbox r of
                 None \<Rightarrow> st
               | Some m \<Rightarrow> audit c ''mailbox.create'' (Some (mb_email m)) [(''quotaBytes'', Num 0), (''isAdmin'', Bool False)] now st);
               s1 = s\<lparr>sd_office := audit c ''setup.report_addresses'' (Some (rr_destination r))
                 [(''addresses'', Arr (map Str (rr_addresses r)))] now st1\<rparr>
           in (Inr (200, listSetupSteps le s1), s1)))"

definition postStepSkip ::
    "actor \<Rightarrow> (string \<Rightarrow> string \<Rightarrow> bool) \<Rightarrow> string \<Rightarrow> bool \<Rightarrow> time \<Rightarrow> desk \<Rightarrow> setup_step list response \<times> desk" where
  "postStepSkip c le key skipped now s =
     (if key \<notin> set [''report-addresses''] then (Inl (notFound ''Unknown setup step''), s)
      else (let s1 = setStepSkipped key skipped s;
                s2 = s1\<lparr>sd_office := audit c (if skipped then ''setup.skip'' else ''setup.reopen'') (Some key) [] now (sd_office s1)\<rparr>
            in (Inr (200, listSetupSteps le s2), s2)))"


lemma set_insert_by: "set (insert_by le k x ys) = insert x (set ys)"
  by (induction ys) auto

lemma set_order_by [simp]: "set (order_by le k xs) = set xs"
  by (induction xs) (auto simp: order_by_def set_insert_by)

text \<open>The addresses the records of \<open>Dns\<close> ask for reports at are the ones the step is about.\<close>

lemma records_name_reports:
  assumes "d \<in> set (domains st)" "dom_active d"
  shows "\<exists>w w'. {w, w'} \<subseteq> set (wanted_reports le st) \<and>
    rs_value (dmarc_spec (dom_name d)) = ''v=DMARC1; p=none; rua=mailto:'' @ report_email w @ ''; adkim=s; aspf=s'' \<and>
    rs_value (tlsrpt_spec (dom_name d)) = ''v=TLSRPTv1; rua=mailto:'' @ report_email w'"
  using assms
  by (intro exI [of _ "(d, REPORT_dmarc)"] exI [of _ "(d, REPORT_tlsrpt)"])
    (auto simp: wanted_reports_def REPORT_LOCAL_PARTS_def dmarc_spec_def tlsrpt_spec_def report_email_def)

subsection \<open>What applying the step leaves\<close>


















definition ex_desk :: "bool \<Rightarrow> desk" where
  "ex_desk on = \<lparr>sd_office = ex_office\<lparr>of_web := (of_web ex_office)\<lparr>w_domains := [ex_domain ''d1'' ''a.org'', (ex_domain ''d2'' ''b.org'')\<lparr>dom_active := on\<rparr>]\<rparr>\<rparr>,
     sd_skipped = Missing\<rparr>"

definition str_le :: "string \<Rightarrow> string \<Rightarrow> bool" where
  "str_le s t = ord_class.lexordp_eq (map of_char s) (map (of_char :: char \<Rightarrow> nat) t)"

lemma report_addresses_example:
  "map al_source (of_aliases (sd_office (snd (postReportAddresses ex_actor str_le id ''m9'' id (Forward ''ann@a.org'') 5 (ex_desk True))))) =
     [''info@a.org'', ''dmarc@a.org'', ''tlsrpt@a.org'', ''dmarc@b.org'', ''tlsrpt@b.org''] \<and>
   map sp_state (listSetupSteps str_le (ex_desk True)) = [StepTodo]"
  by code_simp

text \<open>
  Whether the domain of the new mailbox is active is not asked: the step shows as done although Postfix
  takes no mail for the address everything is forwarded to.
\<close>

lemma reports_to_disabled_domain:
  "case postReportAddresses ex_actor str_le id ''m9'' id (NewMailbox ''d2'' ''reports'' ''Reports'' ''long password'') 5 (ex_desk False) of
     (Inr (code, steps), s') \<Rightarrow> map sp_state steps = [StepDone] \<and>
       map (\<lambda>a. (al_source a, al_destination a)) (filter al_active (of_aliases (sd_office s'))) =
         [(''dmarc@a.org'', ''reports@b.org''), (''tlsrpt@a.org'', ''reports@b.org'')] \<and>
       map dom_name (filter dom_active (domains (sd_office s'))) = [''a.org'']
   | _ \<Rightarrow> False"
  by code_simp

end
